(* ===== verification/Prelude.thy ===== *)
theory Prelude
  imports Main "HOL-Library.Word" "HOL-Library.List_Lexorder" "HOL-Library.Multiset"
    "HOL-Library.Monad_Syntax"
begin

section \<open>Shared vocabulary of the development\<close>

text \<open>
  This theory holds what every component uses: the names of the Go types of the
  source, the reading of Go's slices (an index out of range is a run-time panic,
  modelled by the value \<^term>\<open>None\<close>), the conversions between \<open>int\<close> and
  \<open>uint64\<close>, Go's sorting contract, and the generic lemmas about weighted sets of
  indices on which the quorum arguments rest.

  Conventions used throughout:
  \<^item> a function whose Go original may panic returns an option, \<^term>\<open>None\<close> being
    the panic; a nil pointer is \<^term>\<open>None\<close> as well, so a function that may
    panic and returns a pointer has a nested option;
  \<^item> \<open>*big.Int\<close> values are \<^typ>\<open>int\<close>; \<open>uint64\<close> values are \<^typ>\<open>64 word\<close>;
    Go's \<open>int\<close> (rounds, counters) is \<^typ>\<open>int\<close>, and where its arithmetic
    may leave the 64-bit range the wrap-around \<open>int64_of\<close> is written out;
  \<^item> a byte slice is a list of \<^typ>\<open>8 word\<close>, compared lexicographically as
    \<open>bytes.Compare\<close> does.
\<close>

type_synonym byte = "8 word"
type_synonym bytes = "byte list"
type_synonym uint64 = "64 word"

named_theorems go_simps \<open>unfolding rules for the Go primitives\<close>
named_theorems wf_simps \<open>unfolding rules for well-formedness invariants\<close>

subsection \<open>Slices and integer conversions\<close>

text \<open>Reading \<open>xs[i]\<close> for a signed index: a panic when out of range.\<close>

definition go_index :: "'a list \<Rightarrow> int \<Rightarrow> 'a option" where
  "go_index xs i = (if 0 \<le> i \<and> i < int (length xs) then Some (xs ! nat i) else None)"

text \<open>Writing \<open>xs[i] = v\<close>.\<close>

definition go_update :: "'a list \<Rightarrow> int \<Rightarrow> 'a \<Rightarrow> 'a list option" where
  "go_update xs i v = (if 0 \<le> i \<and> i < int (length xs) then Some (xs[nat i := v]) else None)"

text \<open>The conversions \<open>int(x)\<close> of an \<open>uint64\<close> and \<open>uint64(x)\<close> of an \<open>int\<close>.\<close>

definition int_of_u64 :: "uint64 \<Rightarrow> int" where
  "int_of_u64 w = sint w"

definition u64_of_int :: "int \<Rightarrow> uint64" where
  "u64_of_int i = word_of_int i"

text \<open>
  Go's \<open>int\<close> is a 64-bit machine integer: the result of an operation is read modulo \<open>2 ^ 64\<close>, a
  division truncates towards zero and panics on a zero divisor, and a slice expression panics when
  its bounds are out of order or out of range.
\<close>

definition int64_of :: "int \<Rightarrow> int" where
  "int64_of x = sint (word_of_int x :: 64 word)"

definition int64_quot :: "int \<Rightarrow> int \<Rightarrow> int option" where
  "int64_quot a b = (if b = 0 then None else Some (int64_of (sgn a * sgn b * (\<bar>a\<bar> div \<bar>b\<bar>))))"

definition go_slice :: "'a list \<Rightarrow> int \<Rightarrow> int \<Rightarrow> 'a list option" where
  "go_slice xs lo hi =
     (if 0 \<le> lo \<and> lo \<le> hi \<and> hi \<le> int (length xs)
      then Some (take (nat (hi - lo)) (drop (nat lo) xs)) else None)"

lemma int64_of_id: "- (2 ^ 63) \<le> x \<Longrightarrow> x < 2 ^ 63 \<Longrightarrow> int64_of x = x"
  unfolding int64_of_def by transfer (simp add: signed_take_bit_int_eq_self)

lemma int64_of_nat: "k < 2 ^ 63 \<Longrightarrow> int64_of (int k) = int k"
  by (rule int64_of_id) (simp_all only: of_nat_less_numeral_power_cancel_iff, simp)

lemma int64_of_wrap: "2 ^ 63 \<le> x \<Longrightarrow> x < 2 ^ 63 + 2 ^ 64 \<Longrightarrow> int64_of x = x - 2 ^ 64"
proof -
  assume x: "2 ^ 63 \<le> x" "x < 2 ^ 63 + 2 ^ 64"
  have "(word_of_int x :: 64 word) = word_of_int (x - 2 ^ 64)"
    by (simp only: word_of_int_eq_iff) (simp add: take_bit_eq_mod)
  then have "int64_of x = int64_of (x - 2 ^ 64)" by (simp only: int64_of_def)
  then show ?thesis using x by (simp add: int64_of_id)
qed

lemma int64_of_range: "- (2 ^ 63) \<le> int64_of x" "int64_of x < 2 ^ 63"
  using sint_ge [of "word_of_int x :: 64 word"] sint_lt [of "word_of_int x :: 64 word"]
  by (simp_all add: int64_of_def)

lemma int_of_u64_range: "- (2 ^ 63) \<le> int_of_u64 w" "int_of_u64 w < 2 ^ 63"
  using sint_ge [of w] sint_lt [of w] by (simp_all add: int_of_u64_def)

lemma int64_quot_pos:
  "0 \<le> a \<Longrightarrow> 0 < b \<Longrightarrow> a < 2 ^ 63 \<Longrightarrow> int64_quot a b = Some (a div b)"
proof -
  assume a: "0 \<le> a" "0 < b" "a < 2 ^ 63"
  have "0 \<le> a div b" using a by (simp add: pos_imp_zdiv_nonneg_iff)
  moreover have "a div b \<le> a" using a zdiv_mono2 [of a 1 b] by simp
  moreover have "sgn a * sgn b * (\<bar>a\<bar> div \<bar>b\<bar>) = a div b"
    using a by (cases "a = 0") (simp_all add: sgn_if)
  ultimately show ?thesis using a(2,3) int64_of_id [of "a div b"] by (simp only: int64_quot_def) simp
qed

lemma go_index_Some_iff:
  "go_index xs i = Some x \<longleftrightarrow> 0 \<le> i \<and> i < int (length xs) \<and> xs ! nat i = x"
  by (auto simp: go_index_def)

lemma go_index_nat [simp]:
  "go_index xs (int n) = (if n < length xs then Some (xs ! n) else None)"
  by (simp add: go_index_def)

lemma go_update_Some_iff:
  "go_update xs i v = Some ys \<longleftrightarrow> 0 \<le> i \<and> i < int (length xs) \<and> ys = xs[nat i := v]"
  by (auto simp: go_update_def)

lemma go_update_nat [simp]:
  "go_update xs (int n) v = (if n < length xs then Some (xs[n := v]) else None)"
  by (simp add: go_update_def)

lemma int_of_u64_nonneg: "0 \<le> int_of_u64 w \<Longrightarrow> int_of_u64 w = int (unat w)"
proof -
  assume nn: "0 \<le> int_of_u64 w"
  have "uint w = take_bit 64 (sint w)"
    using uint_sint [of w] by simp
  moreover have "sint w < 2 ^ 64"
    using sint_lt [of w] by simp
  ultimately show ?thesis
    using nn by (simp add: int_of_u64_def take_bit_int_eq_self)
qed

lemma int_of_u64_u64_of_int: "0 \<le> x \<Longrightarrow> x < 2 ^ 63 \<Longrightarrow> int_of_u64 (u64_of_int x) = x"
  unfolding int_of_u64_def u64_of_int_def by transfer (simp add: signed_take_bit_int_eq_self)

lemma unat_u64_of_int: "0 \<le> x \<Longrightarrow> x < 2 ^ 63 \<Longrightarrow> unat (u64_of_int x) = nat x"
proof -
  assume "0 \<le> x" and "x < 2 ^ 63"
  then have "uint (u64_of_int x) = x"
    by (simp add: u64_of_int_def uint_word_of_int take_bit_int_eq_self)
  then show ?thesis by (metis unat_eq_nat_uint)
qed

lemma those_map_Some: "(\<And>x. x \<in> set xs \<Longrightarrow> f x = Some (g x)) \<Longrightarrow> those (map f xs) = Some (map g xs)"
  by (induction xs) simp_all

lemma option_eqI: "(\<And>v. x = Some v \<longleftrightarrow> y = Some v) \<Longrightarrow> x = y"
  by (metis not_None_eq)

subsection \<open>Slots of an array of pointers\<close>

text \<open>
  The source keeps votes and parts in slices of pointers indexed by position, nil marking a
  missing one.  The filled positions of such a slice are its slots.
\<close>

definition slots :: "'a option list \<Rightarrow> nat set" where
  "slots xs = {i. i < length xs \<and> xs ! i \<noteq> None}"

lemma finite_slots [simp, intro]: "finite (slots xs)"
  by (simp add: slots_def)

lemma slots_bounded: "slots xs \<subseteq> {..<length xs}"
  by (auto simp: slots_def)

lemma slots_fresh [simp]: "slots (replicate n None) = {}"
  by (auto simp: slots_def)

lemma slots_update [simp]: "i < length xs \<Longrightarrow> slots (xs[i := Some v]) = insert i (slots xs)"
  by (auto simp: slots_def nth_list_update)

lemma in_slots_iff: "i \<in> slots xs \<longleftrightarrow> i < length xs \<and> (\<exists>v. xs ! i = Some v)"
  by (auto simp: slots_def)

lemma slots_full: "card (slots xs) = length xs \<Longrightarrow> i < length xs \<Longrightarrow> \<exists>v. xs ! i = Some v"
  using card_subset_eq [OF _ slots_bounded, of xs] in_slots_iff [of i xs] by simp

text \<open>
  \<open>for i, v := range ys { if v != nil { xs[i] = v } }\<close>: the filled slots of the second slice
  overwrite those of the first.
\<close>

definition overwrite :: "'a option list \<Rightarrow> 'a option list \<Rightarrow> 'a option list" where
  "overwrite xs ys = map (\<lambda>(x, y). case y of None \<Rightarrow> x | Some v \<Rightarrow> Some v) (zip xs ys)"

lemma length_overwrite [simp]: "length ys = length xs \<Longrightarrow> length (overwrite xs ys) = length xs"
  by (simp add: overwrite_def)

lemma nth_overwrite:
  "length ys = length xs \<Longrightarrow> i < length xs \<Longrightarrow>
    overwrite xs ys ! i = (case ys ! i of None \<Rightarrow> xs ! i | Some v \<Rightarrow> Some v)"
  by (simp add: overwrite_def)

lemma slots_overwrite [simp]:
  "length ys = length xs \<Longrightarrow> slots (overwrite xs ys) = slots xs \<union> slots ys"
  by (auto simp: slots_def nth_overwrite split: option.splits)

subsection \<open>Sorted permutations are unique\<close>

text \<open>
  Go's \<open>sort.Sort\<close> promises a sorted permutation and nothing about equal keys.  With distinct
  keys that promise determines the result, so it may be modelled by \<^const>\<open>sort_key\<close>.
\<close>

lemma sorted_permutation_unique:
  fixes key :: "'a \<Rightarrow> 'k :: linorder"
  assumes "mset ys = mset xs" and "sorted (map key ys)" and "distinct (map key xs)"
  shows "ys = sort_key key xs"
  using sort_key_inj_key_eq [OF assms(1) [symmetric] _ assms(2)] assms(3)
  by (simp add: distinct_map)

subsection \<open>Weighted quorums\<close>

text \<open>
  The interface of a tally: a finite set of voters with non-negative weights and, for every sound
  round, a threshold above half of the total weight.  Whatever the threshold rule, two tallies that
  reach their thresholds overlap, also when they belong to different rounds.
\<close>

locale weighted_quorum =
  fixes good :: "'c \<Rightarrow> bool"
    and members :: "'c \<Rightarrow> 'v set"
    and weight :: "'c \<Rightarrow> 'v \<Rightarrow> int"
    and quorum :: "'c \<Rightarrow> int \<Rightarrow> int"
    and sound :: "int \<Rightarrow> bool"
  assumes finite_members: "good c \<Longrightarrow> finite (members c)"
    and weight_nonneg: "good c \<Longrightarrow> v \<in> members c \<Longrightarrow> 0 \<le> weight c v"
    and majority: "good c \<Longrightarrow> sound r \<Longrightarrow> sum (weight c) (members c) < 2 * quorum c r"
begin

lemma overlap_weight:
  assumes "good c" and "A \<subseteq> members c" and "B \<subseteq> members c"
    and "quorum c r \<le> sum (weight c) A" and "quorum c r' \<le> sum (weight c) B"
  shows "quorum c r + quorum c r' - sum (weight c) (members c) \<le> sum (weight c) (A \<inter> B)"
proof -
  have fin: "finite A" "finite B"
    using assms finite_members finite_subset by blast+
  have "sum (weight c) (A \<union> B) \<le> sum (weight c) (members c)"
    using assms by (intro sum_mono2) (auto simp: finite_members weight_nonneg)
  then show ?thesis
    using sum.union_inter [OF fin, of "weight c"] assms(4,5) by linarith
qed

lemma overlap_positive:
  assumes "good c" and "sound r" and "sound r'" and "A \<subseteq> members c" and "B \<subseteq> members c"
    and "quorum c r \<le> sum (weight c) A" and "quorum c r' \<le> sum (weight c) B"
  shows "0 < sum (weight c) (A \<inter> B)"
  using overlap_weight [OF assms(1,4-7)] majority [OF assms(1,2)] majority [OF assms(1,3)]
  by linarith

lemma overlap:
  assumes "good c" and "sound r" and "sound r'" and "A \<subseteq> members c" and "B \<subseteq> members c"
    and "quorum c r \<le> sum (weight c) A" and "quorum c r' \<le> sum (weight c) B"
  obtains v where "v \<in> A" and "v \<in> B"
  using overlap_positive [OF assms] by (cases "A \<inter> B = {}") auto

end

end
