(* ===== verification/ChainTypes.thy ===== *)
theory ChainTypes
  imports Prelude
begin

section \<open>Data types of the consensus messages\<close>

text \<open>
  The structures that every consensus component exchanges, from the package
  \<open>consensus/neatpos/types\<close>: block identifiers, votes, proposals, validators, and the canonical
  forms that are signed.  Field names carry a short prefix where Go reuses a name across types.
  Public keys and signatures are interface values of the crypto package; they are opaque byte
  strings here and are always non-nil in the values that reach these operations.  An empty byte
  list stands for both a nil and an empty byte slice, which the source never distinguishes in
  these types.
\<close>

type_synonym pubkey = bytes
type_synonym signature = bytes
type_synonym chain_id = string

record part_set_header =
  psh_Total :: uint64
  psh_Hash :: bytes

record block_id =
  bid_Hash :: bytes
  bid_PartsHeader :: part_set_header

definition zero_psh :: part_set_header where
  "zero_psh = \<lparr>psh_Total = 0, psh_Hash = []\<rparr>"

definition zero_block_id :: block_id where
  "zero_block_id = \<lparr>bid_Hash = [], bid_PartsHeader = zero_psh\<rparr>"

definition PartSetHeader_IsZero :: "part_set_header \<Rightarrow> bool" where
  "PartSetHeader_IsZero psh \<longleftrightarrow> psh_Total psh = 0"

definition PartSetHeader_Equals :: "part_set_header \<Rightarrow> part_set_header \<Rightarrow> bool" where
  "PartSetHeader_Equals psh oth \<longleftrightarrow> psh_Total psh = psh_Total oth \<and> psh_Hash psh = psh_Hash oth"

definition BlockID_IsZero :: "block_id \<Rightarrow> bool" where
  "BlockID_IsZero b \<longleftrightarrow> length (bid_Hash b) = 0 \<and> PartSetHeader_IsZero (bid_PartsHeader b)"

definition BlockID_Equals :: "block_id \<Rightarrow> block_id \<Rightarrow> bool" where
  "BlockID_Equals b oth \<longleftrightarrow>
     bid_Hash b = bid_Hash oth \<and> PartSetHeader_Equals (bid_PartsHeader b) (bid_PartsHeader oth)"

lemma PartSetHeader_Equals_iff [simp]: "PartSetHeader_Equals a b \<longleftrightarrow> a = b"
  by (auto simp: PartSetHeader_Equals_def)

lemma BlockID_Equals_iff [simp]: "BlockID_Equals a b \<longleftrightarrow> a = b"
  by (auto simp: BlockID_Equals_def)

subsection \<open>Votes\<close>

definition VoteTypePrevote :: byte where
  "VoteTypePrevote = 0x01"

definition VoteTypePrecommit :: byte where
  "VoteTypePrecommit = 0x02"

definition IsVoteTypeValid :: "byte \<Rightarrow> bool" where
  "IsVoteTypeValid t \<longleftrightarrow>
     (if t = VoteTypePrevote then True else if t = VoteTypePrecommit then True else False)"

lemma vote_types_distinct [simp]: "VoteTypePrevote \<noteq> VoteTypePrecommit"
  by (simp add: VoteTypePrevote_def VoteTypePrecommit_def)

record vote =
  ValidatorAddress :: bytes
  ValidatorIndex :: uint64
  vote_Height :: uint64
  vote_Round :: uint64
  vote_Type :: byte
  vote_BlockID :: block_id
  vote_Signature :: signature
  vote_SignBytes :: bytes

datatype vote_error =
    ErrVoteUnexpectedStep
  | ErrVoteInvalidValidatorIndex
  | ErrVoteInvalidValidatorAddress
  | ErrVoteInvalidSignature
  | ErrVoteInvalidBlockHash
  | ErrVoteConflictingVotes (VoteA: vote) (VoteB: vote)

text \<open>What a validator signs of a vote: not its index, its address or its signature.\<close>

record canonical_vote =
  cv_BlockID :: block_id
  cv_Height :: uint64
  cv_Round :: uint64
  cv_Type :: byte

definition CanonicalVote :: "vote \<Rightarrow> canonical_vote" where
  "CanonicalVote v =
     \<lparr>cv_BlockID = vote_BlockID v, cv_Height = vote_Height v, cv_Round = vote_Round v,
      cv_Type = vote_Type v\<rparr>"

subsection \<open>Proposals\<close>

record proposal =
  prop_NodeID :: string
  prop_Height :: uint64
  prop_Round :: int
  prop_Hash :: bytes
  BlockPartsHeader :: part_set_header
  POLRound :: int
  POLBlockID :: block_id
  ProposerNetAddr :: string
  ProposerPeerKey :: string
  prop_Signature :: signature

definition NewProposal ::
  "uint64 \<Rightarrow> int \<Rightarrow> bytes \<Rightarrow> part_set_header \<Rightarrow> int \<Rightarrow> block_id \<Rightarrow> string \<Rightarrow> proposal" where
  "NewProposal height rnd hash blockPartsHeader polRound polBlockID peerKey =
     \<lparr>prop_NodeID = '''', prop_Height = height, prop_Round = rnd, prop_Hash = hash,
      BlockPartsHeader = blockPartsHeader, POLRound = polRound, POLBlockID = polBlockID,
      ProposerNetAddr = '''', ProposerPeerKey = peerKey, prop_Signature = []\<rparr>"

definition Proposal_BlockHash :: "proposal option \<Rightarrow> bytes" where
  "Proposal_BlockHash p = (case p of None \<Rightarrow> [] | Some p \<Rightarrow> psh_Hash (BlockPartsHeader p))"

definition Proposal_BlockHeaderHash :: "proposal option \<Rightarrow> bytes" where
  "Proposal_BlockHeaderHash p = (case p of None \<Rightarrow> [] | Some p \<Rightarrow> prop_Hash p)"

record canonical_proposal =
  cp_BlockPartsHeader :: part_set_header
  cp_Height :: uint64
  cp_POLBlockID :: block_id
  cp_POLRound :: int
  cp_Round :: int
  cp_Hash :: bytes

text \<open>The canonical form leaves the field \<open>Hash\<close> at its zero value.\<close>

definition CanonicalProposal :: "proposal \<Rightarrow> canonical_proposal" where
  "CanonicalProposal p =
     \<lparr>cp_BlockPartsHeader = BlockPartsHeader p, cp_Height = prop_Height p,
      cp_POLBlockID = POLBlockID p, cp_POLRound = POLRound p, cp_Round = prop_Round p,
      cp_Hash = []\<rparr>"

subsection \<open>Addresses\<close>

text \<open>\<open>common.BytesToAddress\<close>: crop from the left or pad with zeros on the left to 32 bytes.\<close>

definition NeatAddressLength :: nat where
  "NeatAddressLength = 32"

definition BytesToAddress :: "bytes \<Rightarrow> bytes" where
  "BytesToAddress b =
     (let b = (if length b > NeatAddressLength then drop (length b - NeatAddressLength) b else b)
      in replicate (NeatAddressLength - length b) 0 @ b)"

lemma length_BytesToAddress [simp]: "length (BytesToAddress b) = NeatAddressLength"
  by (simp add: BytesToAddress_def Let_def)

lemma BytesToAddress_id: "length b = NeatAddressLength \<Longrightarrow> BytesToAddress b = b"
  by (simp add: BytesToAddress_def)

subsection \<open>Validators\<close>

record validator =
  Address :: bytes
  PubKey :: pubkey
  VotingPower :: int
  RemainingEpoch :: uint64

definition NewValidator :: "bytes \<Rightarrow> pubkey \<Rightarrow> int \<Rightarrow> validator" where
  "NewValidator address pubKey votingPower =
     \<lparr>Address = address, PubKey = pubKey, VotingPower = votingPower, RemainingEpoch = 0\<rparr>"

text \<open>A copy is a fresh object with the same contents.\<close>

definition Validator_Copy :: "validator \<Rightarrow> validator" where
  "Validator_Copy v = v\<lparr>VotingPower := VotingPower v\<rparr>"

lemma Validator_Copy_id [simp]: "Validator_Copy v = v"
  by (simp add: Validator_Copy_def)

lemma map_Validator_Copy [simp]: "map Validator_Copy vs = vs"
  by (simp add: map_idI)

end
