(* ===== verification/Externals.thy ===== *)
theory Externals
  imports ChainTypes
begin

section \<open>Code outside the repository\<close>

text \<open>
  The node calls packages that are not part of its source tree: bit arrays (common-go), keys,
  signatures and BLS aggregation (crypto-go), the wire and JSON encoders (wire-go) and Merkle
  hashing (merkle-go).  They are the fields of a record which every operation that calls them takes
  as its first argument, so that nothing is assumed about them unless a lemma names it.

  A bit array is used through a pointer, so the operations take and return an option, nil being
  \<^term>\<open>None\<close>.  Sizes and indices are natural numbers: the source converts between \<open>int\<close> and
  \<open>uint64\<close> only for slice lengths, which always fit.
\<close>

record 'b ext =
  NewBitArray :: "nat \<Rightarrow> 'b option"
  BA_Size :: "'b option \<Rightarrow> nat"
  BA_GetIndex :: "'b option \<Rightarrow> nat \<Rightarrow> bool"
  BA_SetIndex :: "'b option \<Rightarrow> nat \<Rightarrow> bool \<Rightarrow> 'b option"
  BA_Copy :: "'b option \<Rightarrow> 'b option"
  BA_Update :: "'b option \<Rightarrow> 'b option \<Rightarrow> 'b option"
  PubKey_Equals :: "pubkey \<Rightarrow> pubkey \<Rightarrow> bool"
  PubKey_KeyString :: "pubkey \<Rightarrow> string"
  PubKey_VerifyBytes :: "pubkey \<Rightarrow> bytes \<Rightarrow> signature \<Rightarrow> bool"
  Signature_Equals :: "signature \<Rightarrow> signature \<Rightarrow> bool"
  BLSPubKeyAggregate :: "pubkey list \<Rightarrow> pubkey option"
  BLSSignatureAggregate :: "signature list \<Rightarrow> signature option"
  PSH_BinaryBytes :: "part_set_header \<Rightarrow> bytes"
  Vote_WriteJSON :: "chain_id \<Rightarrow> canonical_vote \<Rightarrow> bytes"
  Proposal_WriteJSON :: "chain_id \<Rightarrow> canonical_proposal \<Rightarrow> bytes"
  Validators_SimpleHash :: "validator list \<Rightarrow> bytes"

text \<open>\<open>BlockID.Key\<close> and \<open>SignBytes\<close> of a vote and of a proposal.\<close>

definition BlockID_Key :: "'b ext \<Rightarrow> block_id \<Rightarrow> bytes" where
  "BlockID_Key E b = bid_Hash b @ PSH_BinaryBytes E (bid_PartsHeader b)"

definition Vote_SignBytes :: "'b ext \<Rightarrow> chain_id \<Rightarrow> vote \<Rightarrow> bytes" where
  "Vote_SignBytes E chainID v = Vote_WriteJSON E chainID (CanonicalVote v)"

definition Proposal_SignBytes :: "'b ext \<Rightarrow> chain_id \<Rightarrow> proposal \<Rightarrow> bytes" where
  "Proposal_SignBytes E chainID p = Proposal_WriteJSON E chainID (CanonicalProposal p)"

subsection \<open>The documented behaviour of bit arrays\<close>

text \<open>
  A new bit array of positive length exists, has that length and is all clear; setting an index in
  range changes that bit only; a copy reads the same.
\<close>

definition bit_array_laws :: "'b ext \<Rightarrow> bool" where
  "bit_array_laws E \<longleftrightarrow>
     (\<forall>n>0. NewBitArray E n \<noteq> None \<and> BA_Size E (NewBitArray E n) = n) \<and>
     (\<forall>n i. \<not> BA_GetIndex E (NewBitArray E n) i) \<and>
     (\<forall>b i v. BA_SetIndex E b i v = None \<longleftrightarrow> b = None) \<and>
     (\<forall>b i v. BA_Size E (BA_SetIndex E b i v) = BA_Size E b) \<and>
     (\<forall>b i v j. i < BA_Size E b \<longrightarrow>
        BA_GetIndex E (BA_SetIndex E b i v) j = (if j = i then v else BA_GetIndex E b j)) \<and>
     (\<forall>b. BA_Copy E b = None \<longleftrightarrow> b = None) \<and>
     (\<forall>b. BA_Size E (BA_Copy E b) = BA_Size E b) \<and>
     (\<forall>b i. BA_GetIndex E (BA_Copy E b) i = BA_GetIndex E b i)"

lemma bit_array_lawsD:
  assumes "bit_array_laws E"
  shows "n > 0 \<Longrightarrow> NewBitArray E n \<noteq> None"
    and "n > 0 \<Longrightarrow> BA_Size E (NewBitArray E n) = n"
    and "\<not> BA_GetIndex E (NewBitArray E n) i"
    and "BA_SetIndex E b i v = None \<longleftrightarrow> b = None"
    and "BA_Size E (BA_SetIndex E b i v) = BA_Size E b"
    and "i < BA_Size E b \<Longrightarrow>
        BA_GetIndex E (BA_SetIndex E b i v) j = (if j = i then v else BA_GetIndex E b j)"
    and "BA_Copy E b = None \<longleftrightarrow> b = None"
    and "BA_Size E (BA_Copy E b) = BA_Size E b"
    and "BA_GetIndex E (BA_Copy E b) i = BA_GetIndex E b i"
  using assms by (simp_all add: bit_array_laws_def)

text \<open>The positions whose bit is set.\<close>

definition bits :: "'b ext \<Rightarrow> 'b option \<Rightarrow> nat set" where
  "bits E b = {i. i < BA_Size E b \<and> BA_GetIndex E b i}"

lemma finite_bits [simp, intro]: "finite (bits E b)"
  by (simp add: bits_def)

lemma bits_fresh: "bit_array_laws E \<Longrightarrow> bits E (NewBitArray E n) = {}"
  by (simp add: bits_def bit_array_lawsD)

lemma bits_SetIndex:
  "bit_array_laws E \<Longrightarrow> i < BA_Size E b \<Longrightarrow> bits E (BA_SetIndex E b i True) = insert i (bits E b)"
  by (auto simp: bits_def bit_array_lawsD split: if_splits)

subsection \<open>A concrete instance\<close>

text \<open>
  Bit arrays as lists of booleans, keys that accept a signature when it is the key followed by the
  message, concatenation as aggregation and simple encoders.  It shows that the hypotheses about the
  external packages can hold together, and it makes the operations run on concrete inputs.
\<close>

definition sample_ext :: "bool list ext" where
  "sample_ext = \<lparr>
     NewBitArray = (\<lambda>n. if n = 0 then None else Some (replicate n False)),
     BA_Size = (\<lambda>b. case b of None \<Rightarrow> 0 | Some l \<Rightarrow> length l),
     BA_GetIndex = (\<lambda>b i. case b of None \<Rightarrow> False | Some l \<Rightarrow> if i < length l then l ! i else False),
     BA_SetIndex = (\<lambda>b i v. map_option (\<lambda>l. l[i := v]) b),
     BA_Copy = (\<lambda>b. b),
     BA_Update = (\<lambda>b c. case b of None \<Rightarrow> None | Some l \<Rightarrow> (case c of None \<Rightarrow> Some l | Some m \<Rightarrow> Some m)),
     PubKey_Equals = (=),
     PubKey_KeyString = (\<lambda>k. ''''),
     PubKey_VerifyBytes = (\<lambda>k m s. s = k @ m),
     Signature_Equals = (=),
     BLSPubKeyAggregate = (\<lambda>ks. Some (concat ks)),
     BLSSignatureAggregate = (\<lambda>ss. Some (concat ss)),
     PSH_BinaryBytes = (\<lambda>h. word_of_int (uint (psh_Total h)) # psh_Hash h),
     Vote_WriteJSON = (\<lambda>c v. cv_Type v # bid_Hash (cv_BlockID v)),
     Proposal_WriteJSON = (\<lambda>c p. psh_Hash (cp_BlockPartsHeader p)),
     Validators_SimpleHash = (\<lambda>vs. concat (map Address vs))\<rparr>"

lemma sample_ext_sel:
  "NewBitArray sample_ext = (\<lambda>n. if n = 0 then None else Some (replicate n False))"
  "BA_Size sample_ext = (\<lambda>b. case b of None \<Rightarrow> 0 | Some l \<Rightarrow> length l)"
  "BA_GetIndex sample_ext =
     (\<lambda>b i. case b of None \<Rightarrow> False | Some l \<Rightarrow> if i < length l then l ! i else False)"
  "BA_SetIndex sample_ext = (\<lambda>b i v. map_option (\<lambda>l. l[i := v]) b)"
  "BA_Copy sample_ext = (\<lambda>b. b)"
  by (simp_all add: sample_ext_def)

lemma sample_ext_laws [simp]: "bit_array_laws sample_ext"
  unfolding bit_array_laws_def sample_ext_sel
  by (intro conjI allI impI) (simp_all split: option.splits)

end
