(* ===== verification/PartSets.thy ===== *)
theory PartSets
  imports Externals
begin

section \<open>Part sets\<close>

text \<open>
  The file \<open>part_set.go\<close>: a block is cut into parts that are gossiped with Merkle proofs and put
  together again.  The Merkle tree and the hash come from external packages, given by a record.
  The theory shows that a part set never loses or changes a part, counts its parts correctly and
  panics only on a negative index; that its reader returns the bytes of its parts in order; and that
  a set which was announced by the header of some data and is complete reads back exactly that data,
  whoever sent the parts, unless one of the parts exhibits a forged proof or a hash collision.
\<close>

record 'p merkle =
  Ripemd160 :: "bytes \<Rightarrow> bytes"
  SimpleProofsFromHashables :: "bytes list \<Rightarrow> bytes \<times> 'p list"
  SimpleProof_Verify :: "'p \<Rightarrow> int \<Rightarrow> int \<Rightarrow> bytes \<Rightarrow> bytes \<Rightarrow> bool"

record 'p part =
  part_Index :: int
  part_Bytes :: bytes
  part_Proof :: 'p
  part_hash :: "bytes option"

record ('b, 'p) part_set =
  ps_total :: int
  ps_hash :: bytes
  ps_parts :: "'p part option list"
  partsBitArray :: "'b option"
  ps_count :: int

text \<open>The hash is computed once and cached in the part.\<close>

definition Part_Hash :: "'p merkle \<Rightarrow> 'p part \<Rightarrow> 'p part \<times> bytes" where
  "Part_Hash M part =
     (case part_hash part of
        Some h \<Rightarrow> (part, h)
      | None \<Rightarrow> (let h = Ripemd160 M (part_Bytes part) in (part\<lparr>part_hash := Some h\<rparr>, h)))"

text \<open>
  Cutting data into parts.  The size is a machine integer: its arithmetic wraps around, the division
  truncates, and \<^term>\<open>None\<close> is the panic of a division by zero, an allocation of a negative length,
  a slice out of range or a proof missing from the external tree.
\<close>

definition part_chunk :: "bytes \<Rightarrow> int \<Rightarrow> nat \<Rightarrow> bytes option" where
  "part_chunk data partSize i =
     go_slice data (int64_of (int i * partSize))
       (min (int (length data)) (int64_of ((int i + 1) * partSize)))"

definition NewPartSetFromData ::
  "'b ext \<Rightarrow> 'p merkle \<Rightarrow> bytes \<Rightarrow> int \<Rightarrow> ('b, 'p) part_set option" where
  "NewPartSetFromData E M data partSize =
     (case int64_quot (int64_of (int (length data) + partSize - 1)) partSize of
        None \<Rightarrow> None
      | Some tot \<Rightarrow>
          if tot < 0 then None
          else case those (map (part_chunk data partSize) [0..<nat tot]) of
              None \<Rightarrow> None
            | Some chunks \<Rightarrow>
                let n = nat tot;
                    bits = fold (\<lambda>i b. BA_SetIndex E b i True) [0..<n] (NewBitArray E n);
                    hashes = map (Ripemd160 M) chunks;
                    (root, proofs) = SimpleProofsFromHashables M hashes
                in if length proofs < n then None
                   else Some \<lparr>ps_total = tot, ps_hash = root,
                     ps_parts = map (\<lambda>i. Some \<lparr>part_Index = int i, part_Bytes = chunks ! i,
                       part_Proof = proofs ! i, part_hash = Some (hashes ! i)\<rparr>) [0..<n],
                     partsBitArray = bits, ps_count = tot\<rparr>)"

text \<open>An allocation of a negative length panics.\<close>

definition NewPartSetFromHeader ::
  "'b ext \<Rightarrow> part_set_header \<Rightarrow> ('b, 'p) part_set option" where
  "NewPartSetFromHeader E header =
     (if int_of_u64 (psh_Total header) < 0 then None
      else Some \<lparr>ps_total = int_of_u64 (psh_Total header), ps_hash = psh_Hash header,
        ps_parts = replicate (unat (psh_Total header)) None,
        partsBitArray = NewBitArray E (unat (psh_Total header)), ps_count = 0\<rparr>)"

definition PartSet_Header :: "('b, 'p) part_set option \<Rightarrow> part_set_header" where
  "PartSet_Header ps =
     (case ps of None \<Rightarrow> zero_psh
      | Some s \<Rightarrow> \<lparr>psh_Total = u64_of_int (ps_total s), psh_Hash = ps_hash s\<rparr>)"

definition HasHeader :: "('b, 'p) part_set option \<Rightarrow> part_set_header \<Rightarrow> bool" where
  "HasHeader ps header =
     (case ps of None \<Rightarrow> False | Some s \<Rightarrow> PartSetHeader_Equals (PartSet_Header ps) header)"

definition PartSet_HashesTo :: "('b, 'p) part_set option \<Rightarrow> bytes \<Rightarrow> bool" where
  "PartSet_HashesTo ps hash = (case ps of None \<Rightarrow> False | Some s \<Rightarrow> ps_hash s = hash)"

definition PartSet_Count :: "('b, 'p) part_set option \<Rightarrow> int" where
  "PartSet_Count ps = (case ps of None \<Rightarrow> 0 | Some s \<Rightarrow> ps_count s)"

definition PartSet_Total :: "('b, 'p) part_set option \<Rightarrow> int" where
  "PartSet_Total ps = (case ps of None \<Rightarrow> 0 | Some s \<Rightarrow> ps_total s)"

datatype part_set_error = ErrPartSetUnexpectedIndex | ErrPartSetInvalidProof

definition AddPart ::
  "'b ext \<Rightarrow> 'p merkle \<Rightarrow> ('b, 'p) part_set \<Rightarrow> 'p part \<Rightarrow> bool
    \<Rightarrow> (('b, 'p) part_set \<times> bool \<times> part_set_error option) option" where
  "AddPart E M ps part verify =
     (if part_Index part \<ge> ps_total ps then Some (ps, False, Some ErrPartSetUnexpectedIndex)
      else case go_index (ps_parts ps) (part_Index part) of
          None \<Rightarrow> None
        | Some (Some _) \<Rightarrow> Some (ps, False, None)
        | Some None \<Rightarrow>
            let (part, ok) =
              (if verify
               then (let (part, h) = Part_Hash M part in
                     (part, SimpleProof_Verify M (part_Proof part) (part_Index part) (ps_total ps) h
                              (ps_hash ps)))
               else (part, True))
            in if \<not> ok then Some (ps, False, Some ErrPartSetInvalidProof)
               else Some (ps\<lparr>ps_parts := (ps_parts ps)[nat (part_Index part) := Some part],
                             partsBitArray := BA_SetIndex E (partsBitArray ps)
                                                (nat (part_Index part)) True,
                             ps_count := ps_count ps + 1\<rparr>, True, None))"

definition GetPart :: "('b, 'p) part_set \<Rightarrow> int \<Rightarrow> 'p part option option" where
  "GetPart ps index = go_index (ps_parts ps) index"

definition PartSet_IsComplete :: "('b, 'p) part_set \<Rightarrow> bool" where
  "PartSet_IsComplete ps \<longleftrightarrow> ps_count ps = ps_total ps"

subsection \<open>Reading the parts back\<close>

text \<open>The bytes not yet read of the current part stand for the \<open>bytes.Reader\<close>.\<close>

record 'p part_set_reader =
  psr_i :: nat
  psr_parts :: "'p part option list"
  psr_rest :: bytes

text \<open>Reading the first part panics when there is none or it is nil.\<close>

definition NewPartSetReader :: "'p part option list \<Rightarrow> 'p part_set_reader option" where
  "NewPartSetReader parts =
     (case go_index parts 0 of
        Some (Some p) \<Rightarrow> Some \<lparr>psr_i = 0, psr_parts = parts, psr_rest = part_Bytes p\<rparr>
      | _ \<Rightarrow> None)"

definition GetReader :: "('b, 'p) part_set \<Rightarrow> 'p part_set_reader option" where
  "GetReader ps = (if \<not> PartSet_IsComplete ps then None else NewPartSetReader (ps_parts ps))"

text \<open>\<open>bytes.Reader.Read\<close> into a buffer of the given length: the bytes, and whether it is at the end.\<close>

definition bytes_Read :: "bytes \<Rightarrow> nat \<Rightarrow> bytes \<times> bool \<times> bytes" where
  "bytes_Read rest n = (if rest = [] then ([], True, []) else (take n rest, False, drop n rest))"

text \<open>
  The result is the bytes read, the end-of-file flag and the new reader.  The first recursive call
  of the source, for exactly the bytes that are left, always takes the first branch, which is
  written out here.
\<close>

function PartSetReader_Read :: "'p part_set_reader \<Rightarrow> nat \<Rightarrow> (bytes \<times> bool \<times> 'p part_set_reader) option"
where
  "PartSetReader_Read psr n =
     (let readerLen = length (psr_rest psr) in
      if readerLen \<ge> n
      then (let (b, eof, rest) = bytes_Read (psr_rest psr) n
            in Some (b, eof, psr\<lparr>psr_rest := rest\<rparr>))
      else if readerLen > 0
      then (let (n1, err, rest) = bytes_Read (psr_rest psr) readerLen in
            if err then Some (n1, err, psr\<lparr>psr_rest := rest\<rparr>)
            else case PartSetReader_Read (psr\<lparr>psr_rest := []\<rparr>) (n - readerLen) of
                None \<Rightarrow> None
              | Some (n2, err, psr) \<Rightarrow> Some (n1 @ n2, err, psr))
      else if psr_i psr + 1 \<ge> length (psr_parts psr)
      then Some ([], True, psr\<lparr>psr_i := psr_i psr + 1\<rparr>)
      else case psr_parts psr ! (psr_i psr + 1) of
          None \<Rightarrow> None
        | Some p \<Rightarrow> PartSetReader_Read
            (psr\<lparr>psr_i := psr_i psr + 1, psr_rest := part_Bytes p\<rparr>) n)"
  by pat_completeness auto
termination
  by (relation "measures [\<lambda>(psr, n). length (psr_parts psr) - psr_i psr,
        \<lambda>(psr, n). length (psr_rest psr)]") auto

declare PartSetReader_Read.simps [simp del]

subsection \<open>What a reader returns\<close>

definition unread :: "'p part_set_reader \<Rightarrow> bytes" where
  "unread psr = psr_rest psr @
     concat (map (\<lambda>p. part_Bytes (the p)) (drop (psr_i psr + 1) (psr_parts psr)))"

lemma PartSetReader_Read_spec:
  assumes "None \<notin> set (psr_parts psr)" and "0 < n"
  obtains psr' where
    "PartSetReader_Read psr n = Some (take n (unread psr), length (unread psr) < n, psr')"
    and "unread psr' = drop n (unread psr)" and "psr_parts psr' = psr_parts psr"
proof -
  have "\<exists>psr'. PartSetReader_Read psr n = Some (take n (unread psr), length (unread psr) < n, psr') \<and>
      unread psr' = drop n (unread psr) \<and> psr_parts psr' = psr_parts psr"
    using assms
  proof (induction psr n rule: PartSetReader_Read.induct)
    case (1 psr n)
    consider (enough) "n \<le> length (psr_rest psr)"
      | (some) "length (psr_rest psr) < n" "psr_rest psr \<noteq> []"
      | (last) "psr_rest psr = []" "length (psr_parts psr) \<le> psr_i psr + 1"
      | (more) "psr_rest psr = []" "psr_i psr + 1 < length (psr_parts psr)"
      by linarith
    then show ?case
    proof cases
      case enough
      moreover from this have "psr_rest psr \<noteq> []" using 1(4) by auto
      ultimately show ?thesis
        by (simp add: PartSetReader_Read.simps [of psr n] Let_def bytes_Read_def unread_def)
    next
      case some
      let ?psr = "psr\<lparr>psr_rest := []\<rparr>"
      let ?k = "length (psr_rest psr)"
      have split: "unread psr = psr_rest psr @ unread ?psr" by (simp add: unread_def)
      have "\<exists>psr'. PartSetReader_Read ?psr (n - ?k) =
          Some (take (n - ?k) (unread ?psr), length (unread ?psr) < n - ?k, psr') \<and>
          unread psr' = drop (n - ?k) (unread ?psr) \<and> psr_parts psr' = psr_parts ?psr"
        by (rule 1(1)) (use some 1(3,4) in \<open>simp_all add: bytes_Read_def\<close>)
      then show ?thesis
        using some by (auto simp: PartSetReader_Read.simps [of psr n] Let_def bytes_Read_def split)
    next
      case last
      then show ?thesis
        using 1(4) by (simp add: PartSetReader_Read.simps [of psr n] unread_def)
    next
      case more
      then obtain p where p: "psr_parts psr ! (psr_i psr + 1) = Some p"
        using 1(3) by (metis nth_mem option.exhaust)
      let ?psr = "psr\<lparr>psr_i := Suc (psr_i psr), psr_rest := part_Bytes p\<rparr>"
      have same: "unread ?psr = unread psr"
        using more p by (simp add: unread_def Cons_nth_drop_Suc [symmetric])
      have "\<exists>psr'. PartSetReader_Read ?psr n =
          Some (take n (unread ?psr), length (unread ?psr) < n, psr') \<and>
          unread psr' = drop n (unread ?psr) \<and> psr_parts psr' = psr_parts ?psr"
        using 1(2) [of "length (psr_rest psr)" p] more p 1(3,4) by simp
      then show ?thesis
        using more p 1(4) by (simp add: PartSetReader_Read.simps [of psr n] same)
    qed
  qed
  then show thesis using that by blast
qed

subsection \<open>Cutting and joining\<close>

text \<open>The chunks and their number in unbounded arithmetic.\<close>

definition chunk :: "bytes \<Rightarrow> nat \<Rightarrow> nat \<Rightarrow> bytes" where
  "chunk data n i = take n (drop (i * n) data)"

definition chunk_count :: "bytes \<Rightarrow> nat \<Rightarrow> nat" where
  "chunk_count data n = (length data + n - 1) div n"

lemma concat_chunks: "concat (map (chunk data n) [0..<k]) = take (k * n) data"
proof (induction k)
  case (Suc k)
  have "take (Suc k * n) data = take (k * n) data @ take n (drop (k * n) data)"
    by (metis add.commute mult_Suc take_add)
  then show ?case by (simp add: Suc.IH chunk_def [of data n k])
qed simp

lemma last_chunk_bounds:
  assumes "0 < n" and "i < chunk_count data n"
  shows "i * n < length data" and "(i + 1) * n \<le> length data + n - 1"
proof -
  have "(i + 1) * n \<le> chunk_count data n * n"
    using assms(2) by (intro mult_le_mono1) simp
  also have "\<dots> \<le> length data + n - 1"
    unfolding chunk_count_def by (rule div_times_less_eq_dividend)
  finally show le: "(i + 1) * n \<le> length data + n - 1" .
  then show "i * n < length data" using assms(1) by (simp add: algebra_simps)
qed

lemma slice_length: "k \<le> l \<Longrightarrow> nat (min (int l) (int (k + n)) - int k) = min (l - k) n"
  by (auto simp: min_def)

lemma part_chunk_eq:
  assumes "0 < n" and "length data + n \<le> 2 ^ 63" and "i < chunk_count data n"
  shows "part_chunk data (int n) i = Some (chunk data n i)"
proof -
  note b = last_chunk_bounds [OF assms(1,3)]
  have up: "(i + 1) * n < 2 ^ 63" and lo: "i * n < 2 ^ 63"
    using b assms(2) by linarith+
  then have w: "int64_of ((int i + 1) * int n) = int ((i + 1) * n)" "int64_of (int i * int n) = int (i * n)"
    using int64_of_nat [OF up] int64_of_nat [OF lo] by (simp_all add: algebra_simps)
  have hi: "(i + 1) * n = i * n + n" by simp
  have "nat (min (int (length data)) (int ((i + 1) * n)) - int (i * n)) = min (length data - i * n) n"
    unfolding hi using b(1) by (intro slice_length) simp
  moreover have "int (i * n) \<le> min (int (length data)) (int ((i + 1) * n))"
    unfolding min.bounded_iff of_nat_le_iff using b(1) by simp
  ultimately show ?thesis
    unfolding part_chunk_def w go_slice_def chunk_def nat_int
    by (simp add: min_def del: of_nat_mult)
qed

lemma chunks_cover: "0 < n \<Longrightarrow> m \<le> (m + n - 1) div n * n"
  for m n :: nat
proof -
  assume n: "0 < n"
  have "m + n - 1 < (m + n - 1) div n * n + n"
    using n by (metis add.commute div_mult_mod_eq mod_less_divisor nat_add_left_cancel_less)
  then show ?thesis using n by linarith
qed

subsection \<open>The invariant of a part set\<close>

definition wf_part_set :: "'b ext \<Rightarrow> ('b, 'p) part_set \<Rightarrow> bool" where
  "wf_part_set E ps \<longleftrightarrow>
     ps_total ps = int (length (ps_parts ps)) \<and> ps_count ps = int (card (slots (ps_parts ps))) \<and>
     (ps_parts ps = [] \<or> BA_Size E (partsBitArray ps) = length (ps_parts ps) \<and>
        bits E (partsBitArray ps) = slots (ps_parts ps)) \<and>
     (\<forall>i p. i < length (ps_parts ps) \<longrightarrow> ps_parts ps ! i = Some p \<longrightarrow> part_Index p = int i)"

lemma wf_FromHeader:
  assumes "bit_array_laws E" and "NewPartSetFromHeader E header = Some ps"
  shows "wf_part_set E ps"
proof -
  have nn: "0 \<le> int_of_u64 (psh_Total header)"
    using assms(2) by (simp add: NewPartSetFromHeader_def split: if_splits)
  have ps: "ps = \<lparr>ps_total = int (unat (psh_Total header)), ps_hash = psh_Hash header,
      ps_parts = replicate (unat (psh_Total header)) None,
      partsBitArray = NewBitArray E (unat (psh_Total header)), ps_count = 0\<rparr>"
    using assms(2) int_of_u64_nonneg [OF nn] by (simp add: NewPartSetFromHeader_def split: if_splits)
  show ?thesis
    using bit_array_lawsD(2) [OF assms(1), of "unat (psh_Total header)"] bits_fresh [OF assms(1)]
    by (auto simp: ps wf_part_set_def)
qed

lemma Part_Hash_same [simp]:
  "part_Index (fst (Part_Hash M p)) = part_Index p" "part_Bytes (fst (Part_Hash M p)) = part_Bytes p"
  "part_Proof (fst (Part_Hash M p)) = part_Proof p"
  by (simp_all add: Part_Hash_def Let_def split: option.splits)

text \<open>The four outcomes of \<open>AddPart\<close>, after the panic on a negative index.\<close>

lemma AddPart_cases:
  assumes "wf_part_set E ps" and "0 \<le> part_Index p"
  obtains (outside) "ps_total ps \<le> part_Index p"
      "AddPart E M ps p v = Some (ps, False, Some ErrPartSetUnexpectedIndex)"
  | (dup) "part_Index p < ps_total ps" "nat (part_Index p) \<in> slots (ps_parts ps)"
      "AddPart E M ps p v = Some (ps, False, None)"
  | (bad) "part_Index p < ps_total ps" "nat (part_Index p) \<notin> slots (ps_parts ps)"
      "v" "AddPart E M ps p v = Some (ps, False, Some ErrPartSetInvalidProof)"
  | (added) q where "part_Index p < ps_total ps" "nat (part_Index p) \<notin> slots (ps_parts ps)"
      "part_Index q = part_Index p" "part_Bytes q = part_Bytes p" "part_Proof q = part_Proof p"
      "v \<Longrightarrow> q = fst (Part_Hash M p) \<and> SimpleProof_Verify M (part_Proof p) (part_Index p)
         (ps_total ps) (snd (Part_Hash M p)) (ps_hash ps)"
      "AddPart E M ps p v = Some (ps\<lparr>ps_parts := (ps_parts ps)[nat (part_Index p) := Some q],
         partsBitArray := BA_SetIndex E (partsBitArray ps) (nat (part_Index p)) True,
         ps_count := ps_count ps + 1\<rparr>, True, None)"
proof (cases "ps_total ps \<le> part_Index p")
  case True
  then show thesis using outside by (simp add: AddPart_def)
next
  case False
  let ?i = "nat (part_Index p)"
  have i: "?i < length (ps_parts ps)" and idx: "go_index (ps_parts ps) (part_Index p) = Some (ps_parts ps ! ?i)"
    using assms False by (auto simp: wf_part_set_def go_index_def)
  show thesis
  proof (cases "ps_parts ps ! ?i")
    case (Some q)
    then show thesis using dup False i idx by (simp add: AddPart_def slots_def)
  next
    case None
    let ?ok = "SimpleProof_Verify M (part_Proof p) (part_Index p) (ps_total ps)
        (snd (Part_Hash M p)) (ps_hash ps)"
    show thesis
    proof (cases "v \<and> \<not> ?ok")
      case True
      then show thesis
        using bad False None i idx
        by (simp add: AddPart_def slots_def Let_def case_prod_beta)
    next
      case ok: False
      show thesis
        by (rule added [of "if v then fst (Part_Hash M p) else p"])
          (use ok False None i idx in \<open>auto simp: AddPart_def slots_def Let_def case_prod_beta\<close>)
    qed
  qed
qed

lemma AddPart_negative:
  "wf_part_set E ps \<Longrightarrow> part_Index p < 0 \<Longrightarrow> AddPart E M ps p v = None"
  by (simp add: AddPart_def go_index_def wf_part_set_def)

lemma wf_part_set_insert:
  assumes "bit_array_laws E" and "wf_part_set E ps" and "i < length (ps_parts ps)"
    and "i \<notin> slots (ps_parts ps)" and "part_Index q = int i"
  shows "wf_part_set E (ps\<lparr>ps_parts := (ps_parts ps)[i := Some q],
    partsBitArray := BA_SetIndex E (partsBitArray ps) i True, ps_count := ps_count ps + 1\<rparr>)"
proof -
  have ba: "BA_Size E (partsBitArray ps) = length (ps_parts ps)"
    "bits E (partsBitArray ps) = slots (ps_parts ps)"
    using assms(2,3) by (auto simp: wf_part_set_def)
  have idx: "\<forall>j p. j < length (ps_parts ps) \<longrightarrow> (ps_parts ps)[i := Some q] ! j = Some p \<longrightarrow> part_Index p = int j"
    using assms(2,3,5) by (auto simp: wf_part_set_def nth_list_update)
  show ?thesis
    using assms(2-4) idx
    by (simp add: wf_part_set_def bits_SetIndex [OF assms(1)] ba bit_array_lawsD(5) [OF assms(1)])
qed

lemma AddPart_wf:
  assumes "bit_array_laws E" and "wf_part_set E ps" and "AddPart E M ps p v = Some (ps', a, err)"
  shows "wf_part_set E ps'"
proof -
  have nn: "0 \<le> part_Index p"
    using AddPart_negative [OF assms(2), of p M v] assms(3) by fastforce
  show ?thesis
  proof (cases rule: AddPart_cases [OF assms(2) nn, of M v])
    case (4 q)
    have "nat (part_Index p) < length (ps_parts ps)"
      using 4(1) assms(2) nn by (simp add: wf_part_set_def)
    from wf_part_set_insert [OF assms(1,2) this 4(2), of q] show ?thesis
      using 4(3,7) assms(3) nn by simp
  qed (use assms in simp_all)
qed

lemma complete_full:
  assumes "wf_part_set E ps" and "PartSet_IsComplete ps"
  shows "None \<notin> set (ps_parts ps)"
proof -
  have "card (slots (ps_parts ps)) = length (ps_parts ps)"
    using assms by (simp add: wf_part_set_def PartSet_IsComplete_def)
  from slots_full [OF this] show ?thesis by (auto simp: in_set_conv_nth)
qed

subsection \<open>Proofs and hashes\<close>

text \<open>
  What the external tree promises: one proof per leaf, and each is accepted for its leaf.  Nothing is
  assumed about collisions.  A part that was accepted although its bytes are not the announced ones
  exhibits one of two breaks: different bytes with the same hash, or a proof that the tree accepts
  for a hash other than the one at that position.
\<close>

definition merkle_complete :: "'p merkle \<Rightarrow> bool" where
  "merkle_complete M \<longleftrightarrow>
     (\<forall>hs. length (snd (SimpleProofsFromHashables M hs)) = length hs) \<and>
     (\<forall>hs i. i < length hs \<longrightarrow>
        SimpleProof_Verify M (snd (SimpleProofsFromHashables M hs) ! i) (int i) (int (length hs))
          (hs ! i) (fst (SimpleProofsFromHashables M hs)))"

lemma merkle_completeD:
  assumes "merkle_complete M"
  shows "i < length hs \<Longrightarrow>
      SimpleProof_Verify M (snd (SimpleProofsFromHashables M hs) ! i) (int i) (int (length hs))
          (hs ! i) (fst (SimpleProofsFromHashables M hs))"
  using assms by (simp add: merkle_complete_def)

definition hash_collision :: "'p merkle \<Rightarrow> bytes \<Rightarrow> bytes \<Rightarrow> bool" where
  "hash_collision M x y \<longleftrightarrow> x \<noteq> y \<and> Ripemd160 M x = Ripemd160 M y"

definition forged_proof :: "'p merkle \<Rightarrow> bytes list \<Rightarrow> nat \<Rightarrow> 'p \<Rightarrow> bytes \<Rightarrow> bool" where
  "forged_proof M hs i p h \<longleftrightarrow> i < length hs \<and> h \<noteq> hs ! i \<and>
     SimpleProof_Verify M p (int i) (int (length hs)) h (fst (SimpleProofsFromHashables M hs))"

text \<open>Part sets that start from a header and grow by parts received with an empty hash cache.\<close>

inductive received :: "'b ext \<Rightarrow> 'p merkle \<Rightarrow> part_set_header \<Rightarrow> ('b, 'p) part_set \<Rightarrow> bool"
  for E M header where
  start: "NewPartSetFromHeader E header = Some ps \<Longrightarrow> received E M header ps"
| part: "received E M header ps \<Longrightarrow> part_hash p = None \<Longrightarrow>
    AddPart E M ps p True = Some (ps', a, err) \<Longrightarrow> received E M header ps'"

lemma received_wf: "received E M header ps \<Longrightarrow> bit_array_laws E \<Longrightarrow> wf_part_set E ps"
  by (induction rule: received.induct) (auto dest: wf_FromHeader AddPart_wf)

text \<open>Every part of such a set has passed the proof check against the header's hash.\<close>

definition proved_parts :: "'p merkle \<Rightarrow> part_set_header \<Rightarrow> ('b, 'p) part_set \<Rightarrow> bool" where
  "proved_parts M header ps \<longleftrightarrow>
     ps_total ps = int_of_u64 (psh_Total header) \<and> ps_hash ps = psh_Hash header \<and>
     (\<forall>i p. i < length (ps_parts ps) \<longrightarrow> ps_parts ps ! i = Some p \<longrightarrow>
        SimpleProof_Verify M (part_Proof p) (int i) (ps_total ps) (Ripemd160 M (part_Bytes p)) (ps_hash ps))"

lemma received_proved:
  "received E M header ps \<Longrightarrow> bit_array_laws E \<Longrightarrow> proved_parts M header ps"
proof (induction rule: received.induct)
  case (start ps)
  then show ?case
    by (auto simp: NewPartSetFromHeader_def proved_parts_def split: if_splits)
next
  case (part ps p ps' a err)
  have wf: "wf_part_set E ps" using received_wf part.hyps(1) part.prems by blast
  have nn: "0 \<le> part_Index p"
    using AddPart_negative [OF wf, of p M True] part.hyps(3) by fastforce
  show ?case
  proof (cases rule: AddPart_cases [OF wf nn, of M True])
    case (4 q)
    have "snd (Part_Hash M p) = Ripemd160 M (part_Bytes p)"
      using part.hyps(2) by (simp add: Part_Hash_def Let_def)
    moreover have "nat (part_Index p) < length (ps_parts ps)"
      using 4(1) wf nn by (simp add: wf_part_set_def)
    ultimately show ?thesis
      using 4 part nn by (auto simp: proved_parts_def nth_list_update)
  qed (use part in simp_all)
qed

subsection \<open>Joining received parts\<close>

lemma chunk_count_bounds:
  "0 < n \<Longrightarrow> data \<noteq> [] \<Longrightarrow> 0 < chunk_count data n \<and> chunk_count data n \<le> length data"
proof -
  assume n: "0 < n" and d: "data \<noteq> []"
  have "n \<le> length data + n - 1" using d by (cases data) auto
  then have "0 < chunk_count data n" using n by (simp add: chunk_count_def div_greater_zero_iff)
  moreover have "length data + n - 1 < (length data + 1) * n"
    using n by (cases n) (auto simp: algebra_simps)
  then have "chunk_count data n < length data + 1"
    using n unfolding chunk_count_def by (simp add: less_mult_imp_div_less)
  ultimately show ?thesis by simp
qed

lemma NewPartSetFromData_fields:
  assumes "0 < n" and "length data + n \<le> 2 ^ 63" and "NewPartSetFromData E M data (int n) = Some ps"
  defines "hs \<equiv> map (Ripemd160 M) (map (chunk data n) [0..<chunk_count data n])"
  shows "ps_total ps = int (chunk_count data n)" and "ps_hash ps = fst (SimpleProofsFromHashables M hs)"
    and "length (ps_parts ps) = chunk_count data n"
    and "i < chunk_count data n \<Longrightarrow> ps_parts ps ! i = Some \<lparr>part_Index = int i,
       part_Bytes = chunk data n i, part_Proof = snd (SimpleProofsFromHashables M hs) ! i,
       part_hash = Some (Ripemd160 M (chunk data n i))\<rparr>"
proof -
  have sum: "int (length data) + int n - 1 = int (length data + n - 1)"
    using assms(1) by simp
  have lt: "length data + n - 1 < 2 ^ 63" using assms(1,2) by linarith
  then have "int (length data + n - 1) < 2 ^ 63" by (simp only: of_nat_less_numeral_power_cancel_iff)
  then have tot: "int64_quot (int64_of (int (length data) + int n - 1)) (int n) = Some (int (chunk_count data n))"
    unfolding sum chunk_count_def zdiv_int int64_of_nat [OF lt] using assms(1) by (intro int64_quot_pos) simp_all
  have "those (map (part_chunk data (int n)) [0..<chunk_count data n]) =
      Some (map (chunk data n) [0..<chunk_count data n])"
    by (rule those_map_Some) (simp add: part_chunk_eq [OF assms(1,2)])
  then have ps: "ps = \<lparr>ps_total = int (chunk_count data n), ps_hash = fst (SimpleProofsFromHashables M hs),
      ps_parts = map (\<lambda>i. Some \<lparr>part_Index = int i, part_Bytes = map (chunk data n) [0..<chunk_count data n] ! i,
         part_Proof = snd (SimpleProofsFromHashables M hs) ! i, part_hash = Some (hs ! i)\<rparr>)
         [0..<chunk_count data n],
      partsBitArray = fold (\<lambda>i b. BA_SetIndex E b i True) [0..<chunk_count data n]
        (NewBitArray E (chunk_count data n)), ps_count = int (chunk_count data n)\<rparr>"
    using assms(3) by (simp add: NewPartSetFromData_def tot Let_def hs_def case_prod_beta split: if_splits)
  show "ps_total ps = int (chunk_count data n)" "ps_hash ps = fst (SimpleProofsFromHashables M hs)"
    "length (ps_parts ps) = chunk_count data n"
    by (simp_all add: ps)
  show "i < chunk_count data n \<Longrightarrow> ps_parts ps ! i = Some \<lparr>part_Index = int i,
       part_Bytes = chunk data n i, part_Proof = snd (SimpleProofsFromHashables M hs) ! i,
       part_hash = Some (Ripemd160 M (chunk data n i))\<rparr>"
    by (simp add: ps) (simp add: hs_def)
qed

lemma header_of_data:
  assumes "0 < n" and "length data + n \<le> 2 ^ 63" and "NewPartSetFromData E M data (int n) = Some ps0"
  shows "int_of_u64 (psh_Total (PartSet_Header (Some ps0))) = int (chunk_count data n)"
    and "psh_Hash (PartSet_Header (Some ps0)) = ps_hash ps0"
proof -
  have "chunk_count data n \<le> length data"
    using chunk_count_bounds [OF assms(1), of data] assms(1) by (cases "data = []") (auto simp: chunk_count_def)
  then have "chunk_count data n < 2 ^ 63" using assms(1,2) by linarith
  then have "int (chunk_count data n) < 2 ^ 63" by (simp only: of_nat_less_numeral_power_cancel_iff)
  then show "int_of_u64 (psh_Total (PartSet_Header (Some ps0))) = int (chunk_count data n)"
    using NewPartSetFromData_fields(1) [OF assms]
    by (simp add: PartSet_Header_def int_of_u64_u64_of_int)
qed (simp add: PartSet_Header_def)

text \<open>The hashes of the parts of a full set, in order.\<close>

definition leaf_hashes :: "'p merkle \<Rightarrow> ('b, 'p) part_set \<Rightarrow> bytes list" where
  "leaf_hashes M ps = map (\<lambda>p. Ripemd160 M (part_Bytes (the p))) (ps_parts ps)"

lemma leaf_hashes_of_data:
  assumes "0 < n" and "length data + n \<le> 2 ^ 63" and "NewPartSetFromData E M data (int n) = Some ps0"
  shows "leaf_hashes M ps0 = map (Ripemd160 M) (map (chunk data n) [0..<chunk_count data n])"
  by (rule nth_equalityI)
    (use NewPartSetFromData_fields(3,4) [OF assms] in \<open>simp_all add: leaf_hashes_def\<close>)

lemma received_bytes:
  assumes laws: "bit_array_laws E" and n: "0 < n" and len: "length data + n \<le> 2 ^ 63"
    and src: "NewPartSetFromData E M data (int n) = Some ps0"
    and rec: "received E M (PartSet_Header (Some ps0)) ps"
  shows "length (ps_parts ps) = chunk_count data n"
    and "i < chunk_count data n \<Longrightarrow> ps_parts ps ! i = Some p \<Longrightarrow> part_Bytes p = chunk data n i \<or>
      hash_collision M (part_Bytes p) (chunk data n i) \<or>
      forged_proof M (leaf_hashes M ps0) i (part_Proof p) (Ripemd160 M (part_Bytes p))"
proof -
  note hdr = header_of_data [OF n len src]
  have pp: "proved_parts M (PartSet_Header (Some ps0)) ps" and wf: "wf_part_set E ps"
    using received_proved [OF rec laws] received_wf [OF rec laws] by simp_all
  show eq: "length (ps_parts ps) = chunk_count data n"
    using pp wf hdr(1) by (simp add: proved_parts_def wf_part_set_def)
  assume i: "i < chunk_count data n" and p: "ps_parts ps ! i = Some p"
  let ?hs = "leaf_hashes M ps0"
  have hs: "length ?hs = chunk_count data n" "?hs ! i = Ripemd160 M (chunk data n i)"
    using i by (simp_all add: leaf_hashes_of_data [OF n len src])
  have "SimpleProof_Verify M (part_Proof p) (int i) (int (length ?hs)) (Ripemd160 M (part_Bytes p))
      (fst (SimpleProofsFromHashables M ?hs))"
    using pp i p eq hdr hs NewPartSetFromData_fields(2) [OF n len src]
    by (auto simp: proved_parts_def leaf_hashes_of_data [OF n len src])
  then show "part_Bytes p = chunk data n i \<or> hash_collision M (part_Bytes p) (chunk data n i) \<or>
      forged_proof M ?hs i (part_Proof p) (Ripemd160 M (part_Bytes p))"
    using i hs by (auto simp: hash_collision_def forged_proof_def)
qed

text \<open>The reader of a complete set starts at its first part and has all bytes before it.\<close>

lemma complete_reader:
  assumes "wf_part_set E ps" and "PartSet_IsComplete ps" and "ps_parts ps \<noteq> []"
  obtains r where "GetReader ps = Some r" and "psr_parts r = ps_parts ps"
    and "unread r = concat (map (\<lambda>p. part_Bytes (the p)) (ps_parts ps))"
proof -
  have full: "None \<notin> set (ps_parts ps)" by (rule complete_full [OF assms(1,2)])
  then obtain p where hd: "ps_parts ps = Some p # drop 1 (ps_parts ps)"
    using assms(3) by (cases "ps_parts ps"; cases "hd (ps_parts ps)") auto
  let ?r = "\<lparr>psr_i = 0, psr_parts = ps_parts ps, psr_rest = part_Bytes p\<rparr>"
  have "ps_parts ps ! 0 = Some p" by (subst hd) simp
  then have "GetReader ps = Some ?r"
    using assms(2,3) by (simp add: GetReader_def NewPartSetReader_def go_index_def)
  moreover have "unread ?r = concat (map (\<lambda>p. part_Bytes (the p)) (ps_parts ps))"
    by (subst (2) hd) (simp add: unread_def)
  ultimately show thesis using that [of ?r] by simp
qed

lemma joined_chunks:
  assumes "0 < n" and "length xs = chunk_count data n"
    and "\<And>i. i < chunk_count data n \<Longrightarrow> part_Bytes (the (xs ! i)) = chunk data n i"
  shows "concat (map (\<lambda>p. part_Bytes (the p)) xs) = data"
proof -
  have "map (\<lambda>p. part_Bytes (the p)) xs = map (chunk data n) [0..<chunk_count data n]"
    using assms(2,3) by (intro nth_equalityI) simp_all
  then show ?thesis
    using chunks_cover [OF assms(1), of "length data"] by (simp add: concat_chunks chunk_count_def)
qed

subsection \<open>A concrete tree\<close>

text \<open>The root lists all leaves in a form that can be read back; a proof repeats them.\<close>

fun enc :: "bytes list \<Rightarrow> bytes" where
  "enc [] = []"
| "enc ([] # hs) = 0 # enc hs"
| "enc ((b # h) # hs) = 1 # b # enc (h # hs)"

lemma enc_inj: "enc xs = enc ys \<Longrightarrow> xs = ys"
proof (induction xs arbitrary: ys rule: enc.induct)
  case 1
  then show ?case by (cases ys rule: enc.cases) simp_all
next
  case (2 hs)
  then show ?case by (cases ys rule: enc.cases) simp_all
next
  case (3 b h hs)
  then show ?case by (cases ys rule: enc.cases) (simp_all, blast)
qed

definition sample_merkle :: "bytes list merkle" where
  "sample_merkle = \<lparr>Ripemd160 = (\<lambda>b. b),
     SimpleProofsFromHashables = (\<lambda>hs. (enc hs, replicate (length hs) hs)),
     SimpleProof_Verify = (\<lambda>p i n h root. 0 \<le> i \<and> i < int (length p) \<and> n = int (length p) \<and>
       p ! nat i = h \<and> enc p = root)\<rparr>"

lemma sample_merkle_complete [simp]: "merkle_complete sample_merkle"
  by (auto simp: merkle_complete_def sample_merkle_def)

lemma sample_merkle_unbroken:
  "\<not> hash_collision sample_merkle x y" "\<not> forged_proof sample_merkle hs i p h"
  by (auto simp: hash_collision_def forged_proof_def sample_merkle_def dest: enc_inj)

definition sample_data :: bytes where
  "sample_data = [10, 11, 12, 13, 14]"

definition sample_source :: "(bool list, bytes list) part_set" where
  "sample_source = the (NewPartSetFromData sample_ext sample_merkle sample_data 2)"

definition sample_empty :: "(bool list, bytes list) part_set" where
  "sample_empty = the (NewPartSetFromHeader sample_ext (PartSet_Header (Some sample_source)))"

fun add_parts ::
  "'b ext \<Rightarrow> 'p merkle \<Rightarrow> ('b, 'p) part_set \<Rightarrow> 'p part list \<Rightarrow> ('b, 'p) part_set option" where
  "add_parts E M ps [] = Some ps"
| "add_parts E M ps (p # qs) =
     (case AddPart E M ps p True of None \<Rightarrow> None | Some (ps', _, _) \<Rightarrow> add_parts E M ps' qs)"

lemma add_parts_received:
  "received E M h ps \<Longrightarrow> list_all (\<lambda>p. part_hash p = None) qs \<Longrightarrow> add_parts E M ps qs = Some ps' \<Longrightarrow>
    received E M h ps'"
proof (induction qs arbitrary: ps)
  case (Cons p qs)
  then obtain ps1 a err where "AddPart E M ps p True = Some (ps1, a, err)" "add_parts E M ps1 qs = Some ps'"
    by (auto split: option.splits)
  then show ?case
    using Cons.IH [of ps1] received.part [OF Cons.prems(1), of p ps1 a err] Cons.prems(2) by simp
qed simp

text \<open>The parts of the source in another order, with a forged part first.\<close>

definition sample_parts :: "bytes list part list" where
  "sample_parts =
     (the (ps_parts sample_source ! 0))\<lparr>part_Bytes := [99, 98], part_hash := None\<rparr> #
     map (\<lambda>i. (the (ps_parts sample_source ! i))\<lparr>part_hash := None\<rparr>) [2, 0, 1]"

definition sample_received :: "(bool list, bytes list) part_set" where
  "sample_received = the (add_parts sample_ext sample_merkle sample_empty sample_parts)"

lemma sample_part_sets:
  "NewPartSetFromData sample_ext sample_merkle sample_data 2 = Some sample_source"
  "received sample_ext sample_merkle (PartSet_Header (Some sample_source)) sample_empty"
  "received sample_ext sample_merkle (PartSet_Header (Some sample_source)) sample_received"
  "PartSet_IsComplete sample_received"
proof -
  have ne: "NewPartSetFromData sample_ext sample_merkle sample_data 2 \<noteq> None"
    "NewPartSetFromHeader sample_ext (PartSet_Header (Some sample_source)) \<noteq>
       (None :: (bool list, bytes list) part_set option)"
    "add_parts sample_ext sample_merkle sample_empty sample_parts \<noteq> None"
    "list_all (\<lambda>p. part_hash p = None) sample_parts"
    by code_simp+
  show "NewPartSetFromData sample_ext sample_merkle sample_data 2 = Some sample_source"
    using ne(1) by (simp add: sample_source_def)
  show emp: "received sample_ext sample_merkle (PartSet_Header (Some sample_source)) sample_empty"
    using ne(2) by (intro received.start) (simp add: sample_empty_def)
  show "received sample_ext sample_merkle (PartSet_Header (Some sample_source)) sample_received"
    using add_parts_received [OF emp ne(4)] ne(3) by (simp add: sample_received_def)
  show "PartSet_IsComplete sample_received" by code_simp
qed

subsection \<open>Properties\<close>

text \<open>
  C10: Data cut by \<open>NewPartSetFromData\<close> is put together unchanged: a part set that starts from the
  announced header and grows by parts from arbitrary peers, once complete, has a reader whose first
  read of more bytes than the set holds returns all of them and the end of file, and these bytes are
  exactly the data, unless one of the received parts is itself a break of the hash or of the tree:
  its bytes differ from the announced part but hash alike, or its proof was accepted for a hash that
  is not the one announced at its position.
\<close>

theorem part_set_reassembly:
  assumes "bit_array_laws E" and "0 < n" and "int (length data) + n \<le> 2 ^ 63"
    and "data \<noteq> []" and "NewPartSetFromData E M data n = Some ps0"
    and "received E M (PartSet_Header (Some ps0)) ps" and "PartSet_IsComplete ps"
  shows "\<exists>r r' d. GetReader ps = Some r \<and> PartSetReader_Read r (length d + 1) = Some (d, True, r') \<and>
    (d = data \<or> (\<exists>i p. i < length (ps_parts ps) \<and> ps_parts ps ! i = Some p \<and>
       (hash_collision M (part_Bytes p) (part_Bytes (the (ps_parts ps0 ! i))) \<or>
        forged_proof M (leaf_hashes M ps0) i (part_Proof p) (Ripemd160 M (part_Bytes p)))))"
proof -
  obtain m where m: "n = int m" "0 < m" using assms(2) by (metis zero_less_imp_eq_int)
  have len: "length data + m \<le> 2 ^ 63" using assms(3) by (simp add: m(1); linarith)
  note src = assms(5) [unfolded m(1)]
  note wf = received_wf [OF assms(6,1)]
  note full = complete_full [OF wf assms(7)]
  note bytes = received_bytes [OF assms(1) m(2) len src assms(6)]
  have "ps_parts ps \<noteq> []" using chunk_count_bounds [OF m(2) assms(4)] bytes(1) by auto
  from complete_reader [OF wf assms(7) this] obtain r where r: "GetReader ps = Some r"
    "psr_parts r = ps_parts ps" "unread r = concat (map (\<lambda>p. part_Bytes (the p)) (ps_parts ps))" .
  have "\<exists>r'. PartSetReader_Read r (length (unread r) + 1) = Some (unread r, True, r')"
    by (rule PartSetReader_Read_spec [of r "length (unread r) + 1"]) (use full r(2) in auto)
  moreover have "unread r = data \<or> (\<exists>i p. i < length (ps_parts ps) \<and> ps_parts ps ! i = Some p \<and>
       (hash_collision M (part_Bytes p) (part_Bytes (the (ps_parts ps0 ! i))) \<or>
        forged_proof M (leaf_hashes M ps0) i (part_Proof p) (Ripemd160 M (part_Bytes p))))"
  proof (cases "\<forall>i < chunk_count data m. part_Bytes (the (ps_parts ps ! i)) = chunk data m i")
    case True
    then show ?thesis using joined_chunks [OF m(2) bytes(1)] r(3) by simp
  next
    case False
    then obtain i p where i: "i < chunk_count data m" and p: "ps_parts ps ! i = Some p"
      and diff: "part_Bytes p \<noteq> chunk data m i"
      using full bytes(1) by (metis nth_mem option.exhaust option.sel)
    moreover have "part_Bytes (the (ps_parts ps0 ! i)) = chunk data m i"
      using NewPartSetFromData_fields(4) [OF m(2) len src i] by simp
    ultimately show ?thesis using bytes(2) [OF i p] bytes(1) by metis
  qed
  ultimately show ?thesis using r(1) by blast
qed

theorem part_set_reassembly_witness:
  "\<exists>r r'. GetReader sample_received = Some r \<and>
     PartSetReader_Read r (length sample_data + 1) = Some (sample_data, True, r')"
proof -
  have "0 < (2 :: int)" "int (length sample_data) + 2 \<le> 2 ^ 63" "sample_data \<noteq> []"
    by (simp_all add: sample_data_def)
  from part_set_reassembly [OF sample_ext_laws this sample_part_sets(1,3,4)]
  show ?thesis using sample_merkle_unbroken by blast
qed

text \<open>
  C25: A part set announced by the header of some data, cut into parts of a positive size for which the
  length computation does not overflow, accepts every genuine part it does not have yet: \<open>AddPart\<close>
  reports it as added without an error, whatever parts were received before.  Of the external tree
  this uses only that the proofs it makes are accepted for their leaves.
\<close>

theorem genuine_part_accepted:
  assumes "bit_array_laws E" and "merkle_complete M" and "0 < n"
    and "int (length data) + n \<le> 2 ^ 63" and "NewPartSetFromData E M data n = Some ps0"
    and "received E M (PartSet_Header (Some ps0)) ps"
    and "i < length (ps_parts ps0)" and "ps_parts ps0 ! i = Some q" and "ps_parts ps ! i = None"
  shows "\<exists>ps'. AddPart E M ps (q\<lparr>part_hash := None\<rparr>) True = Some (ps', True, None) \<and>
    map_option part_Bytes (ps_parts ps' ! i) = Some (part_Bytes q)"
proof -
  obtain m where m: "n = int m" "0 < m" using assms(3) by (metis zero_less_imp_eq_int)
  have bound: "length data + m \<le> 2 ^ 63" using assms(4) by (simp add: m(1); linarith)
  note src = assms(5) [unfolded m(1)]
  let ?q = "q\<lparr>part_hash := None\<rparr>"
  let ?hs = "map (Ripemd160 M) (map (chunk data m) [0..<chunk_count data m])"
  note f = NewPartSetFromData_fields [OF m(2) bound src]
  note hdr = header_of_data [OF m(2) bound src]
  have i: "i < chunk_count data m" using assms(7) f(3) by simp
  have pp: "proved_parts M (PartSet_Header (Some ps0)) ps" by (rule received_proved [OF assms(6,1)])
  have len: "length (ps_parts ps) = chunk_count data m"
    by (rule received_bytes(1) [OF assms(1) m(2) bound src assms(6)])
  have q: "part_Index q = int i" "part_Bytes q = chunk data m i"
    "part_Proof q = snd (SimpleProofsFromHashables M ?hs) ! i"
    using f(4) [OF i] assms(8) by auto
  have ok: "SimpleProof_Verify M (part_Proof ?q) (part_Index ?q) (ps_total ps) (snd (Part_Hash M ?q)) (ps_hash ps)"
    using merkle_completeD [OF assms(2), of i ?hs] i q pp hdr f(2)
    by (simp add: proved_parts_def Part_Hash_def Let_def)
  have tot: "ps_total ps = int (chunk_count data m)"
    using pp hdr(1) by (simp add: proved_parts_def)
  show ?thesis
    using ok i q len tot assms(9)
    by (simp add: AddPart_def Let_def case_prod_beta Part_Hash_def)
qed

theorem genuine_part_accepted_witness:
  "\<exists>ps'. AddPart sample_ext sample_merkle sample_empty
      ((the (ps_parts sample_source ! 1))\<lparr>part_hash := None\<rparr>) True = Some (ps', True, None)"
proof -
  have "1 < length (ps_parts sample_source)" "ps_parts sample_source ! 1 \<noteq> None"
    "ps_parts sample_empty ! 1 = None"
    by code_simp+
  then show ?thesis
    using genuine_part_accepted [OF sample_ext_laws sample_merkle_complete _ _ sample_part_sets(1,2), of 1
        "the (ps_parts sample_source ! 1)"]
    by (auto simp: sample_data_def)
qed

text \<open>
  C26: On a received part set \<open>AddPart\<close> panics exactly for a negative index; otherwise it keeps the
  invariant that the count is the number of stored parts, that the bit array marks exactly the stored
  parts and that every part is stored at its own index.
\<close>

theorem AddPart_total:
  assumes "bit_array_laws E" and "received E M h ps"
  shows "(AddPart E M ps p v = None \<longleftrightarrow> part_Index p < 0) \<and>
    (\<forall>ps' a err. AddPart E M ps p v = Some (ps', a, err) \<longrightarrow> wf_part_set E ps')"
proof -
  note wf = received_wf [OF assms(2,1)]
  have "AddPart E M ps p v \<noteq> None" if "0 \<le> part_Index p"
    by (rule AddPart_cases [OF wf that, of M v]) simp_all
  then have "AddPart E M ps p v = None \<longleftrightarrow> part_Index p < 0"
    using AddPart_negative [OF wf, of p M v] by linarith
  then show ?thesis using AddPart_wf [OF assms(1) wf] by blast
qed

theorem AddPart_total_witness:
  "AddPart sample_ext sample_merkle sample_empty
     \<lparr>part_Index = -1, part_Bytes = [], part_Proof = [], part_hash = None\<rparr> True = None"
  using AddPart_total [OF sample_ext_laws sample_part_sets(2), of
      "\<lparr>part_Index = -1, part_Bytes = [], part_Proof = [], part_hash = None\<rparr>" True] by simp

end
