(* ===== verification/Validators.thy ===== *)
theory Validators
  imports Externals
begin

section \<open>Validator sets\<close>

text \<open>
  The package files \<open>validator.go\<close> and \<open>validator_set.go\<close>, with the voting threshold
  \<open>Loose23MajorThreshold\<close> of \<open>vote_set.go\<close>.  The set is a slice of validators searched by
  address; the operations return the new set where Go updates the receiver.  The theory shows that
  the set behaves as a finite map keyed by address, that tallies over a bit array are sums over the
  set bits, and that a commit accepted by \<open>VerifyCommit\<close> carries a quorum.
\<close>

subsection \<open>The voting threshold\<close>

definition LooseRound :: int where
  "LooseRound = 30"

definition HalfLooseRound :: int where
  "HalfLooseRound = 15"

text \<open>
  The factor \<open>2*LooseRound - round\<close> is computed in machine integers before it becomes a big integer,
  so it wraps around for the sixty-one lowest rounds.
\<close>

definition Loose23MajorThreshold :: "int \<Rightarrow> int \<Rightarrow> int" where
  "Loose23MajorThreshold totalVotingPower rnd =
     (let rnd = (if rnd \<ge> HalfLooseRound then HalfLooseRound else rnd);
          quorum1 = totalVotingPower * int64_of (2 * LooseRound - rnd);
          quorum1 = quorum1 + 3 * LooseRound
      in quorum1 div (3 * LooseRound))"

subsection \<open>The set and its operations\<close>

record validator_set =
  Validators :: "validator list"
  totalVotingPower :: "int option"

definition ValidatorsByAddress_Less :: "validator list \<Rightarrow> nat \<Rightarrow> nat \<Rightarrow> bool" where
  "ValidatorsByAddress_Less vs i j \<longleftrightarrow> Address (vs ! i) < Address (vs ! j)"

definition NewValidatorSet :: "validator list \<Rightarrow> validator_set" where
  "NewValidatorSet vals =
     \<lparr>Validators = sort_key Address (map Validator_Copy vals), totalVotingPower = None\<rparr>"

definition ValidatorSet_Copy :: "validator_set \<Rightarrow> validator_set" where
  "ValidatorSet_Copy s =
     \<lparr>Validators = map Validator_Copy (Validators s), totalVotingPower = totalVotingPower s\<rparr>"

definition Validator_Equals :: "'b ext \<Rightarrow> validator \<Rightarrow> validator \<Rightarrow> bool" where
  "Validator_Equals E v oth \<longleftrightarrow>
     Address v = Address oth \<and> PubKey_Equals E (PubKey v) (PubKey oth) \<and>
     VotingPower v = VotingPower oth"

definition Size :: "validator_set \<Rightarrow> nat" where
  "Size s = length (Validators s)"

text \<open>The number of validators, not the sum of their powers.\<close>

definition TotalVotingPower :: "validator_set \<Rightarrow> int" where
  "TotalVotingPower s = int (Size s)"

text \<open>The loop, repeated in four methods, that looks for the first matching address.\<close>

fun index_of :: "bytes \<Rightarrow> validator list \<Rightarrow> nat option" where
  "index_of a [] = None"
| "index_of a (v # vs) =
     (if a = Address v then Some 0 else map_option Suc (index_of a vs))"

definition HasAddress :: "validator_set \<Rightarrow> bytes \<Rightarrow> bool" where
  "HasAddress s address \<longleftrightarrow> (\<exists>v \<in> set (Validators s). address = Address v)"

definition GetByAddress :: "validator_set \<Rightarrow> bytes \<Rightarrow> int \<times> validator option" where
  "GetByAddress s address =
     (case index_of address (Validators s) of
        Some idx \<Rightarrow> (int idx, Some (Validator_Copy (Validators s ! idx)))
      | None \<Rightarrow> (0, None))"

text \<open>A panic when the index is out of range.\<close>

definition GetByIndex :: "validator_set \<Rightarrow> int \<Rightarrow> (bytes \<times> validator) option" where
  "GetByIndex s index =
     (case go_index (Validators s) index of
        None \<Rightarrow> None
      | Some val \<Rightarrow> Some (Address val, Validator_Copy val))"

definition Add :: "validator_set \<Rightarrow> validator \<Rightarrow> validator_set \<times> bool" where
  "Add s val =
     (let val = Validator_Copy val in
      case index_of (Address val) (Validators s) of
        None \<Rightarrow> (s\<lparr>Validators := Validators s @ [val], totalVotingPower := None\<rparr>, True)
      | Some _ \<Rightarrow> (s, False))"

definition Update :: "validator_set \<Rightarrow> validator \<Rightarrow> validator_set \<times> bool" where
  "Update s val =
     (case GetByAddress s (Address val) of
        (index, None) \<Rightarrow> (s, False)
      | (index, Some sameVal) \<Rightarrow>
          (s\<lparr>Validators := (Validators s)[nat index := Validator_Copy val],
             totalVotingPower := None\<rparr>, True))"

definition Remove :: "validator_set \<Rightarrow> bytes \<Rightarrow> validator_set \<times> validator option \<times> bool" where
  "Remove s address =
     (case index_of address (Validators s) of
        None \<Rightarrow> (s, None, False)
      | Some idx \<Rightarrow>
          (let removedVal = Validators s ! idx;
               newValidators = take idx (Validators s);
               newValidators =
                 (if idx + 1 < length (Validators s)
                  then newValidators @ drop (idx + 1) (Validators s) else newValidators)
           in (s\<lparr>Validators := newValidators, totalVotingPower := None\<rparr>, Some removedVal, True)))"

definition ValidatorSet_Equals :: "'b ext \<Rightarrow> validator_set \<Rightarrow> validator_set \<Rightarrow> bool" where
  "ValidatorSet_Equals E s oth \<longleftrightarrow>
     (if length (Validators s) \<noteq> length (Validators oth) then False
      else list_all (\<lambda>v. case snd (GetByAddress s (Address v)) of
                           None \<Rightarrow> False
                         | Some val \<Rightarrow> Validator_Equals E val v) (Validators oth))"

definition ValidatorSet_Hash :: "'b ext \<Rightarrow> validator_set \<Rightarrow> bytes" where
  "ValidatorSet_Hash E s =
     (if length (Validators s) = 0 then [] else Validators_SimpleHash E (Validators s))"

subsection \<open>Tallies over a bit array\<close>

definition AggrPubKey :: "'b ext \<Rightarrow> validator_set \<Rightarrow> 'b option \<Rightarrow> pubkey option" where
  "AggrPubKey E s bitMap =
     (if bitMap = None then None
      else if BA_Size E bitMap \<noteq> length (Validators s) then None
      else BLSPubKeyAggregate E
             (map (\<lambda>i. PubKey (Validators s ! i))
                (filter (BA_GetIndex E bitMap) [0..<BA_Size E bitMap])))"

datatype bitmap_error = NilBitmap | BitmapSizeMismatch nat nat

definition GetAggrPubKeyAndAddress ::
  "'b ext \<Rightarrow> validator_set \<Rightarrow> 'b option \<Rightarrow> bitmap_error + (string list \<times> bytes list)" where
  "GetAggrPubKeyAndAddress E s bitMap =
     (if bitMap = None then Inl NilBitmap
      else if BA_Size E bitMap \<noteq> Size s then Inl (BitmapSizeMismatch (Size s) (BA_Size E bitMap))
      else Inr
        (map (\<lambda>i. if BA_GetIndex E bitMap i then PubKey_KeyString E (PubKey (Validators s ! i))
                  else '''') [0..<BA_Size E bitMap],
         map (\<lambda>i. if BA_GetIndex E bitMap i then BytesToAddress (Address (Validators s ! i))
                  else replicate NeatAddressLength 0) [0..<BA_Size E bitMap]))"

text \<open>
  The three running sums: number of set bits, power of the set bits, power of all.  The check for a
  nil slice of validators has no counterpart: a set always holds a slice here.
\<close>

definition tally_step ::
  "(nat \<Rightarrow> int) \<Rightarrow> (nat \<Rightarrow> bool) \<Rightarrow> nat \<Rightarrow> int \<times> int \<times> int \<Rightarrow> int \<times> int \<times> int" where
  "tally_step vp isSet i sums =
     (let (powerSum, votesSum, totalVotes) = sums in
      if isSet i then (powerSum + 1, votesSum + vp i, totalVotes + vp i)
      else (powerSum, votesSum, totalVotes + vp i))"

text \<open>
  A nil slice of validators and an empty one are the same list here; the error of the source for a nil
  slice differs from an empty tally only for a set without validators.
\<close>

definition TalliedVotingPower ::
  "'b ext \<Rightarrow> validator_set \<Rightarrow> 'b option \<Rightarrow> bitmap_error + (int \<times> int \<times> int)" where
  "TalliedVotingPower E s bitMap =
     (if bitMap = None then Inl NilBitmap
      else if Size s \<noteq> BA_Size E bitMap then Inl (BitmapSizeMismatch (Size s) (BA_Size E bitMap))
      else Inr (fold (tally_step (\<lambda>i. VotingPower (Validators s ! i)) (BA_GetIndex E bitMap))
                  [0..<BA_Size E bitMap] (0, 0, 0)))"

subsection \<open>Commits\<close>

record 'b commit =
  com_BlockID :: block_id
  com_Height :: uint64
  com_Round :: int
  com_SignAggr :: signature
  com_BitArray :: "'b option"

definition Commit_Type :: "'b commit \<Rightarrow> byte" where
  "Commit_Type c = VoteTypePrecommit"

definition Commit_ValidateBasic :: "'b commit \<Rightarrow> string + unit" where
  "Commit_ValidateBasic c =
     (if BlockID_IsZero (com_BlockID c) then Inl ''Commit cannot be for nil block'' else Inr ())"

datatype commit_error =
    NilCommit
  | WrongSetSize nat nat
  | WrongCommitHeight uint64 uint64
  | WrongCommitSignature
  | CommitBitmap bitmap_error
  | InsufficientPower int int

text \<open>The vote that every signer of the commit has signed.\<close>

definition commit_vote :: "'b commit \<Rightarrow> vote" where
  "commit_vote c =
     \<lparr>ValidatorAddress = [], ValidatorIndex = 0, vote_Height = com_Height c,
      vote_Round = u64_of_int (com_Round c), vote_Type = Commit_Type c,
      vote_BlockID = com_BlockID c, vote_Signature = [], vote_SignBytes = []\<rparr>"

text \<open>
  \<^term>\<open>None\<close> is the panic of calling \<open>VerifyBytes\<close> on a nil aggregate key.
\<close>

definition VerifyCommit ::
  "'b ext \<Rightarrow> validator_set \<Rightarrow> chain_id \<Rightarrow> uint64 \<Rightarrow> 'b commit option \<Rightarrow> (commit_error + unit) option"
where
  "VerifyCommit E s chainID height com =
     (case com of
        None \<Rightarrow> Some (Inl NilCommit)
      | Some c \<Rightarrow>
          if Size s \<noteq> BA_Size E (com_BitArray c)
          then Some (Inl (WrongSetSize (Size s) (BA_Size E (com_BitArray c))))
          else if height \<noteq> com_Height c then Some (Inl (WrongCommitHeight height (com_Height c)))
          else case AggrPubKey E s (com_BitArray c) of
              None \<Rightarrow> None
            | Some pubKey \<Rightarrow>
                if \<not> PubKey_VerifyBytes E pubKey (Vote_SignBytes E chainID (commit_vote c))
                       (com_SignAggr c)
                then Some (Inl WrongCommitSignature)
                else case TalliedVotingPower E s (com_BitArray c) of
                    Inl err \<Rightarrow> Some (Inl (CommitBitmap err))
                  | Inr (_, votesSum, totalVotes) \<Rightarrow>
                      let quorum = Loose23MajorThreshold totalVotes (com_Round c) in
                      if votesSum \<ge> quorum then Some (Inr ())
                      else Some (Inl (InsufficientPower votesSum quorum)))"

subsection \<open>Arithmetic of the threshold\<close>

text \<open>
  Rounds for which the factor of the threshold stays in the range of a machine integer.  A round
  above the clamp is always sound.
\<close>

definition sound_round :: "int \<Rightarrow> bool" where
  "sound_round r \<longleftrightarrow> 61 - 2 ^ 63 \<le> r"

lemma sound_round_nonneg [simp]: "0 \<le> r \<Longrightarrow> sound_round r"
  by (simp add: sound_round_def)

lemma Loose23_unfold:
  "Loose23MajorThreshold T r = (T * int64_of (60 - min r 15) + 90) div 90"
  by (simp add: Loose23MajorThreshold_def LooseRound_def HalfLooseRound_def min_def)

lemma Loose23_eq:
  "sound_round r \<Longrightarrow> Loose23MajorThreshold T r = (T * (60 - min r 15) + 90) div 90"
  unfolding Loose23_unfold by (subst int64_of_id) (auto simp: sound_round_def)

lemma Loose23_majority: "sound_round r \<Longrightarrow> 0 \<le> T \<Longrightarrow> T < 2 * Loose23MajorThreshold T r"
proof -
  assume r: "sound_round r" and T: "0 \<le> T"
  have "T * 45 \<le> T * (60 - min r 15)"
    using T by (intro mult_left_mono) auto
  then have "(T * 45 + 90) div 90 \<le> Loose23MajorThreshold T r"
    unfolding Loose23_eq [OF r] by (intro zdiv_mono1) auto
  then show ?thesis by linarith
qed

lemma Loose23_le_total: "0 < T \<Longrightarrow> 0 \<le> r \<Longrightarrow> Loose23MajorThreshold T r \<le> T"
proof -
  assume T: "0 < T" and r: "0 \<le> r"
  have "T * (60 - min r 15) \<le> T * 60"
    using T r by (intro mult_left_mono) auto
  then have "Loose23MajorThreshold T r \<le> (T * 60 + 90) div 90"
    using r by (simp add: Loose23_eq zdiv_mono1)
  then show ?thesis using T by linarith
qed

lemma Loose23_antimono:
  "sound_round r \<Longrightarrow> 0 \<le> T \<Longrightarrow> r \<le> r' \<Longrightarrow> Loose23MajorThreshold T r' \<le> Loose23MajorThreshold T r"
proof -
  assume "sound_round r" and T: "0 \<le> T" and le: "r \<le> r'"
  moreover from this have "sound_round r'" by (simp add: sound_round_def)
  moreover have "(T * (60 - min r' 15) + 90) div 90 \<le> (T * (60 - min r 15) + 90) div 90"
    using T le by (intro zdiv_mono1 add_right_mono mult_left_mono) auto
  ultimately show ?thesis by (simp add: Loose23_eq)
qed

lemma Loose23_round0: "Loose23MajorThreshold T 0 = 2 * T div 3 + 1"
  by (simp add: Loose23_eq)

lemma Loose23_late: "15 \<le> r \<Longrightarrow> Loose23MajorThreshold T r = T div 2 + 1"
  by (simp add: Loose23_eq)

text \<open>At the other rounds of a machine integer the factor is negative and so is the threshold.\<close>

lemma Loose23_wrapped:
  assumes "- (2 ^ 63) \<le> r" and "\<not> sound_round r" and "0 < T"
  shows "Loose23MajorThreshold T r < 0"
proof -
  have "int64_of (60 - min r 15) = 60 - r - 2 ^ 64"
    using assms(1,2) int64_of_wrap [of "60 - r"] by (simp add: sound_round_def)
  then have "int64_of (60 - min r 15) \<le> - 91"
    using assms(1) by simp
  then have "T * int64_of (60 - min r 15) \<le> 1 * - 91"
    using assms(3) mult_left_mono [of "int64_of (60 - min r 15)" "- 91" T] by linarith
  then show ?thesis unfolding Loose23_unfold by simp
qed

lemma twice_two_thirds: "2 * (2 * T div 3 + 1) - T \<le> x \<Longrightarrow> T < 3 * x" for T x :: int
  by presburger

lemma Loose23_reached_sound:
  assumes "- (2 ^ 63) \<le> r" and "0 < Loose23MajorThreshold T r" and "Loose23MajorThreshold T r \<le> x"
    and "x \<le> T"
  shows "sound_round r"
  using Loose23_wrapped [OF assms(1), of T] assms(2-4) by fastforce

subsection \<open>Weights\<close>

definition power_of :: "validator_set \<Rightarrow> nat \<Rightarrow> int" where
  "power_of s i = VotingPower (Validators s ! i)"

definition total_power :: "validator_set \<Rightarrow> int" where
  "total_power s = (\<Sum>i<Size s. power_of s i)"

definition nonneg_powers :: "validator_set \<Rightarrow> bool" where
  "nonneg_powers s \<longleftrightarrow> list_all (\<lambda>v. 0 \<le> VotingPower v) (Validators s)"

lemma power_of_nonneg: "nonneg_powers s \<Longrightarrow> i < Size s \<Longrightarrow> 0 \<le> power_of s i"
  by (simp add: nonneg_powers_def power_of_def Size_def list_all_length)

lemma total_power_nonneg: "nonneg_powers s \<Longrightarrow> 0 \<le> total_power s"
  by (auto simp: total_power_def intro!: sum_nonneg power_of_nonneg)

interpretation val_quorum: weighted_quorum nonneg_powers "\<lambda>s. {..<Size s}" power_of
  "\<lambda>s. Loose23MajorThreshold (total_power s)" sound_round
  by unfold_locales
    (auto simp: power_of_nonneg total_power_nonneg Loose23_majority simp flip: total_power_def)

lemma tally_fold:
  "fold (tally_step f P) [0..<n] (0, 0, 0) =
   (int (card {i. i < n \<and> P i}), sum f {i. i < n \<and> P i}, sum f {..<n})"
proof (induction n)
  case (Suc n)
  have eq: "{i. i < Suc n \<and> P i} = (if P n then insert n {i. i < n \<and> P i} else {i. i < n \<and> P i})"
    by (auto simp: less_Suc_eq)
  show ?case
    by (simp add: Suc.IH eq tally_step_def [of f P n])
qed simp

lemma TalliedVotingPower_eq:
  "TalliedVotingPower E s b =
     (if b = None then Inl NilBitmap
      else if Size s \<noteq> BA_Size E b then Inl (BitmapSizeMismatch (Size s) (BA_Size E b))
      else Inr (int (card (bits E b)), sum (power_of s) (bits E b), total_power s))"
  unfolding TalliedVotingPower_def bits_def total_power_def power_of_def
  by (simp add: tally_fold)

subsection \<open>The set as a map from addresses\<close>

definition distinct_addresses :: "validator_set \<Rightarrow> bool" where
  "distinct_addresses s \<longleftrightarrow> distinct (map Address (Validators s))"

lemma index_of_None: "index_of a vs = None \<longleftrightarrow> a \<notin> Address ` set vs"
  by (induction vs) auto

lemma index_of_Some:
  "index_of a vs = Some i \<Longrightarrow> i < length vs \<and> Address (vs ! i) = a \<and> (\<forall>j<i. Address (vs ! j) \<noteq> a)"
proof (induction vs arbitrary: i)
  case (Cons v vs)
  show ?case
  proof (cases "a = Address v")
    case False
    then obtain k where "i = Suc k" "index_of a vs = Some k"
      using Cons.prems by auto
    then show ?thesis
      using Cons.IH [of k] False by (simp add: All_less_Suc2)
  qed (use Cons.prems in simp)
qed simp

lemma index_of_append_fresh:
  "index_of a (vs @ [v]) =
     (case index_of a vs of Some i \<Rightarrow> Some i
      | None \<Rightarrow> if a = Address v then Some (length vs) else None)"
  by (induction vs) (auto split: option.splits)

lemma index_of_unique:
  "distinct (map Address vs) \<Longrightarrow> i < length vs \<Longrightarrow> index_of (Address (vs ! i)) vs = Some i"
proof (induction vs arbitrary: i)
  case (Cons v vs)
  then show ?case
    by (cases i) (auto, metis imageI nth_mem)
qed simp

lemma index_of_cong: "map Address vs = map Address ws \<Longrightarrow> index_of a vs = index_of a ws"
proof (induction vs arbitrary: ws)
  case (Cons v vs)
  then show ?case by (cases ws) auto
qed simp

lemma index_of_update:
  "i < length vs \<Longrightarrow> Address v = Address (vs ! i) \<Longrightarrow> index_of a (vs[i := v]) = index_of a vs"
  by (rule index_of_cong) (metis length_map list_update_id map_update nth_map)

definition lookup :: "validator_set \<Rightarrow> bytes \<Rightarrow> validator option" where
  "lookup s a = snd (GetByAddress s a)"

lemma lookup_eq: "lookup s a = map_option (\<lambda>i. Validators s ! i) (index_of a (Validators s))"
  by (simp add: lookup_def GetByAddress_def split: option.splits)

lemma lookup_Some_iff:
  "distinct_addresses s \<Longrightarrow> lookup s a = Some v \<longleftrightarrow> v \<in> set (Validators s) \<and> Address v = a"
  by (auto simp: lookup_eq distinct_addresses_def index_of_unique in_set_conv_nth
      dest: index_of_Some)

lemma lookup_None_iff: "lookup s a = None \<longleftrightarrow> \<not> HasAddress s a"
  by (auto simp: lookup_eq index_of_None HasAddress_def)

text \<open>
  The interface the epoch code relies on: a set of values keyed by address with the usual laws of a
  finite map, in which insertion never overwrites and update never inserts.
\<close>

locale keyed_set =
  fixes invar :: "'s \<Rightarrow> bool"
    and get :: "'s \<Rightarrow> 'k \<Rightarrow> 'v option"
    and key :: "'v \<Rightarrow> 'k"
    and add :: "'s \<Rightarrow> 'v \<Rightarrow> 's \<times> bool"
    and upd :: "'s \<Rightarrow> 'v \<Rightarrow> 's \<times> bool"
    and rem :: "'s \<Rightarrow> 'k \<Rightarrow> 's \<times> 'v option \<times> bool"
  assumes invar_add: "invar s \<Longrightarrow> invar (fst (add s v))"
    and invar_upd: "invar s \<Longrightarrow> invar (fst (upd s v))"
    and invar_rem: "invar s \<Longrightarrow> invar (fst (rem s k))"
    and get_add: "invar s \<Longrightarrow>
      get (fst (add s v)) k = (if k = key v \<and> get s k = None then Some v else get s k)"
    and add_flag: "invar s \<Longrightarrow> snd (add s v) \<longleftrightarrow> get s (key v) = None"
    and get_upd: "invar s \<Longrightarrow>
      get (fst (upd s v)) k = (if k = key v \<and> get s k \<noteq> None then Some v else get s k)"
    and upd_flag: "invar s \<Longrightarrow> snd (upd s v) \<longleftrightarrow> get s (key v) \<noteq> None"
    and get_rem: "invar s \<Longrightarrow> get (fst (rem s k)) k' = (if k' = k then None else get s k')"
    and rem_result: "invar s \<Longrightarrow> snd (rem s k) = (get s k, get s k \<noteq> None)"
begin

text \<open>Update, or add when there is nothing to update: the value is stored whatever was there.\<close>

lemma get_update_or_add:
  assumes "invar s"
  shows "get (fst (if snd (upd s v) then upd s v else add s v)) k =
    (if k = key v then Some v else get s k)"
  using assms by (simp add: get_add get_upd upd_flag)

lemma remove_then_add:
  assumes "invar s"
  shows "get (fst (add (fst (rem s (key v))) v)) k = (if k = key v then Some v else get s k)"
  using assms by (simp add: get_add get_rem invar_rem)

lemma add_twice:
  assumes "invar s"
  shows "\<not> snd (add (fst (add s v)) v)"
  using assms by (simp add: add_flag get_add invar_add)

end

lemma Remove_Validators:
  "Validators (fst (Remove s a)) =
     (case index_of a (Validators s) of None \<Rightarrow> Validators s
      | Some i \<Rightarrow> take i (Validators s) @ drop (Suc i) (Validators s))"
  by (auto simp: Remove_def Let_def split: option.splits dest: index_of_Some)

lemma set_remove_nth:
  "distinct (map f xs) \<Longrightarrow> i < length xs \<Longrightarrow>
    set (take i xs @ drop (Suc i) xs) = {x \<in> set xs. f x \<noteq> f (xs ! i)}"
proof -
  assume d: "distinct (map f xs)" and i: "i < length xs"
  have xs: "xs = take i xs @ xs ! i # drop (Suc i) xs"
    using i by (rule id_take_nth_drop)
  have "distinct (map f (take i xs @ xs ! i # drop (Suc i) xs))"
    using d xs by metis
  moreover have "set xs = set (take i xs) \<union> {xs ! i} \<union> set (drop (Suc i) xs)"
    by (subst xs) auto
  ultimately show ?thesis by (auto, (metis imageI)+)
qed

lemma Remove_set:
  "distinct_addresses s \<Longrightarrow>
    set (Validators (fst (Remove s a))) = {v \<in> set (Validators s). Address v \<noteq> a}"
  using set_remove_nth [of Address "Validators s"]
  by (auto simp: Remove_Validators distinct_addresses_def index_of_None
      split: option.splits dest!: index_of_Some)

lemma distinct_addresses_Add: "distinct_addresses s \<Longrightarrow> distinct_addresses (fst (Add s v))"
  by (auto simp: Add_def distinct_addresses_def index_of_None split: option.splits)

lemma distinct_addresses_Remove: "distinct_addresses s \<Longrightarrow> distinct_addresses (fst (Remove s a))"
proof (cases "index_of a (Validators s)")
  case (Some i)
  assume "distinct_addresses s"
  then have "distinct (map Address (take i (Validators s) @ Validators s ! i # drop (Suc i) (Validators s)))"
    using index_of_Some [OF Some] by (simp add: distinct_addresses_def flip: id_take_nth_drop)
  then show ?thesis
    by (simp add: Remove_Validators distinct_addresses_def Some)
qed (simp add: Remove_Validators distinct_addresses_def)

lemma Update_Validators:
  "fst (Update s v) =
     (case index_of (Address v) (Validators s) of None \<Rightarrow> s
      | Some i \<Rightarrow> s\<lparr>Validators := (Validators s)[i := v], totalVotingPower := None\<rparr>)"
  by (simp add: Update_def GetByAddress_def split: option.splits)

lemma distinct_addresses_Update: "distinct_addresses s \<Longrightarrow> distinct_addresses (fst (Update s v))"
  by (auto simp: Update_Validators distinct_addresses_def map_update split: option.splits
      dest!: index_of_Some) (metis length_map list_update_id nth_map)

lemma lookup_Update:
  "lookup (fst (Update s v)) a =
     (if a = Address v \<and> lookup s a \<noteq> None then Some v else lookup s a)"
proof (cases "index_of (Address v) (Validators s)")
  case (Some i)
  note i = index_of_Some [OF Some]
  have "index_of a ((Validators s)[i := v]) = index_of a (Validators s)"
    using i by (intro index_of_update) auto
  then show ?thesis
    using i Some index_of_Some [of a "Validators s"]
    by (cases "index_of a (Validators s)") (auto simp: Update_Validators lookup_eq nth_list_update)
qed (auto simp: Update_Validators lookup_eq)

lemma lookup_Add:
  "lookup (fst (Add s v)) a =
     (if a = Address v \<and> lookup s a = None then Some v else lookup s a)"
  by (auto simp: Add_def lookup_eq index_of_append_fresh nth_append split: option.splits
      dest: index_of_Some)

lemma lookup_Remove:
  "distinct_addresses s \<Longrightarrow>
    lookup (fst (Remove s k)) a = (if a = k then None else lookup s a)"
  by (rule option_eqI) (auto simp: lookup_Some_iff distinct_addresses_Remove Remove_set)

interpretation valset: keyed_set distinct_addresses lookup Address Add Update Remove
proof
  fix s :: validator_set and v :: validator and k
  show "snd (Add s v) \<longleftrightarrow> lookup s (Address v) = None"
    by (simp add: Add_def lookup_eq split: option.splits)
  show "snd (Update s v) \<longleftrightarrow> lookup s (Address v) \<noteq> None"
    by (simp add: Update_def lookup_eq GetByAddress_def split: option.splits)
  show "snd (Remove s k) = (lookup s k, lookup s k \<noteq> None)"
    by (simp add: Remove_def lookup_eq Let_def split: option.splits)
qed (simp_all add: distinct_addresses_Add distinct_addresses_Update distinct_addresses_Remove
    lookup_Add lookup_Update lookup_Remove)

subsection \<open>Accepted commits\<close>

lemma VerifyCommit_accepts_iff:
  "VerifyCommit E s chainID height (Some c) = Some (Inr ()) \<longleftrightarrow>
     com_BitArray c \<noteq> None \<and> BA_Size E (com_BitArray c) = Size s \<and> com_Height c = height \<and>
     (\<exists>pk. AggrPubKey E s (com_BitArray c) = Some pk \<and>
        PubKey_VerifyBytes E pk (Vote_SignBytes E chainID (commit_vote c)) (com_SignAggr c)) \<and>
     Loose23MajorThreshold (total_power s) (com_Round c) \<le> sum (power_of s) (bits E (com_BitArray c))"
  by (auto simp: VerifyCommit_def TalliedVotingPower_eq AggrPubKey_def Let_def split: option.splits
      if_splits)

lemma bits_bounded: "BA_Size E b = n \<Longrightarrow> bits E b \<subseteq> {..<n}"
  by (auto simp: bits_def)

lemma NewValidatorSet_canonical:
  assumes "mset xs = mset ys" and "distinct (map Address xs)"
  shows "NewValidatorSet xs = NewValidatorSet ys"
  using sorted_permutation_unique [of "sort_key Address ys" xs Address] assms
  by (simp add: NewValidatorSet_def)

subsection \<open>A concrete set\<close>

definition sample_validator :: "byte \<Rightarrow> int \<Rightarrow> validator" where
  "sample_validator b p = NewValidator [b] [b] p"

definition sample_valset :: validator_set where
  "sample_valset = NewValidatorSet
     [sample_validator 2 10, sample_validator 1 20, sample_validator 3 5, sample_validator 4 7]"

definition sample_commit :: "bytes \<Rightarrow> bool list \<Rightarrow> int \<Rightarrow> bytes \<Rightarrow> bool list commit" where
  "sample_commit hash bs rnd pks =
     \<lparr>com_BlockID = \<lparr>bid_Hash = hash, bid_PartsHeader = zero_psh\<rparr>, com_Height = 1, com_Round = rnd,
      com_SignAggr = pks @ 2 # hash, com_BitArray = Some bs\<rparr>"

lemma sample_valset_props [simp]:
  "nonneg_powers sample_valset" "distinct_addresses sample_valset"
  by code_simp+

lemma sample_commit_accepted:
  "VerifyCommit sample_ext sample_valset ''neat'' 1
     (Some (sample_commit [7] [True, True, False, False] 0 [1, 2])) = Some (Inr ())"
  "VerifyCommit sample_ext sample_valset ''neat'' 1
     (Some (sample_commit [8] [True, False, True, True] 4 [1, 3, 4])) = Some (Inr ())"
  by code_simp+

subsection \<open>Properties\<close>

text \<open>
  C17: For a positive total power and any round from zero on, the threshold of
  \<open>Loose23MajorThreshold\<close> is a strict majority that the whole set can reach; it never rises with the round, is two thirds plus
  one in round 0 and a bare majority from round 15 on.
\<close>

theorem threshold_window:
  assumes "0 < T" and "0 \<le> r" and "r \<le> r'"
  shows "T < 2 * Loose23MajorThreshold T r \<and> Loose23MajorThreshold T r \<le> T \<and>
    Loose23MajorThreshold T r' \<le> Loose23MajorThreshold T r \<and>
    Loose23MajorThreshold T 0 = 2 * T div 3 + 1 \<and> Loose23MajorThreshold T (15 + r) = T div 2 + 1"
  using assms by (simp add: Loose23_majority Loose23_le_total Loose23_antimono Loose23_round0
      Loose23_late)

theorem threshold_window_witness:
  "(30 :: int) < 2 * Loose23MajorThreshold 30 0 \<and> Loose23MajorThreshold 30 0 = 21 \<and>
   Loose23MajorThreshold 30 15 = 16 \<and> Loose23MajorThreshold 30 7 \<le> Loose23MajorThreshold 30 0"
  using threshold_window [of 30 0 7] by simp

text \<open>
  C1: Two commits accepted by \<open>VerifyCommit\<close> for the same validator set, whatever their blocks and
  whatever rounds of at least \<open>61 - 2^63\<close> they name, have common signers whose power is at least the
  sum of both thresholds minus the total, and in particular positive.  Below that bound the
  threshold wraps around.
\<close>

theorem commit_quorum_overlap:
  assumes "nonneg_powers s" and "sound_round (com_Round c)" and "sound_round (com_Round c')"
    and "VerifyCommit E s ch h (Some c) = Some (Inr ())"
    and "VerifyCommit E s ch' h' (Some c') = Some (Inr ())"
  shows "Loose23MajorThreshold (total_power s) (com_Round c) +
      Loose23MajorThreshold (total_power s) (com_Round c') - total_power s
        \<le> sum (power_of s) (bits E (com_BitArray c) \<inter> bits E (com_BitArray c')) \<and>
    0 < sum (power_of s) (bits E (com_BitArray c) \<inter> bits E (com_BitArray c'))"
  using assms val_quorum.overlap_weight [of s "bits E (com_BitArray c)" "bits E (com_BitArray c')"
      "com_Round c" "com_Round c'"]
    val_quorum.overlap_positive [of s "com_Round c" "com_Round c'" "bits E (com_BitArray c)"
      "bits E (com_BitArray c')"]
  by (simp add: VerifyCommit_accepts_iff bits_bounded flip: total_power_def)

theorem commit_quorum_overlap_witness:
  "0 < sum (power_of sample_valset)
     (bits sample_ext (Some [True, True, False, False]) \<inter>
      bits sample_ext (Some [True, False, True, True]))"
  using commit_quorum_overlap [OF _ _ _ sample_commit_accepted]
  by (simp add: sample_commit_def)

text \<open>
  C15: A commit that names one of the sixty-one lowest machine integers as its round is accepted by
  \<open>VerifyCommit\<close> whatever the power of its signers: the factor of the threshold has wrapped around
  and the threshold is negative, so acceptance depends on the size of the bit array, the height and
  the aggregate signature alone.
\<close>

theorem wrapped_round_commit:
  assumes "nonneg_powers s" and "0 < total_power s" and "- (2 ^ 63) \<le> com_Round c"
    and "com_Round c < 61 - 2 ^ 63"
  shows "VerifyCommit E s ch h (Some c) = Some (Inr ()) \<longleftrightarrow>
     com_BitArray c \<noteq> None \<and> BA_Size E (com_BitArray c) = Size s \<and> com_Height c = h \<and>
     (\<exists>pk. AggrPubKey E s (com_BitArray c) = Some pk \<and>
        PubKey_VerifyBytes E pk (Vote_SignBytes E ch (commit_vote c)) (com_SignAggr c))"
proof -
  have "Loose23MajorThreshold (total_power s) (com_Round c) < 0"
    using assms(2-4) by (intro Loose23_wrapped) (simp_all add: sound_round_def)
  moreover have "0 \<le> sum (power_of s) (bits E (com_BitArray c))"
    if "BA_Size E (com_BitArray c) = Size s"
    using bits_bounded [OF that] power_of_nonneg [OF assms(1)] by (intro sum_nonneg) auto
  ultimately show ?thesis by (auto simp: VerifyCommit_accepts_iff)
qed

theorem wrapped_round_commit_witness:
  "VerifyCommit sample_ext sample_valset ''neat'' 1
     (Some (sample_commit [7] [False, False, True, False] (- (2 ^ 63)) [3])) = Some (Inr ()) \<and>
   VerifyCommit sample_ext sample_valset ''neat'' 1
     (Some (sample_commit [7] [False, False, True, False] 0 [3])) \<noteq> Some (Inr ())"
proof -
  let ?c = "sample_commit [7] [False, False, True, False] (- (2 ^ 63)) [3]"
  have "0 < total_power sample_valset"
    "com_BitArray ?c \<noteq> None \<and> BA_Size sample_ext (com_BitArray ?c) = Size sample_valset \<and>
     com_Height ?c = 1 \<and> AggrPubKey sample_ext sample_valset (com_BitArray ?c) = Some [3] \<and>
     PubKey_VerifyBytes sample_ext [3] (Vote_SignBytes sample_ext ''neat'' (commit_vote ?c))
       (com_SignAggr ?c)"
    "VerifyCommit sample_ext sample_valset ''neat'' 1
       (Some (sample_commit [7] [False, False, True, False] 0 [3])) \<noteq> Some (Inr ())"
    by code_simp+
  moreover have "com_Round ?c = - (2 ^ 63)" by (simp add: sample_commit_def)
  ultimately show ?thesis
    using wrapped_round_commit [of sample_valset ?c sample_ext "''neat''" 1] by simp
qed

text \<open>
  C16: In round 0 two accepted commits of one validator set have common signers holding more than a
  third of the total power, so two different blocks committed there expose more than a third of the
  power as double signers.
\<close>

theorem round0_commits_share_third:
  assumes "nonneg_powers s"
    and "VerifyCommit E s ch h (Some c) = Some (Inr ())" and "com_Round c = 0"
    and "VerifyCommit E s ch' h' (Some c') = Some (Inr ())" and "com_Round c' = 0"
  shows "total_power s < 3 * sum (power_of s) (bits E (com_BitArray c) \<inter> bits E (com_BitArray c'))"
proof -
  have "2 * (2 * total_power s div 3 + 1) - total_power s
      \<le> sum (power_of s) (bits E (com_BitArray c) \<inter> bits E (com_BitArray c'))"
    using assms val_quorum.overlap_weight [of s "bits E (com_BitArray c)" "bits E (com_BitArray c')" 0 0]
    by (simp add: VerifyCommit_accepts_iff bits_bounded Loose23_round0 flip: total_power_def)
  then show ?thesis by (rule twice_two_thirds)
qed

theorem round0_commits_share_third_witness:
  "total_power sample_valset < 3 * sum (power_of sample_valset)
     (bits sample_ext (Some [True, True, False, False]) \<inter>
      bits sample_ext (Some [True, True, False, False]))"
  using round0_commits_share_third
    [OF _ sample_commit_accepted(1) _ sample_commit_accepted(1)]
  by (simp add: sample_commit_def)

text \<open>
  C18: On a set without duplicate addresses, updating a validator, or adding it when the update finds
  none, makes a lookup of its address return exactly that validator, leaves every other lookup
  unchanged and keeps the addresses distinct; removing it afterwards makes the lookup return none.
\<close>

theorem upsert_lookup:
  assumes "distinct_addresses s"
  shows "lookup (fst (if snd (Update s v) then Update s v else Add s v)) a =
      (if a = Address v then Some v else lookup s a) \<and>
    distinct_addresses (fst (if snd (Update s v) then Update s v else Add s v)) \<and>
    lookup (fst (Remove (fst (if snd (Update s v) then Update s v else Add s v)) (Address v))) a =
      (if a = Address v then None else lookup s a)"
  using assms valset.get_update_or_add [OF assms, of v a] valset.invar_add valset.invar_upd
  by (simp add: valset.get_rem)

theorem upsert_lookup_witness:
  "lookup (fst (if snd (Update sample_valset (sample_validator 9 3))
      then Update sample_valset (sample_validator 9 3)
      else Add sample_valset (sample_validator 9 3))) [9] = Some (sample_validator 9 3)"
  using upsert_lookup [of sample_valset "sample_validator 9 3" "[9]"]
  by (simp add: sample_validator_def NewValidator_def)

text \<open>
  C19: A validator set built from validators with distinct addresses does not depend on the order in
  which they are given, and its slice is sorted by address.
\<close>

theorem NewValidatorSet_order_independent:
  assumes "mset xs = mset ys" and "distinct (map Address xs)"
  shows "NewValidatorSet xs = NewValidatorSet ys \<and> distinct_addresses (NewValidatorSet xs) \<and>
    sorted (map Address (Validators (NewValidatorSet xs)))"
proof (intro conjI)
  show "NewValidatorSet xs = NewValidatorSet ys"
    by (rule NewValidatorSet_canonical [OF assms])
  show "distinct_addresses (NewValidatorSet xs)"
    using assms(2) by (simp add: NewValidatorSet_def distinct_addresses_def distinct_map)
qed (simp add: NewValidatorSet_def)

theorem NewValidatorSet_order_independent_witness:
  "NewValidatorSet [sample_validator 2 10, sample_validator 1 20] =
   NewValidatorSet [sample_validator 1 20, sample_validator 2 10]"
  using NewValidatorSet_order_independent
    [of "[sample_validator 2 10, sample_validator 1 20]"
        "[sample_validator 1 20, sample_validator 2 10]"]
  by (simp add: sample_validator_def NewValidator_def)

end
