(* ===== verification/VoteSets.thy ===== *)
theory VoteSets
  imports Validators
begin

section \<open>Vote sets\<close>

text \<open>
  The file \<open>vote_set.go\<close>: collecting the votes of one height, round and type.  A vote set keeps
  one canonical vote per validator, a tally per block, the first block that reached the threshold
  and the blocks that peers claim to have a majority.  Each method holds the mutex for its whole
  body, so a method is one step; \<open>reachable\<close> is the set of states that sequences of the two
  mutating methods produce.  The theory shows that tallies are sums of verified votes, that the
  recorded majority is exactly the first block over the threshold and never changes, when adding a
  vote panics, that memory is bounded by validators and peers, and that two honest nodes with
  different majorities expose double signers.
\<close>

subsection \<open>State\<close>

record 'b block_votes =
  peerMaj23 :: bool
  bv_bitArray :: "'b option"
  bv_votes :: "vote option list"
  bv_sum :: int

record 'b vote_set =
  vs_chainID :: chain_id
  vs_height :: uint64
  vs_round :: int
  vs_type :: byte
  valSet :: validator_set
  votesBitArray :: "'b option"
  votes :: "vote option list"
  vs_sum :: int
  maj23 :: "block_id option"
  votesByBlock :: "bytes \<rightharpoonup> 'b block_votes"
  peerMaj23s :: "string \<rightharpoonup> block_id"

text \<open>\<^term>\<open>None\<close> is the panic for height 0.\<close>

definition NewVoteSet ::
  "'b ext \<Rightarrow> chain_id \<Rightarrow> uint64 \<Rightarrow> int \<Rightarrow> byte \<Rightarrow> validator_set \<Rightarrow> 'b vote_set option" where
  "NewVoteSet E chainID height rnd mtype vals =
     (if height = 0 then None
      else Some \<lparr>vs_chainID = chainID, vs_height = height, vs_round = rnd, vs_type = mtype,
        valSet = vals, votesBitArray = NewBitArray E (Size vals),
        votes = replicate (Size vals) None, vs_sum = 0, maj23 = None,
        votesByBlock = Map.empty, peerMaj23s = Map.empty\<rparr>)"

definition newBlockVotes :: "'b ext \<Rightarrow> bool \<Rightarrow> nat \<Rightarrow> 'b block_votes" where
  "newBlockVotes E peer numValidators =
     \<lparr>peerMaj23 = peer, bv_bitArray = NewBitArray E numValidators,
      bv_votes = replicate numValidators None, bv_sum = 0\<rparr>"

subsection \<open>The tally of one block\<close>

definition blockVotes_addVerifiedVote ::
  "'b ext \<Rightarrow> 'b block_votes \<Rightarrow> vote \<Rightarrow> int \<Rightarrow> 'b block_votes option" where
  "blockVotes_addVerifiedVote E bv v votingPower =
     (let valIndex = unat (ValidatorIndex v) in
      if \<not> valIndex < length (bv_votes bv) then None
      else case bv_votes bv ! valIndex of
          None \<Rightarrow> Some (bv\<lparr>bv_bitArray := BA_SetIndex E (bv_bitArray bv) valIndex True,
                            bv_votes := (bv_votes bv)[valIndex := Some v],
                            bv_sum := bv_sum bv + votingPower\<rparr>)
        | Some _ \<Rightarrow> Some bv)"

text \<open>A nil receiver, the result of a failed map lookup, has no votes; otherwise index and panic.\<close>

definition blockVotes_getByIndex :: "'b block_votes option \<Rightarrow> int \<Rightarrow> vote option option" where
  "blockVotes_getByIndex bv index =
     (case bv of None \<Rightarrow> Some None | Some b \<Rightarrow> go_index (bv_votes b) index)"

subsection \<open>Adding a vote\<close>

text \<open>The vote stored for a validator and a block key, if any; \<^term>\<open>None\<close> is an index panic.\<close>

definition getVote :: "'b ext \<Rightarrow> 'b vote_set \<Rightarrow> int \<Rightarrow> bytes \<Rightarrow> vote option option" where
  "getVote E vs valIndex blockKey =
     (case go_index (votes vs) valIndex of
        None \<Rightarrow> None
      | Some existing \<Rightarrow>
          if existing \<noteq> None \<and> BlockID_Key E (vote_BlockID (the existing)) = blockKey
          then Some existing
          else blockVotes_getByIndex (votesByBlock vs blockKey) valIndex)"

text \<open>
  The second half of \<open>addVerifiedVote\<close>, from the computation of the quorum on: add the vote to the
  tally of its block and record the majority when the tally crosses the threshold.
\<close>

definition tallyVote ::
  "'b ext \<Rightarrow> 'b vote_set \<Rightarrow> vote \<Rightarrow> bytes \<Rightarrow> int \<Rightarrow> 'b block_votes \<Rightarrow> vote option
    \<Rightarrow> ('b vote_set \<times> bool \<times> vote option) option" where
  "tallyVote E vs v blockKey votingPower bv conflicting =
     (case TalliedVotingPower E (valSet vs) (bv_bitArray bv) of
        Inl _ \<Rightarrow> Some (vs, False, conflicting)
      | Inr (_, _, totalVotes) \<Rightarrow>
          let origSum = bv_sum bv;
              quorum = Loose23MajorThreshold totalVotes (int_of_u64 (vote_Round v))
          in case blockVotes_addVerifiedVote E bv v votingPower of
               None \<Rightarrow> None
             | Some bv' \<Rightarrow>
                 let vs = vs\<lparr>votesByBlock := (votesByBlock vs)(blockKey \<mapsto> bv')\<rparr> in
                 if origSum < quorum \<and> quorum \<le> bv_sum bv' \<and> maj23 vs = None
                 then Some (vs\<lparr>maj23 := Some (vote_BlockID v),
                               votes := overwrite (votes vs) (bv_votes bv')\<rparr>, True, conflicting)
                 else Some (vs, True, conflicting))"

text \<open>The middle part: find or create the tally of the block, or drop a conflicting vote.\<close>

definition trackVote ::
  "'b ext \<Rightarrow> 'b vote_set \<Rightarrow> vote \<Rightarrow> bytes \<Rightarrow> int \<Rightarrow> vote option
    \<Rightarrow> ('b vote_set \<times> bool \<times> vote option) option" where
  "trackVote E vs v blockKey votingPower conflicting =
     (case votesByBlock vs blockKey of
        Some bv \<Rightarrow>
          if conflicting \<noteq> None \<and> \<not> peerMaj23 bv then Some (vs, False, conflicting)
          else tallyVote E vs v blockKey votingPower bv conflicting
      | None \<Rightarrow>
          if conflicting \<noteq> None then Some (vs, False, conflicting)
          else let bv = newBlockVotes E False (Size (valSet vs)) in
               tallyVote E (vs\<lparr>votesByBlock := (votesByBlock vs)(blockKey \<mapsto> bv)\<rparr>)
                 v blockKey votingPower bv conflicting)"

definition addVerifiedVote ::
  "'b ext \<Rightarrow> 'b vote_set \<Rightarrow> vote \<Rightarrow> bytes \<Rightarrow> int \<Rightarrow> ('b vote_set \<times> bool \<times> vote option) option"
where
  "addVerifiedVote E vs v blockKey votingPower =
     (let valIndex = unat (ValidatorIndex v) in
      if \<not> valIndex < length (votes vs) then None
      else case votes vs ! valIndex of
          Some existing \<Rightarrow>
            if BlockID_Equals (vote_BlockID existing) (vote_BlockID v) then None
            else
              let vs = (if maj23 vs \<noteq> None \<and> BlockID_Key E (the (maj23 vs)) = blockKey
                        then vs\<lparr>votes := (votes vs)[valIndex := Some v],
                                votesBitArray := BA_SetIndex E (votesBitArray vs) valIndex True\<rparr>
                        else vs)
              in trackVote E vs v blockKey votingPower (Some existing)
        | None \<Rightarrow>
            trackVote E
              (vs\<lparr>votes := (votes vs)[valIndex := Some v],
                  votesBitArray := BA_SetIndex E (votesBitArray vs) valIndex True,
                  vs_sum := vs_sum vs + votingPower\<rparr>)
              v blockKey votingPower None)"

definition addVote ::
  "'b ext \<Rightarrow> 'b vote_set \<Rightarrow> vote \<Rightarrow> ('b vote_set \<times> bool \<times> vote_error option) option" where
  "addVote E vs v =
     (let valIndex = ValidatorIndex v;
          valAddr = ValidatorAddress v;
          blockKey = BlockID_Key E (vote_BlockID v)
      in
      if length valAddr = 0 then None
      else if vote_Height v \<noteq> vs_height vs \<or> int_of_u64 (vote_Round v) \<noteq> vs_round vs \<or>
              vote_Type v \<noteq> vs_type vs
      then Some (vs, False, Some ErrVoteUnexpectedStep)
      else case GetByIndex (valSet vs) (int_of_u64 valIndex) of
          None \<Rightarrow> None
        | Some (lookupAddr, val) \<Rightarrow>
            if valAddr \<noteq> lookupAddr then Some (vs, False, Some ErrVoteInvalidValidatorAddress)
            else case getVote E vs (int_of_u64 valIndex) blockKey of
                None \<Rightarrow> None
              | Some (Some existing) \<Rightarrow>
                  if Signature_Equals E (vote_Signature existing) (vote_Signature v)
                  then Some (vs, False, None)
                  else Some (vs, False, Some ErrVoteInvalidSignature)
              | Some None \<Rightarrow>
                  if \<not> PubKey_VerifyBytes E (PubKey val) (Vote_SignBytes E (vs_chainID vs) v)
                         (vote_Signature v)
                  then Some (vs, False, Some ErrVoteInvalidSignature)
                  else case addVerifiedVote E vs v blockKey (VotingPower val) of
                      None \<Rightarrow> None
                    | Some (vs', added, Some conflicting) \<Rightarrow>
                        Some (vs', added, Some (ErrVoteConflictingVotes conflicting v))
                    | Some (vs', added, None) \<Rightarrow>
                        if \<not> added then None else Some (vs', added, None))"

definition AddVote ::
  "'b ext \<Rightarrow> 'b vote_set option \<Rightarrow> vote \<Rightarrow> ('b vote_set \<times> bool \<times> vote_error option) option" where
  "AddVote E voteSet v = (case voteSet of None \<Rightarrow> None | Some vs \<Rightarrow> addVote E vs v)"

subsection \<open>Peer claims\<close>

definition SetPeerMaj23 ::
  "'b ext \<Rightarrow> 'b vote_set option \<Rightarrow> string \<Rightarrow> block_id \<Rightarrow> 'b vote_set option" where
  "SetPeerMaj23 E voteSet peerID blockID =
     (case voteSet of
        None \<Rightarrow> None
      | Some vs \<Rightarrow>
          let blockKey = BlockID_Key E blockID in
          case peerMaj23s vs peerID of
            Some existing \<Rightarrow> if BlockID_Equals existing blockID then Some vs else Some vs
          | None \<Rightarrow>
              let vs = vs\<lparr>peerMaj23s := (peerMaj23s vs)(peerID \<mapsto> blockID)\<rparr> in
              case votesByBlock vs blockKey of
                Some bv \<Rightarrow>
                  if peerMaj23 bv then Some vs
                  else Some (vs\<lparr>votesByBlock :=
                               (votesByBlock vs)(blockKey \<mapsto> bv\<lparr>peerMaj23 := True\<rparr>)\<rparr>)
              | None \<Rightarrow>
                  Some (vs\<lparr>votesByBlock :=
                    (votesByBlock vs)(blockKey \<mapsto> newBlockVotes E True (Size (valSet vs)))\<rparr>))"

subsection \<open>Accessors\<close>

definition VoteSet_Height :: "'b vote_set option \<Rightarrow> uint64" where
  "VoteSet_Height voteSet = (case voteSet of None \<Rightarrow> 0 | Some vs \<Rightarrow> vs_height vs)"

definition VoteSet_Round :: "'b vote_set option \<Rightarrow> int" where
  "VoteSet_Round voteSet = (case voteSet of None \<Rightarrow> -1 | Some vs \<Rightarrow> vs_round vs)"

definition VoteSet_Type :: "'b vote_set option \<Rightarrow> byte" where
  "VoteSet_Type voteSet = (case voteSet of None \<Rightarrow> 0 | Some vs \<Rightarrow> vs_type vs)"

definition VoteSet_Size :: "'b vote_set option \<Rightarrow> nat" where
  "VoteSet_Size voteSet = (case voteSet of None \<Rightarrow> 0 | Some vs \<Rightarrow> Size (valSet vs))"

definition VoteSet_BitArray :: "'b ext \<Rightarrow> 'b vote_set option \<Rightarrow> 'b option" where
  "VoteSet_BitArray E voteSet =
     (case voteSet of None \<Rightarrow> None | Some vs \<Rightarrow> BA_Copy E (votesBitArray vs))"

definition BitArrayByBlockID :: "'b ext \<Rightarrow> 'b vote_set option \<Rightarrow> block_id \<Rightarrow> 'b option" where
  "BitArrayByBlockID E voteSet blockID =
     (case voteSet of
        None \<Rightarrow> None
      | Some vs \<Rightarrow>
          (case votesByBlock vs (BlockID_Key E blockID) of
             Some bv \<Rightarrow> BA_Copy E (bv_bitArray bv)
           | None \<Rightarrow> None))"

definition VoteSet_GetByIndex :: "'b vote_set option \<Rightarrow> int \<Rightarrow> vote option option" where
  "VoteSet_GetByIndex voteSet valIndex =
     (case voteSet of None \<Rightarrow> Some None | Some vs \<Rightarrow> go_index (votes vs) valIndex)"

definition VoteSet_GetByAddress :: "'b vote_set option \<Rightarrow> bytes \<Rightarrow> vote option option" where
  "VoteSet_GetByAddress voteSet address =
     (case voteSet of
        None \<Rightarrow> Some None
      | Some vs \<Rightarrow>
          (case GetByAddress (valSet vs) address of
             (_, None) \<Rightarrow> None
           | (valIndex, Some _) \<Rightarrow> go_index (votes vs) valIndex))"

definition VoteSet_HasTwoThirdsMajority :: "'b vote_set option \<Rightarrow> bool" where
  "VoteSet_HasTwoThirdsMajority voteSet =
     (case voteSet of None \<Rightarrow> False | Some vs \<Rightarrow> maj23 vs \<noteq> None)"

definition VoteSet_IsCommit :: "'b vote_set option \<Rightarrow> bool" where
  "VoteSet_IsCommit voteSet =
     (case voteSet of
        None \<Rightarrow> False
      | Some vs \<Rightarrow> if vs_type vs \<noteq> VoteTypePrecommit then False else maj23 vs \<noteq> None)"

definition VoteSet_TwoThirdsMajority :: "'b vote_set option \<Rightarrow> block_id \<times> bool" where
  "VoteSet_TwoThirdsMajority voteSet =
     (case voteSet of
        None \<Rightarrow> (zero_block_id, False)
      | Some vs \<Rightarrow> (case maj23 vs of Some b \<Rightarrow> (b, True) | None \<Rightarrow> (zero_block_id, False)))"

subsection \<open>Arrays of votes with their bit array and sum\<close>

definition array_ok ::
  "'b ext \<Rightarrow> nat \<Rightarrow> (nat \<Rightarrow> int) \<Rightarrow> 'b option \<Rightarrow> 'v option list \<Rightarrow> int \<Rightarrow> bool" where
  "array_ok E n w ba xs tot \<longleftrightarrow>
     length xs = n \<and> (n = 0 \<or> ba \<noteq> None \<and> BA_Size E ba = n \<and> bits E ba = slots xs) \<and>
     tot = sum w (slots xs)"

lemma array_ok_fresh:
  "bit_array_laws E \<Longrightarrow> array_ok E n w (NewBitArray E n) (replicate n None) 0"
  using bit_array_lawsD(1) [of E n] by (auto simp: array_ok_def bits_fresh bit_array_lawsD(2))

lemma array_ok_insert:
  assumes "bit_array_laws E" and "array_ok E n w ba xs tot" and "i < n" and "xs ! i = None"
  shows "array_ok E n w (BA_SetIndex E ba i True) (xs[i := Some v]) (tot + w i)"
proof -
  have "i \<notin> slots xs" using assms(4) by (simp add: slots_def)
  then show ?thesis
    using assms bit_array_lawsD(4,5) [OF assms(1)] by (simp add: array_ok_def bits_SetIndex)
qed

lemma array_ok_replace:
  assumes "bit_array_laws E" and "array_ok E n w ba xs tot" and "i \<in> slots xs"
  shows "array_ok E n w (BA_SetIndex E ba i True) (xs[i := Some v]) tot"
  using assms slots_bounded [of xs] bit_array_lawsD(4,5) [OF assms(1)]
  by (auto simp: array_ok_def bits_SetIndex insert_absorb)

lemma array_ok_overwrite:
  assumes "array_ok E n w ba xs tot" and "length ys = n" and "slots ys \<subseteq> slots xs"
  shows "array_ok E n w ba (overwrite xs ys) tot"
  using assms by (simp add: array_ok_def Un_absorb2)

subsection \<open>The invariant\<close>

definition quorum_of :: "'b vote_set \<Rightarrow> int" where
  "quorum_of vs = Loose23MajorThreshold (total_power (valSet vs)) (vs_round vs)"

text \<open>A stored vote carries its slot's index and address and a valid signature for this step.\<close>

definition vote_ok :: "'b ext \<Rightarrow> 'b vote_set \<Rightarrow> nat \<Rightarrow> vote \<Rightarrow> bool" where
  "vote_ok E vs i v \<longleftrightarrow>
     i < Size (valSet vs) \<and> unat (ValidatorIndex v) = i \<and> vote_Height v = vs_height vs \<and>
     int_of_u64 (vote_Round v) = vs_round vs \<and> vote_Type v = vs_type vs \<and>
     ValidatorAddress v = Address (Validators (valSet vs) ! i) \<and>
     PubKey_VerifyBytes E (PubKey (Validators (valSet vs) ! i)) (Vote_SignBytes E (vs_chainID vs) v)
       (vote_Signature v)"

abbreviation vote_key :: "'b ext \<Rightarrow> vote \<Rightarrow> bytes" where
  "vote_key E v \<equiv> BlockID_Key E (vote_BlockID v)"

definition votes_wf :: "'b ext \<Rightarrow> 'b vote_set \<Rightarrow> bool" where
  "votes_wf E vs \<longleftrightarrow>
     nonneg_powers (valSet vs) \<and>
     array_ok E (Size (valSet vs)) (power_of (valSet vs)) (votesBitArray vs) (votes vs) (vs_sum vs) \<and>
     (\<forall>i v. i < length (votes vs) \<longrightarrow> votes vs ! i = Some v \<longrightarrow> vote_ok E vs i v)"

definition block_wf :: "'b ext \<Rightarrow> 'b vote_set \<Rightarrow> bytes \<Rightarrow> 'b block_votes \<Rightarrow> bool" where
  "block_wf E vs k bv \<longleftrightarrow>
     array_ok E (Size (valSet vs)) (power_of (valSet vs)) (bv_bitArray bv) (bv_votes bv) (bv_sum bv) \<and>
     slots (bv_votes bv) \<subseteq> slots (votes vs) \<and>
     (\<forall>i v. i < length (bv_votes bv) \<longrightarrow> bv_votes bv ! i = Some v \<longrightarrow> vote_ok E vs i v \<and> vote_key E v = k)"

definition blocks_wf :: "'b ext \<Rightarrow> 'b vote_set \<Rightarrow> bool" where
  "blocks_wf E vs \<longleftrightarrow> (\<forall>k bv. votesByBlock vs k = Some bv \<longrightarrow> block_wf E vs k bv)"

text \<open>
  A majority is recorded exactly when a tally reaches a positive threshold.  The threshold is not
  positive only for rounds at which its factor wraps around, and then none is ever recorded.
\<close>

definition maj_wf :: "'b ext \<Rightarrow> 'b vote_set \<Rightarrow> bool" where
  "maj_wf E vs \<longleftrightarrow>
     (case maj23 vs of
        None \<Rightarrow> 0 < quorum_of vs \<longrightarrow>
          (\<forall>k bv. votesByBlock vs k = Some bv \<longrightarrow> bv_sum bv < quorum_of vs)
      | Some b \<Rightarrow> 0 < quorum_of vs \<and>
          (\<exists>bv. votesByBlock vs (BlockID_Key E b) = Some bv \<and> quorum_of vs \<le> bv_sum bv \<and>
             (\<forall>i \<in> slots (bv_votes bv).
                \<exists>v. votes vs ! i = Some v \<and> vote_key E v = BlockID_Key E b)))"

definition wf_vote_set :: "'b ext \<Rightarrow> 'b vote_set \<Rightarrow> bool" where
  "wf_vote_set E vs \<longleftrightarrow> votes_wf E vs \<and> blocks_wf E vs \<and> maj_wf E vs"

text \<open>What every step keeps: the configuration, and a majority once it is recorded.\<close>

definition extends :: "'b vote_set \<Rightarrow> 'b vote_set \<Rightarrow> bool" where
  "extends vs vs' \<longleftrightarrow>
     vs_chainID vs' = vs_chainID vs \<and> vs_height vs' = vs_height vs \<and> vs_round vs' = vs_round vs \<and>
     vs_type vs' = vs_type vs \<and> valSet vs' = valSet vs \<and>
     (maj23 vs \<noteq> None \<longrightarrow> maj23 vs' = maj23 vs) \<and> slots (votes vs) \<subseteq> slots (votes vs') \<and>
     (\<forall>k bv. votesByBlock vs k = Some bv \<longrightarrow>
        (\<exists>bv'. votesByBlock vs' k = Some bv' \<and>
           (\<forall>i \<in> slots (bv_votes bv). bv_votes bv' ! i = bv_votes bv ! i)))"

lemma extends_refl [simp]: "extends vs vs"
  by (simp add: extends_def)

lemma extends_new_block:
  assumes "votesByBlock vs k = None"
    and "extends (vs\<lparr>votesByBlock := (votesByBlock vs)(k \<mapsto> b)\<rparr>) vs'" (is "extends ?vs vs'")
  shows "extends vs vs'"
proof -
  have "\<exists>bv'. votesByBlock vs' j = Some bv' \<and> (\<forall>i \<in> slots (bv_votes bv). bv_votes bv' ! i = bv_votes bv ! i)"
    if "votesByBlock vs j = Some bv" for j bv
  proof -
    have "votesByBlock ?vs j = Some bv" using that assms(1) by auto
    then show ?thesis using assms(2) unfolding extends_def by blast
  qed
  then show ?thesis using assms(2) by (simp add: extends_def)
qed

lemma block_sum_nonneg: "block_wf E vs k bv \<Longrightarrow> nonneg_powers (valSet vs) \<Longrightarrow> 0 \<le> bv_sum bv"
  using slots_bounded [of "bv_votes bv"] power_of_nonneg [of "valSet vs"]
  by (auto simp: block_wf_def array_ok_def intro!: sum_nonneg)

lemma NewVoteSet_wf:
  assumes "bit_array_laws E" and "nonneg_powers vals" and "NewVoteSet E c h r t vals = Some vs"
  shows "wf_vote_set E vs"
proof -
  have vs: "vs = \<lparr>vs_chainID = c, vs_height = h, vs_round = r, vs_type = t,
        valSet = vals, votesBitArray = NewBitArray E (Size vals),
        votes = replicate (Size vals) None, vs_sum = 0, maj23 = None,
        votesByBlock = Map.empty, peerMaj23s = Map.empty\<rparr>"
    using assms(3) by (simp add: NewVoteSet_def split: if_splits)
  show ?thesis
    by (simp add: vs wf_vote_set_def votes_wf_def blocks_wf_def maj_wf_def assms array_ok_fresh)
qed

lemma newBlockVotes_block_wf:
  "bit_array_laws E \<Longrightarrow> block_wf E vs k (newBlockVotes E p (Size (valSet vs)))"
  by (simp add: block_wf_def newBlockVotes_def array_ok_fresh)

lemma vote_ok_cong:
  "vs_chainID vs' = vs_chainID vs \<Longrightarrow> vs_height vs' = vs_height vs \<Longrightarrow> vs_round vs' = vs_round vs \<Longrightarrow>
   vs_type vs' = vs_type vs \<Longrightarrow> valSet vs' = valSet vs \<Longrightarrow> vote_ok E vs' i v = vote_ok E vs i v"
  by (simp add: vote_ok_def)

lemma block_wf_mono:
  assumes "block_wf E vs k bv" and "slots (votes vs) \<subseteq> slots (votes vs')"
    and "vs_chainID vs' = vs_chainID vs" and "vs_height vs' = vs_height vs"
    and "vs_round vs' = vs_round vs" and "vs_type vs' = vs_type vs" and "valSet vs' = valSet vs"
  shows "block_wf E vs' k bv"
  using assms vote_ok_cong [OF assms(3-7), of E] by (auto simp: block_wf_def)

subsection \<open>Adding a verified vote keeps the invariant\<close>

lemma blockVotes_addVerifiedVote_ok:
  assumes "bit_array_laws E" and "block_wf E vs k bv" and "vote_ok E vs i v" and "vote_key E v = k"
    and "i \<in> slots (votes vs)" and "nonneg_powers (valSet vs)"
  obtains bv' where "blockVotes_addVerifiedVote E bv v (power_of (valSet vs) i) = Some bv'"
    and "block_wf E vs k bv'" and "slots (bv_votes bv') = insert i (slots (bv_votes bv))"
    and "\<forall>j \<in> slots (bv_votes bv). bv_votes bv' ! j = bv_votes bv ! j"
    and "bv_sum bv \<le> bv_sum bv'" and "peerMaj23 bv' = peerMaj23 bv"
proof -
  have i: "i < Size (valSet vs)" "unat (ValidatorIndex v) = i"
    using assms(3) by (simp_all add: vote_ok_def)
  have len: "length (bv_votes bv) = Size (valSet vs)"
    using assms(2) by (simp add: block_wf_def array_ok_def)
  show thesis
  proof (cases "bv_votes bv ! i")
    case None
    let ?bv = "bv\<lparr>bv_bitArray := BA_SetIndex E (bv_bitArray bv) i True,
        bv_votes := (bv_votes bv)[i := Some v], bv_sum := bv_sum bv + power_of (valSet vs) i\<rparr>"
    have "array_ok E (Size (valSet vs)) (power_of (valSet vs)) (bv_bitArray bv) (bv_votes bv) (bv_sum bv)"
      using assms(2) by (simp add: block_wf_def)
    then have "array_ok E (Size (valSet vs)) (power_of (valSet vs)) (bv_bitArray ?bv) (bv_votes ?bv)
        (bv_sum ?bv)"
      using array_ok_insert [OF assms(1) _ i(1) None, where v = v] by simp
    then have "block_wf E vs k ?bv"
      using assms(2-5) i len by (auto simp: block_wf_def nth_list_update)
    moreover have "\<forall>j \<in> slots (bv_votes bv). bv_votes ?bv ! j = bv_votes bv ! j"
      using None by (auto simp: slots_def) (metis nth_list_update_neq option.distinct(1))
    ultimately show thesis
      using that [of ?bv] None i len power_of_nonneg [OF assms(6) i(1)]
      by (simp add: blockVotes_addVerifiedVote_def)
  next
    case (Some u)
    then have "i \<in> slots (bv_votes bv)"
      using i len by (simp add: slots_def)
    then show thesis
      using that [of bv] Some i len assms(2) by (simp add: blockVotes_addVerifiedVote_def insert_absorb)
  qed
qed

lemma votes_wf_overwrite:
  assumes "votes_wf E vs" and "block_wf E vs k bv"
  shows "votes_wf E (vs\<lparr>votesByBlock := m, maj23 := b, votes := overwrite (votes vs) (bv_votes bv)\<rparr>)"
proof -
  have len: "length (votes vs) = Size (valSet vs)" "length (bv_votes bv) = Size (valSet vs)"
    using assms by (simp_all add: votes_wf_def block_wf_def array_ok_def)
  have "vote_ok E vs i v"
    if "i < length (votes vs)" and "overwrite (votes vs) (bv_votes bv) ! i = Some v" for i v
    using that assms len by (auto simp: nth_overwrite votes_wf_def block_wf_def split: option.splits)
  then show ?thesis
    using assms len array_ok_overwrite [of E _ "power_of (valSet vs)" _ "votes vs" _ "bv_votes bv"]
    by (auto simp: votes_wf_def block_wf_def vote_ok_def)
qed

text \<open>What one accepted vote changes.\<close>

definition tallied :: "'b vote_set \<Rightarrow> 'b vote_set \<Rightarrow> bytes \<Rightarrow> nat \<Rightarrow> 'b block_votes \<Rightarrow> bool" where
  "tallied vs vs' k i bv \<longleftrightarrow>
     (\<exists>bv'. votesByBlock vs' = (votesByBlock vs)(k \<mapsto> bv') \<and>
        slots (bv_votes bv') = insert i (slots (bv_votes bv)) \<and> peerMaj23 bv' = peerMaj23 bv) \<and>
     peerMaj23s vs' = peerMaj23s vs \<and> slots (votes vs') = insert i (slots (votes vs))"

lemma tallyVote_ok:
  assumes laws: "bit_array_laws E" and wf: "wf_vote_set E vs"
    and bv: "votesByBlock vs k = Some bv" and v: "vote_ok E vs i v" "vote_key E v = k"
    and i: "i \<in> slots (votes vs)"
    and canon: "\<And>b. maj23 vs = Some b \<Longrightarrow> BlockID_Key E b = k \<Longrightarrow>
                  \<exists>u. votes vs ! i = Some u \<and> vote_key E u = k"
  obtains vs' where "tallyVote E vs v k (power_of (valSet vs) i) bv c = Some (vs', True, c)"
    and "wf_vote_set E vs'" and "extends vs vs'" and "tallied vs vs' k i bv"
proof -
  have bvwf: "block_wf E vs k bv" and vwf: "votes_wf E vs" and nn: "nonneg_powers (valSet vs)"
    using wf bv by (auto simp: wf_vote_set_def blocks_wf_def votes_wf_def)
  obtain bv' where bv': "blockVotes_addVerifiedVote E bv v (power_of (valSet vs) i) = Some bv'"
    and wf': "block_wf E vs k bv'" and sl: "slots (bv_votes bv') = insert i (slots (bv_votes bv))"
    and old: "\<forall>j \<in> slots (bv_votes bv). bv_votes bv' ! j = bv_votes bv ! j"
    and le: "bv_sum bv \<le> bv_sum bv'" and peer: "peerMaj23 bv' = peerMaj23 bv"
    using blockVotes_addVerifiedVote_ok [OF laws bvwf v i nn] by blast
  have tally: "TalliedVotingPower E (valSet vs) (bv_bitArray bv) =
      Inr (int (card (bits E (bv_bitArray bv))), sum (power_of (valSet vs)) (bits E (bv_bitArray bv)),
           total_power (valSet vs))"
    using bvwf v(1) by (auto simp: TalliedVotingPower_eq block_wf_def array_ok_def vote_ok_def)
  have rnd: "int_of_u64 (vote_Round v) = vs_round vs"
    using v(1) by (simp add: vote_ok_def)
  let ?m = "(votesByBlock vs)(k \<mapsto> bv')"
  let ?maj = "maj23 vs = None \<and> 0 < quorum_of vs \<and> quorum_of vs \<le> bv_sum bv'"
  define vs' where "vs' = (if ?maj
      then vs\<lparr>votesByBlock := ?m, maj23 := Some (vote_BlockID v), votes := overwrite (votes vs) (bv_votes bv')\<rparr>
      else vs\<lparr>votesByBlock := ?m\<rparr>)"
  have small: "maj23 vs = None \<Longrightarrow> 0 < quorum_of vs \<longleftrightarrow> bv_sum bv < quorum_of vs"
    using wf bv block_sum_nonneg [OF bvwf nn] by (auto simp: wf_vote_set_def maj_wf_def)
  have len: "length (bv_votes bv') = length (votes vs)"
    using wf' vwf by (simp add: block_wf_def votes_wf_def array_ok_def)
  have sub: "slots (bv_votes bv') \<subseteq> slots (votes vs)"
    using wf' by (simp add: block_wf_def)
  have res: "tallyVote E vs v k (power_of (valSet vs) i) bv c = Some (vs', True, c)"
    using small by (auto simp: tallyVote_def tally bv' rnd vs'_def Let_def quorum_of_def)
  have slv: "slots (votes vs') = slots (votes vs)"
    using len sub by (simp add: vs'_def Un_absorb2)
  have cfg: "vs_chainID vs' = vs_chainID vs" "vs_height vs' = vs_height vs" "vs_round vs' = vs_round vs"
      "vs_type vs' = vs_type vs" "valSet vs' = valSet vs" "votesByBlock vs' = ?m"
      "peerMaj23s vs' = peerMaj23s vs"
    by (simp_all add: vs'_def)
  have "votes_wf E vs'"
    using votes_wf_overwrite [OF vwf wf'] vwf by (simp add: vs'_def votes_wf_def vote_ok_def)
  moreover have "blocks_wf E vs'"
    using wf wf' block_wf_mono [OF _ _ cfg(1-5)] slv
    by (auto simp: blocks_wf_def wf_vote_set_def cfg)
  moreover have "maj_wf E vs'"
  proof (cases "maj23 vs")
    case None
    have maj: "\<exists>u. overwrite (votes vs) (bv_votes bv') ! j = Some u \<and> vote_key E u = k"
      if "j \<in> slots (bv_votes bv')" for j
      using that wf' len by (auto simp: in_slots_iff block_wf_def nth_overwrite)
    show ?thesis
      using None wf maj v(2)
      by (auto simp: vs'_def maj_wf_def wf_vote_set_def quorum_of_def not_le)
  next
    case (Some b)
    then show ?thesis
      using wf bv le sl canon i
      by (auto simp: vs'_def maj_wf_def wf_vote_set_def quorum_of_def intro: order_trans)
  qed
  ultimately have "wf_vote_set E vs'" by (simp add: wf_vote_set_def)
  moreover have "extends vs vs'"
    using bv old slv cfg by (auto simp: extends_def vs'_def)
  moreover have "tallied vs vs' k i bv"
    using cfg slv sl peer i by (auto simp: tallied_def)
  ultimately show thesis using that res by blast
qed

lemma trackVote_ok:
  assumes laws: "bit_array_laws E" and wf: "wf_vote_set E vs"
    and v: "vote_ok E vs i v" "vote_key E v = k" and i: "i \<in> slots (votes vs)"
    and canon: "\<And>b. maj23 vs = Some b \<Longrightarrow> BlockID_Key E b = k \<Longrightarrow>
                  \<exists>u. votes vs ! i = Some u \<and> vote_key E u = k"
  obtains vs' added where "trackVote E vs v k (power_of (valSet vs) i) c = Some (vs', added, c)"
    and "wf_vote_set E vs'" and "extends vs vs'"
    and "added \<longleftrightarrow> c = None \<or> (\<exists>bv. votesByBlock vs k = Some bv \<and> peerMaj23 bv)"
    and "\<not> added \<Longrightarrow> vs' = vs"
    and "added \<Longrightarrow> tallied vs vs' k i
           (case votesByBlock vs k of Some bv \<Rightarrow> bv | None \<Rightarrow> newBlockVotes E False (Size (valSet vs)))"
proof (cases "votesByBlock vs k")
  case (Some bv)
  show thesis
  proof (cases "c \<noteq> None \<and> \<not> peerMaj23 bv")
    case False
    obtain vs' where "tallyVote E vs v k (power_of (valSet vs) i) bv c = Some (vs', True, c)"
      and "wf_vote_set E vs'" and "extends vs vs'" and "tallied vs vs' k i bv"
      by (rule tallyVote_ok [OF laws wf Some v i canon])
    then show thesis
      using that [of vs' True] False Some by (auto simp: trackVote_def)
  qed (use that [of vs False] wf Some in \<open>auto simp: trackVote_def\<close>)
next
  case None
  let ?bv = "newBlockVotes E False (Size (valSet vs))"
  let ?vs = "vs\<lparr>votesByBlock := (votesByBlock vs)(k \<mapsto> ?bv)\<rparr>"
  show thesis
  proof (cases c)
    case c: None
    have "bv_sum ?bv = 0" by (simp add: newBlockVotes_def)
    moreover have "block_wf E ?vs k' b" if "votesByBlock ?vs k' = Some b" for k' b
      using that wf newBlockVotes_block_wf [OF laws, of vs k False]
      by (auto simp: wf_vote_set_def blocks_wf_def block_wf_def vote_ok_def split: if_splits)
    ultimately have wf': "wf_vote_set E ?vs"
      using wf None
      by (auto simp: wf_vote_set_def votes_wf_def blocks_wf_def maj_wf_def vote_ok_def quorum_of_def
          split: option.splits)
    obtain vs' where "tallyVote E ?vs v k (power_of (valSet ?vs) i) ?bv c = Some (vs', True, c)"
      and "wf_vote_set E vs'" and ext: "extends ?vs vs'" and "tallied ?vs vs' k i ?bv"
      by (rule tallyVote_ok [OF laws wf', of k ?bv i v c])
        (use v i canon in \<open>auto simp: vote_ok_def\<close>)
    moreover have "extends vs vs'"
      by (rule extends_new_block [OF None ext])
    ultimately show thesis
      using that [of vs' True] None c by (auto simp: trackVote_def Let_def tallied_def)
  qed (use that [of vs False] wf None in \<open>auto simp: trackVote_def\<close>)
qed

text \<open>The tally that a vote for a key joins: the tracked one, or a new one.\<close>

definition tally_for :: "'b ext \<Rightarrow> 'b vote_set \<Rightarrow> bytes \<Rightarrow> 'b block_votes" where
  "tally_for E vs k =
     (case votesByBlock vs k of Some bv \<Rightarrow> bv | None \<Rightarrow> newBlockVotes E False (Size (valSet vs)))"

text \<open>Storing the vote as the validator's canonical one.\<close>

lemma wf_store_first:
  assumes laws: "bit_array_laws E" and wf: "wf_vote_set E vs" and v: "vote_ok E vs i v"
    and free: "votes vs ! i = None"
  shows "wf_vote_set E (vs\<lparr>votes := (votes vs)[i := Some v],
      votesBitArray := BA_SetIndex E (votesBitArray vs) i True,
      vs_sum := vs_sum vs + power_of (valSet vs) i\<rparr>)" (is "wf_vote_set E ?vs")
proof -
  have i: "i < Size (valSet vs)" and len: "length (votes vs) = Size (valSet vs)"
    using v wf by (simp_all add: vote_ok_def wf_vote_set_def votes_wf_def array_ok_def)
  have "votes_wf E ?vs"
    using wf v i len array_ok_insert [OF laws _ i free, of "power_of (valSet vs)"]
    by (auto simp: wf_vote_set_def votes_wf_def vote_ok_def nth_list_update)
  moreover have "blocks_wf E ?vs"
    using wf block_wf_mono [of E vs _ _ ?vs] i len
    by (auto simp: wf_vote_set_def blocks_wf_def)
  moreover have "maj_wf E ?vs"
  proof (cases "maj23 vs")
    case (Some b)
    then obtain bv where bv: "votesByBlock vs (BlockID_Key E b) = Some bv"
        "0 < quorum_of vs" "quorum_of vs \<le> bv_sum bv"
        "\<forall>j \<in> slots (bv_votes bv). \<exists>u. votes vs ! j = Some u \<and> vote_key E u = BlockID_Key E b"
      using wf by (auto simp: wf_vote_set_def maj_wf_def)
    then have "i \<notin> slots (bv_votes bv)" using free by auto
    then have "\<forall>j \<in> slots (bv_votes bv).
        \<exists>u. (votes vs)[i := Some v] ! j = Some u \<and> vote_key E u = BlockID_Key E b"
      using bv(4) by (metis nth_list_update_neq)
    then show ?thesis using bv Some by (simp add: maj_wf_def quorum_of_def)
  qed (use wf in \<open>simp add: wf_vote_set_def maj_wf_def quorum_of_def\<close>)
  ultimately show ?thesis by (simp add: wf_vote_set_def)
qed

lemma wf_store_again:
  assumes laws: "bit_array_laws E" and wf: "wf_vote_set E vs" and v: "vote_ok E vs i v"
    and old: "votes vs ! i = Some u" and maj: "maj23 vs = Some b" "BlockID_Key E b = vote_key E v"
  shows "wf_vote_set E (vs\<lparr>votes := (votes vs)[i := Some v],
      votesBitArray := BA_SetIndex E (votesBitArray vs) i True\<rparr>)" (is "wf_vote_set E ?vs")
proof -
  have i: "i < Size (valSet vs)" and len: "length (votes vs) = Size (valSet vs)"
    using v wf by (simp_all add: vote_ok_def wf_vote_set_def votes_wf_def array_ok_def)
  then have sl: "i \<in> slots (votes vs)" using old by (simp add: slots_def)
  have "votes_wf E ?vs"
    using wf v i len array_ok_replace [OF laws _ sl, of _ "power_of (valSet vs)"]
    by (auto simp: wf_vote_set_def votes_wf_def vote_ok_def nth_list_update)
  moreover have "blocks_wf E ?vs"
    using wf block_wf_mono [of E vs _ _ ?vs] i len
    by (auto simp: wf_vote_set_def blocks_wf_def)
  moreover have "maj_wf E ?vs"
  proof -
    obtain bv where bv: "votesByBlock vs (BlockID_Key E b) = Some bv" "0 < quorum_of vs"
        "quorum_of vs \<le> bv_sum bv"
        "\<forall>j \<in> slots (bv_votes bv). \<exists>u. votes vs ! j = Some u \<and> vote_key E u = BlockID_Key E b"
      using wf maj by (auto simp: wf_vote_set_def maj_wf_def)
    then have "\<forall>j \<in> slots (bv_votes bv).
        \<exists>u. (votes vs)[i := Some v] ! j = Some u \<and> vote_key E u = BlockID_Key E b"
      using maj(2) i len by (metis nth_list_update_eq nth_list_update_neq)
    then show ?thesis using bv maj(1) by (simp add: maj_wf_def quorum_of_def)
  qed
  ultimately show ?thesis by (simp add: wf_vote_set_def)
qed

lemma addVerifiedVote_ok:
  assumes laws: "bit_array_laws E" and wf: "wf_vote_set E vs"
    and v: "vote_ok E vs i v" "vote_key E v = k"
    and new: "\<And>u. votes vs ! i = Some u \<Longrightarrow> vote_key E u \<noteq> k"
  obtains vs' added where
    "addVerifiedVote E vs v k (power_of (valSet vs) i) = Some (vs', added, votes vs ! i)"
    and "wf_vote_set E vs'" and "extends vs vs'"
    and "added \<longleftrightarrow> votes vs ! i = None \<or> (\<exists>bv. votesByBlock vs k = Some bv \<and> peerMaj23 bv)"
    and "\<not> added \<Longrightarrow> votesByBlock vs' = votesByBlock vs \<and> peerMaj23s vs' = peerMaj23s vs \<and>
           slots (votes vs') = slots (votes vs)"
    and "added \<Longrightarrow> tallied vs vs' k i (tally_for E vs k)"
proof -
  have i: "i < Size (valSet vs)" "unat (ValidatorIndex v) = i"
    and len: "length (votes vs) = Size (valSet vs)"
    using v wf by (simp_all add: vote_ok_def wf_vote_set_def votes_wf_def array_ok_def)
  define vs1 where "vs1 = (case votes vs ! i of
      None \<Rightarrow> vs\<lparr>votes := (votes vs)[i := Some v],
        votesBitArray := BA_SetIndex E (votesBitArray vs) i True,
        vs_sum := vs_sum vs + power_of (valSet vs) i\<rparr>
    | Some _ \<Rightarrow> if maj23 vs \<noteq> None \<and> BlockID_Key E (the (maj23 vs)) = k
        then vs\<lparr>votes := (votes vs)[i := Some v],
               votesBitArray := BA_SetIndex E (votesBitArray vs) i True\<rparr> else vs)"
  have run: "addVerifiedVote E vs v k (power_of (valSet vs) i) =
      trackVote E vs1 v k (power_of (valSet vs) i) (votes vs ! i)"
    using new v i len by (auto simp: addVerifiedVote_def vs1_def Let_def split: option.splits)
  have wf1: "wf_vote_set E vs1"
    using wf_store_first [OF laws wf v(1)] wf_store_again [OF laws wf v(1)] wf v(2)
    by (auto simp: vs1_def split: option.splits)
  have same: "vs_chainID vs1 = vs_chainID vs" "vs_height vs1 = vs_height vs" "vs_round vs1 = vs_round vs"
      "vs_type vs1 = vs_type vs" "valSet vs1 = valSet vs" "votesByBlock vs1 = votesByBlock vs"
      "peerMaj23s vs1 = peerMaj23s vs" "maj23 vs1 = maj23 vs"
    by (simp_all add: vs1_def split: option.splits)
  have sl: "slots (votes vs1) = insert i (slots (votes vs))"
    using i len by (auto simp: vs1_def in_slots_iff split: option.splits)
  have canon: "\<exists>u. votes vs1 ! i = Some u \<and> vote_key E u = k"
    if "maj23 vs1 = Some b" "BlockID_Key E b = k" for b
    using that v i len by (auto simp: vs1_def split: option.splits)
  obtain vs' added where t: "trackVote E vs1 v k (power_of (valSet vs1) i) (votes vs ! i)
        = Some (vs', added, votes vs ! i)"
    and "wf_vote_set E vs'" and ext: "extends vs1 vs'"
    and "added \<longleftrightarrow> votes vs ! i = None \<or> (\<exists>bv. votesByBlock vs1 k = Some bv \<and> peerMaj23 bv)"
    and rej: "\<not> added \<Longrightarrow> vs' = vs1"
    and acc: "added \<Longrightarrow> tallied vs1 vs' k i
           (case votesByBlock vs1 k of Some bv \<Rightarrow> bv | None \<Rightarrow> newBlockVotes E False (Size (valSet vs1)))"
    by (rule trackVote_ok [OF laws wf1, of i v k "votes vs ! i"])
      (use v vote_ok_cong [OF same(1-5)] sl canon in auto)
  moreover have "extends vs vs'"
    using ext sl same by (auto simp: extends_def)
  moreover have "slots (votes vs1) = slots (votes vs)" if "\<not> added"
    using that calculation(4) sl i len by (auto simp: in_slots_iff)
  moreover have "tallied vs vs' k i (tally_for E vs k)" if "added"
    using acc [OF that] by (simp add: tallied_def tally_for_def same sl cong: option.case_cong)
  ultimately show thesis
    using that [of vs' added] run same by (cases added) simp_all
qed

subsection \<open>Adding a vote\<close>

definition step_matches :: "'b vote_set \<Rightarrow> vote \<Rightarrow> bool" where
  "step_matches vs v \<longleftrightarrow> vote_Height v = vs_height vs \<and> int_of_u64 (vote_Round v) = vs_round vs \<and>
     vote_Type v = vs_type vs"

definition index_in_range :: "'b vote_set \<Rightarrow> vote \<Rightarrow> bool" where
  "index_in_range vs v \<longleftrightarrow>
     0 \<le> int_of_u64 (ValidatorIndex v) \<and> int_of_u64 (ValidatorIndex v) < int (Size (valSet vs))"

text \<open>The outcome of \<open>addVote\<close> on a well-formed set, for an index in range and a matching step.\<close>

lemma addVote_in_range:
  assumes laws: "bit_array_laws E" and wf: "wf_vote_set E vs" and addr: "ValidatorAddress v \<noteq> []"
    and st: "step_matches vs v" and rng: "index_in_range vs v"
  defines "i \<equiv> unat (ValidatorIndex v)" and "k \<equiv> vote_key E v"
  obtains
    (address) "ValidatorAddress v \<noteq> Address (Validators (valSet vs) ! i)"
      "addVote E vs v = Some (vs, False, Some ErrVoteInvalidValidatorAddress)"
  | (known) u where "u \<in> {u. votes vs ! i = Some u \<and> vote_key E u = k} \<union>
        {u. \<exists>bv. votesByBlock vs k = Some bv \<and> bv_votes bv ! i = Some u}"
      "addVote E vs v = Some (vs, False,
         if Signature_Equals E (vote_Signature u) (vote_Signature v) then None
         else Some ErrVoteInvalidSignature)"
  | (signature) "addVote E vs v = Some (vs, False, Some ErrVoteInvalidSignature)"
      "\<not> PubKey_VerifyBytes E (PubKey (Validators (valSet vs) ! i))
         (Vote_SignBytes E (vs_chainID vs) v) (vote_Signature v)"
  | (verified) vs' added where "vote_ok E vs i v"
      "addVote E vs v = Some (vs', added,
         map_option (\<lambda>u. ErrVoteConflictingVotes u v) (votes vs ! i))"
      "\<And>u. votes vs ! i = Some u \<Longrightarrow> vote_key E u \<noteq> k"
      "wf_vote_set E vs'" "extends vs vs'"
      "added \<longleftrightarrow> votes vs ! i = None \<or> (\<exists>bv. votesByBlock vs k = Some bv \<and> peerMaj23 bv)"
      "\<not> added \<Longrightarrow> votesByBlock vs' = votesByBlock vs \<and> peerMaj23s vs' = peerMaj23s vs \<and>
         slots (votes vs') = slots (votes vs)"
      "added \<Longrightarrow> tallied vs vs' k i (tally_for E vs k)"
proof -
  have idx: "int_of_u64 (ValidatorIndex v) = int i"
    unfolding i_def using rng int_of_u64_nonneg [of "ValidatorIndex v"]
    by (simp only: index_in_range_def)
  then have "int i < int (Size (valSet vs))"
    using rng by (simp only: index_in_range_def)
  with idx have i: "int_of_u64 (ValidatorIndex v) = int i" "i < Size (valSet vs)"
    by simp_all
  have len: "length (votes vs) = Size (valSet vs)"
    and blen: "\<And>bv. votesByBlock vs k = Some bv \<Longrightarrow> length (bv_votes bv) = Size (valSet vs)"
    using wf by (auto simp: wf_vote_set_def votes_wf_def array_ok_def blocks_wf_def block_wf_def)
  let ?val = "Validators (valSet vs) ! i"
  have get: "GetByIndex (valSet vs) (int_of_u64 (ValidatorIndex v)) = Some (Address ?val, ?val)"
    using i by (simp add: GetByIndex_def Size_def)
  have gv: "getVote E vs (int i) k =
      (if votes vs ! i \<noteq> None \<and> vote_key E (the (votes vs ! i)) = k then Some (votes vs ! i)
       else case votesByBlock vs k of None \<Rightarrow> Some None | Some bv \<Rightarrow> Some (bv_votes bv ! i))"
    using i len blen by (auto simp: getVote_def blockVotes_getByIndex_def split: option.splits)
  have run: "addVote E vs v =
      (if ValidatorAddress v \<noteq> Address ?val then Some (vs, False, Some ErrVoteInvalidValidatorAddress)
       else case getVote E vs (int i) k of
          None \<Rightarrow> None
        | Some (Some u) \<Rightarrow> Some (vs, False,
            if Signature_Equals E (vote_Signature u) (vote_Signature v) then None
            else Some ErrVoteInvalidSignature)
        | Some None \<Rightarrow>
            if \<not> PubKey_VerifyBytes E (PubKey ?val) (Vote_SignBytes E (vs_chainID vs) v) (vote_Signature v)
            then Some (vs, False, Some ErrVoteInvalidSignature)
            else case addVerifiedVote E vs v k (power_of (valSet vs) i) of
                None \<Rightarrow> None
              | Some (vs', added, Some c) \<Rightarrow> Some (vs', added, Some (ErrVoteConflictingVotes c v))
              | Some (vs', added, None) \<Rightarrow> if \<not> added then None else Some (vs', added, None))"
    using addr st i get by (simp add: addVote_def step_matches_def Let_def k_def power_of_def
        split: option.splits)
  consider "ValidatorAddress v \<noteq> Address ?val"
    | u where "ValidatorAddress v = Address ?val" "getVote E vs (int i) k = Some (Some u)"
    | "ValidatorAddress v = Address ?val" "getVote E vs (int i) k = Some None"
    using gv by (auto split: if_splits option.splits)
  then show thesis
  proof cases
    case 1
    then show thesis using address run by simp
  next
    case (2 u)
    then show thesis using known [of u] run gv by (auto split: if_splits option.splits)
  next
    case 3
    show thesis
    proof (cases "PubKey_VerifyBytes E (PubKey ?val) (Vote_SignBytes E (vs_chainID vs) v) (vote_Signature v)")
      case False
      then show thesis using 3 signature run by simp
    next
      case True
      then have ok: "vote_ok E vs i v"
        using i 3 st by (simp add: vote_ok_def i_def step_matches_def)
      have new: "\<And>u. votes vs ! i = Some u \<Longrightarrow> vote_key E u \<noteq> k"
        using 3(2) gv by (auto split: if_splits)
      have "vote_key E v = k" by (simp add: k_def)
      from addVerifiedVote_ok [OF laws wf ok this new] obtain vs' added where
        step: "addVerifiedVote E vs v k (power_of (valSet vs) i) = Some (vs', added, votes vs ! i)"
        and facts: "wf_vote_set E vs'" "extends vs vs'"
          "added \<longleftrightarrow> votes vs ! i = None \<or> (\<exists>bv. votesByBlock vs k = Some bv \<and> peerMaj23 bv)"
          "\<not> added \<Longrightarrow> votesByBlock vs' = votesByBlock vs \<and> peerMaj23s vs' = peerMaj23s vs \<and>
             slots (votes vs') = slots (votes vs)"
          "added \<Longrightarrow> tallied vs vs' k i (tally_for E vs k)"
        by metis
      have "addVote E vs v =
          Some (vs', added, map_option (\<lambda>u. ErrVoteConflictingVotes u v) (votes vs ! i))"
        using 3 True run step facts(3) by (cases "votes vs ! i") simp_all
      then show thesis by (rule verified [OF ok _ new facts])
    qed
  qed
qed

lemma addVote_out_of_range:
  "ValidatorAddress v \<noteq> [] \<Longrightarrow> step_matches vs v \<Longrightarrow> \<not> index_in_range vs v \<Longrightarrow> addVote E vs v = None"
  by (auto simp: addVote_def step_matches_def GetByIndex_def go_index_def index_in_range_def Size_def
      Let_def)

lemma addVote_other_step:
  "ValidatorAddress v \<noteq> [] \<Longrightarrow> \<not> step_matches vs v \<Longrightarrow>
    addVote E vs v = Some (vs, False, Some ErrVoteUnexpectedStep)"
  by (auto simp: addVote_def step_matches_def Let_def)

lemma addVote_no_address: "ValidatorAddress v = [] \<Longrightarrow> addVote E vs v = None"
  by (simp add: addVote_def Let_def)

text \<open>What a step does to the tracked blocks, whatever its outcome.\<close>

definition tracking_step :: "'b ext \<Rightarrow> 'b vote_set \<Rightarrow> 'b vote_set \<Rightarrow> bool" where
  "tracking_step E vs vs' \<longleftrightarrow>
     votesByBlock vs' = votesByBlock vs \<and> peerMaj23s vs' = peerMaj23s vs \<or>
     (\<exists>k i. tallied vs vs' k i (tally_for E vs k) \<and>
        (i \<notin> slots (votes vs) \<or> (\<exists>bv. votesByBlock vs k = Some bv \<and> peerMaj23 bv)))"

lemma AddVote_step:
  assumes "bit_array_laws E" and "wf_vote_set E vs" and "AddVote E (Some vs) v = Some (vs', added, err)"
  shows "wf_vote_set E vs' \<and> extends vs vs' \<and> tracking_step E vs vs'"
proof -
  have run: "addVote E vs v = Some (vs', added, err)"
    using assms(3) by (simp add: AddVote_def)
  have addr: "ValidatorAddress v \<noteq> []"
    using run addVote_no_address [of v E vs] by auto
  show ?thesis
  proof (cases "step_matches vs v")
    case False
    then show ?thesis
      using run addVote_other_step [OF addr False, of E] assms(2) by (simp add: tracking_step_def)
  next
    case True
    then have rng: "index_in_range vs v"
      using run addVote_out_of_range [OF addr True, of E] by auto
    show ?thesis
      by (rule addVote_in_range [OF assms(1,2) addr True rng])
        (use run assms(2) in \<open>auto simp: tracking_step_def slots_def\<close>)
  qed
qed

text \<open>Flagging a tracked block, or tracking an empty one, on the claim of a peer.\<close>

definition claimed :: "'b ext \<Rightarrow> 'b vote_set \<Rightarrow> bytes \<Rightarrow> 'b block_votes" where
  "claimed E vs k =
     (case votesByBlock vs k of Some bv \<Rightarrow> bv\<lparr>peerMaj23 := True\<rparr>
      | None \<Rightarrow> newBlockVotes E True (Size (valSet vs)))"

lemma claimed_Some: "votesByBlock vs k = Some bv \<Longrightarrow> claimed E vs k = bv\<lparr>peerMaj23 := True\<rparr>"
  by (simp add: claimed_def)

lemma claimed_peer [simp]: "peerMaj23 (claimed E vs k)"
  by (simp add: claimed_def newBlockVotes_def split: option.splits)

lemma SetPeerMaj23_run:
  "SetPeerMaj23 E (Some vs) p b = Some
     (if peerMaj23s vs p \<noteq> None then vs
      else vs\<lparr>peerMaj23s := (peerMaj23s vs)(p \<mapsto> b),
              votesByBlock := (votesByBlock vs)(BlockID_Key E b \<mapsto> claimed E vs (BlockID_Key E b))\<rparr>)"
proof (cases "peerMaj23s vs p")
  case None
  show ?thesis
  proof (cases "votesByBlock vs (BlockID_Key E b)")
    case (Some bv)
    show ?thesis
    proof (cases "peerMaj23 bv")
      case True
      then have "bv\<lparr>peerMaj23 := True\<rparr> = bv" by simp
      then have "(votesByBlock vs)(BlockID_Key E b \<mapsto> claimed E vs (BlockID_Key E b)) = votesByBlock vs"
        using Some by (simp add: claimed_Some map_upd_triv)
      then show ?thesis
        using None Some True by (simp add: SetPeerMaj23_def Let_def)
    qed (use None Some in \<open>simp add: SetPeerMaj23_def Let_def claimed_Some\<close>)
  qed (use None in \<open>simp add: SetPeerMaj23_def Let_def claimed_def\<close>)
qed (simp add: SetPeerMaj23_def Let_def)

lemma wf_claimed:
  assumes laws: "bit_array_laws E" and wf: "wf_vote_set E vs"
  shows "wf_vote_set E (vs\<lparr>peerMaj23s := m, votesByBlock := (votesByBlock vs)(k \<mapsto> claimed E vs k)\<rparr>)"
    (is "wf_vote_set E ?vs")
proof -
  have old: "block_wf E ?vs j bv" if "votesByBlock vs j = Some bv" for j bv
    using that wf block_wf_mono [of E vs j bv ?vs] by (simp add: wf_vote_set_def blocks_wf_def)
  have blk: "block_wf E ?vs k (claimed E vs k)"
  proof (cases "votesByBlock vs k")
    case None
    then show ?thesis
      using newBlockVotes_block_wf [OF laws, of ?vs k True] by (simp add: claimed_def)
  next
    case (Some bv)
    then show ?thesis
      using old [OF Some] by (simp add: claimed_Some block_wf_def)
  qed
  have "blocks_wf E ?vs"
    using old blk by (simp add: blocks_wf_def)
  moreover have "votes_wf E ?vs"
    using wf by (simp add: wf_vote_set_def votes_wf_def vote_ok_def)
  moreover have "maj_wf E ?vs"
  proof (cases "maj23 vs")
    case None
    then have small: "0 < quorum_of vs \<Longrightarrow> votesByBlock vs j = Some bv \<Longrightarrow> bv_sum bv < quorum_of vs"
      for j bv
      using wf by (simp add: wf_vote_set_def maj_wf_def)
    have "0 < quorum_of vs \<Longrightarrow> bv_sum (claimed E vs k) < quorum_of vs"
      using small [of k] by (simp add: claimed_def newBlockVotes_def split: option.splits)
    then show ?thesis
      using small None by (simp add: maj_wf_def quorum_of_def)
  next
    case (Some b)
    then obtain bv where bv: "votesByBlock vs (BlockID_Key E b) = Some bv" "0 < quorum_of vs"
        "quorum_of vs \<le> bv_sum bv"
        "\<forall>i \<in> slots (bv_votes bv). \<exists>v. votes vs ! i = Some v \<and> vote_key E v = BlockID_Key E b"
      using wf by (auto simp: wf_vote_set_def maj_wf_def)
    then show ?thesis
      using Some by (cases "BlockID_Key E b = k") (simp_all add: maj_wf_def quorum_of_def claimed_Some)
  qed
  ultimately show ?thesis by (simp add: wf_vote_set_def)
qed

lemma extends_claimed:
  "extends vs (vs\<lparr>peerMaj23s := m, votesByBlock := (votesByBlock vs)(k \<mapsto> claimed E vs k)\<rparr>)"
  by (simp add: extends_def claimed_def)

lemma SetPeerMaj23_step:
  assumes "bit_array_laws E" and "wf_vote_set E vs" and "SetPeerMaj23 E (Some vs) p b = Some vs'"
  shows "wf_vote_set E vs' \<and> extends vs vs'"
  using assms wf_claimed [OF assms(1,2)] extends_claimed
  by (auto simp: SetPeerMaj23_run simp del: fun_upd_apply split: if_splits)

subsection \<open>Reachable states\<close>

inductive reachable :: "'b ext \<Rightarrow> 'b vote_set \<Rightarrow> bool" for E :: "'b ext" where
  new: "nonneg_powers vals \<Longrightarrow> NewVoteSet E c h r t vals = Some vs \<Longrightarrow> reachable E vs"
| add: "reachable E vs \<Longrightarrow> AddVote E (Some vs) v = Some (vs', added, err) \<Longrightarrow> reachable E vs'"
| peer: "reachable E vs \<Longrightarrow> SetPeerMaj23 E (Some vs) p b = Some vs' \<Longrightarrow> reachable E vs'"

lemma reachable_wf: "reachable E vs \<Longrightarrow> bit_array_laws E \<Longrightarrow> wf_vote_set E vs"
  by (induction rule: reachable.induct) (auto dest: NewVoteSet_wf AddVote_step SetPeerMaj23_step)

subsection \<open>Bounded memory\<close>

text \<open>
  A tracked block is either claimed by a peer, or holds the first vote of some validator which no
  other unclaimed block holds.
\<close>

definition mem_inv :: "'b ext \<Rightarrow> 'b vote_set \<Rightarrow> bool" where
  "mem_inv E vs \<longleftrightarrow>
     finite (dom (votesByBlock vs)) \<and> finite (dom (peerMaj23s vs)) \<and>
     (\<forall>k bv. votesByBlock vs k = Some bv \<longrightarrow>
        (if peerMaj23 bv then k \<in> BlockID_Key E ` ran (peerMaj23s vs) else slots (bv_votes bv) \<noteq> {})) \<and>
     (\<forall>k bv k' bv' i. votesByBlock vs k = Some bv \<longrightarrow> votesByBlock vs k' = Some bv' \<longrightarrow>
        \<not> peerMaj23 bv \<longrightarrow> \<not> peerMaj23 bv' \<longrightarrow> i \<in> slots (bv_votes bv) \<longrightarrow> i \<in> slots (bv_votes bv') \<longrightarrow> k = k')"

lemma mem_invD:
  assumes "mem_inv E vs"
  shows "finite (dom (votesByBlock vs))" and "finite (dom (peerMaj23s vs))"
    and "votesByBlock vs k = Some bv \<Longrightarrow> peerMaj23 bv \<Longrightarrow> k \<in> BlockID_Key E ` ran (peerMaj23s vs)"
    and "votesByBlock vs k = Some bv \<Longrightarrow> \<not> peerMaj23 bv \<Longrightarrow> slots (bv_votes bv) \<noteq> {}"
    and "votesByBlock vs k = Some bv \<Longrightarrow> votesByBlock vs k' = Some bv' \<Longrightarrow> \<not> peerMaj23 bv \<Longrightarrow>
      \<not> peerMaj23 bv' \<Longrightarrow> i \<in> slots (bv_votes bv) \<Longrightarrow> i \<in> slots (bv_votes bv') \<Longrightarrow> k = k'"
proof -
  note parts = assms [unfolded mem_inv_def]
  show "finite (dom (votesByBlock vs))" "finite (dom (peerMaj23s vs))"
    using parts by simp_all
  have cases: "votesByBlock vs k = Some bv \<Longrightarrow>
      (if peerMaj23 bv then k \<in> BlockID_Key E ` ran (peerMaj23s vs) else slots (bv_votes bv) \<noteq> {})"
    using parts [THEN conjunct2, THEN conjunct2, THEN conjunct1] by blast
  show "votesByBlock vs k = Some bv \<Longrightarrow> peerMaj23 bv \<Longrightarrow> k \<in> BlockID_Key E ` ran (peerMaj23s vs)"
    "votesByBlock vs k = Some bv \<Longrightarrow> \<not> peerMaj23 bv \<Longrightarrow> slots (bv_votes bv) \<noteq> {}"
    using cases by simp_all
  show "votesByBlock vs k = Some bv \<Longrightarrow> votesByBlock vs k' = Some bv' \<Longrightarrow> \<not> peerMaj23 bv \<Longrightarrow>
      \<not> peerMaj23 bv' \<Longrightarrow> i \<in> slots (bv_votes bv) \<Longrightarrow> i \<in> slots (bv_votes bv') \<Longrightarrow> k = k'"
    using parts [THEN conjunct2, THEN conjunct2, THEN conjunct2] by blast
qed

lemma mem_invI:
  assumes "finite (dom (votesByBlock vs))" and "finite (dom (peerMaj23s vs))"
    and "\<And>k bv. votesByBlock vs k = Some bv \<Longrightarrow> peerMaj23 bv \<Longrightarrow> k \<in> BlockID_Key E ` ran (peerMaj23s vs)"
    and "\<And>k bv. votesByBlock vs k = Some bv \<Longrightarrow> \<not> peerMaj23 bv \<Longrightarrow> slots (bv_votes bv) \<noteq> {}"
    and "\<And>k bv k' bv' i. votesByBlock vs k = Some bv \<Longrightarrow> votesByBlock vs k' = Some bv' \<Longrightarrow>
      \<not> peerMaj23 bv \<Longrightarrow> \<not> peerMaj23 bv' \<Longrightarrow> i \<in> slots (bv_votes bv) \<Longrightarrow> i \<in> slots (bv_votes bv') \<Longrightarrow>
      k = k'"
  shows "mem_inv E vs"
  unfolding mem_inv_def
proof (intro conjI allI impI)
  show "if peerMaj23 bv then k \<in> BlockID_Key E ` ran (peerMaj23s vs) else slots (bv_votes bv) \<noteq> {}"
    if "votesByBlock vs k = Some bv" for k bv
    using assms(3,4) [OF that] by simp
qed (use assms(1,2,5) in blast)+

lemma mem_inv_tallied:
  assumes mem: "mem_inv E vs" and wf: "wf_vote_set E vs"
    and t: "tallied vs vs' k i (tally_for E vs k)"
    and first: "i \<notin> slots (votes vs) \<or> (\<exists>bv. votesByBlock vs k = Some bv \<and> peerMaj23 bv)"
  shows "mem_inv E vs'"
proof -
  let ?bv = "tally_for E vs k"
  obtain bv' where m: "votesByBlock vs' = (votesByBlock vs)(k \<mapsto> bv')"
    and sl: "slots (bv_votes bv') = insert i (slots (bv_votes ?bv))" and pr: "peerMaj23 bv' = peerMaj23 ?bv"
    and ps: "peerMaj23s vs' = peerMaj23s vs"
    using t by (auto simp: tallied_def)
  have bound: "slots (bv_votes b) \<subseteq> slots (votes vs)" if "votesByBlock vs j = Some b" for j b
    using wf that by (auto simp: wf_vote_set_def blocks_wf_def block_wf_def)
  have apart: "j \<notin> slots (bv_votes b)"
    if "\<not> peerMaj23 bv'" "j \<in> slots (bv_votes bv')" "votesByBlock vs k2 = Some b" "\<not> peerMaj23 b" "k2 \<noteq> k"
    for j k2 b
  proof (cases "votesByBlock vs k")
    case None
    then have "j = i" and "i \<notin> slots (votes vs)"
      using that(2) sl first by (auto simp: tally_for_def newBlockVotes_def)
    then show ?thesis using bound [OF that(3)] by auto
  next
    case (Some bv)
    then have up: "\<not> peerMaj23 bv" using that(1) pr by (simp add: tally_for_def)
    show ?thesis
    proof (cases "j = i")
      case True
      have "i \<notin> slots (votes vs)" using first Some up by simp
      then show ?thesis using True bound [OF that(3)] by auto
    next
      case False
      then have "j \<in> slots (bv_votes bv)" using that(2) sl Some by (simp add: tally_for_def)
      then show ?thesis using mem_invD(5) [OF mem Some that(3) up that(4)] that(5) by auto
    qed
  qed
  show ?thesis
  proof (rule mem_invI)
    show "finite (dom (votesByBlock vs'))" "finite (dom (peerMaj23s vs'))"
      using mem_invD(1,2) [OF mem] by (simp_all add: m ps)
    show "j \<in> BlockID_Key E ` ran (peerMaj23s vs')" if "votesByBlock vs' j = Some b" "peerMaj23 b" for j b
      using that mem_invD(3) [OF mem, of k] mem_invD(3) [OF mem, of j] pr
      by (auto simp: m ps tally_for_def newBlockVotes_def split: if_splits option.splits)
    show "slots (bv_votes b) \<noteq> {}" if "votesByBlock vs' j = Some b" "\<not> peerMaj23 b" for j b
      using that mem_invD(4) [OF mem, of j] sl by (auto simp: m split: if_splits)
    show "k1 = k2" if "votesByBlock vs' k1 = Some b1" "votesByBlock vs' k2 = Some b2"
      "\<not> peerMaj23 b1" "\<not> peerMaj23 b2" "j \<in> slots (bv_votes b1)" "j \<in> slots (bv_votes b2)" for k1 b1 k2 b2 j
      using that apart [of j k2 b2] apart [of j k1 b1] mem_invD(5) [OF mem, of k1 b1 k2 b2 j]
      by (auto simp: m split: if_splits)
  qed
qed

lemma mem_inv_step:
  "mem_inv E vs \<Longrightarrow> wf_vote_set E vs \<Longrightarrow> tracking_step E vs vs' \<Longrightarrow> mem_inv E vs'"
  unfolding tracking_step_def
  by (elim disjE [where P = "votesByBlock vs' = votesByBlock vs \<and> peerMaj23s vs' = peerMaj23s vs"])
    (simp add: mem_inv_def, blast intro: mem_inv_tallied)

lemma mem_inv_claimed:
  assumes mem: "mem_inv E vs" and free: "peerMaj23s vs p = None"
  shows "mem_inv E (vs\<lparr>peerMaj23s := (peerMaj23s vs)(p \<mapsto> b),
    votesByBlock := (votesByBlock vs)(BlockID_Key E b \<mapsto> claimed E vs (BlockID_Key E b))\<rparr>)"
proof (rule mem_invI, goal_cases)
  case (3 k bv)
  then show ?case
    using mem_invD(3) [OF mem, of k bv] by (auto simp: ran_map_upd [of "peerMaj23s vs" p, OF free] split: if_splits)
next
  case (4 k bv)
  then show ?case using mem_invD(4) [OF mem, of k bv] by (auto split: if_splits)
next
  case (5 k bv k' bv' i)
  then show ?case using mem_invD(5) [OF mem, of k bv k' bv' i] by (auto split: if_splits)
qed (use mem_invD(1,2) [OF mem] in simp_all)

lemma reachable_mem_inv:
  "reachable E vs \<Longrightarrow> bit_array_laws E \<Longrightarrow> mem_inv E vs"
proof (induction rule: reachable.induct)
  case (new vals c h r t vs)
  then have "votesByBlock vs = Map.empty" "peerMaj23s vs = Map.empty"
    by (auto simp: NewVoteSet_def split: if_splits)
  then show ?case by (simp add: mem_inv_def)
next
  case (add vs v vs' added err)
  then show ?case
    using AddVote_step [of E vs v vs' added err] mem_inv_step [of E vs vs'] reachable_wf [of E vs]
    by simp
next
  case (peer vs p b vs')
  then show ?case
    using mem_inv_claimed [of E vs p b]
    by (cases "peerMaj23s vs p") (simp_all add: SetPeerMaj23_run del: fun_upd_apply)
qed

lemma mem_inv_card:
  assumes mem: "mem_inv E vs" and wf: "wf_vote_set E vs"
  shows "card (dom (votesByBlock vs)) \<le> Size (valSet vs) + card (dom (peerMaj23s vs))"
proof -
  define U where "U = {k. \<exists>bv. votesByBlock vs k = Some bv \<and> \<not> peerMaj23 bv}"
  define F where "F = {k. \<exists>bv. votesByBlock vs k = Some bv \<and> peerMaj23 bv}"
  define pick where "pick k = Min (slots (bv_votes (the (votesByBlock vs k))))" for k
  have pick: "pick k \<in> slots (bv_votes bv)" if "votesByBlock vs k = Some bv" "\<not> peerMaj23 bv" for k bv
    using that mem_invD(4) [OF mem that] by (simp add: pick_def)
  have inj: "inj_on pick U"
  proof (rule inj_onI)
    fix k k' assume *: "k \<in> U" "k' \<in> U" "pick k = pick k'"
    then obtain bv bv' where b: "votesByBlock vs k = Some bv" "votesByBlock vs k' = Some bv'"
        "\<not> peerMaj23 bv" "\<not> peerMaj23 bv'"
      by (auto simp: U_def)
    then show "k = k'"
      using mem_invD(5) [OF mem b, of "pick k"] pick [OF b(1,3)] pick [OF b(2,4)] *(3) by simp
  qed
  have "pick ` U \<subseteq> {..<Size (valSet vs)}"
  proof (rule image_subsetI)
    fix k assume "k \<in> U"
    then obtain bv where b: "votesByBlock vs k = Some bv" "\<not> peerMaj23 bv" by (auto simp: U_def)
    moreover have "length (bv_votes bv) = Size (valSet vs)"
      using wf b(1) by (auto simp: wf_vote_set_def blocks_wf_def block_wf_def array_ok_def)
    ultimately show "pick k \<in> {..<Size (valSet vs)}"
      using pick [OF b] slots_bounded [of "bv_votes bv"] by auto
  qed
  then have "card U \<le> Size (valSet vs)"
    using card_inj_on_le [OF inj, of "{..<Size (valSet vs)}"] by simp
  moreover have "card F \<le> card (ran (peerMaj23s vs))"
  proof (rule surj_card_le)
    show "F \<subseteq> BlockID_Key E ` ran (peerMaj23s vs)"
      unfolding F_def using mem_invD(3) [OF mem] by blast
    show "finite (ran (peerMaj23s vs))"
      using mem_invD(2) [OF mem] by (rule finite_ran)
  qed
  moreover have "card (ran (peerMaj23s vs)) \<le> card (dom (peerMaj23s vs))"
  proof (rule surj_card_le [OF mem_invD(2) [OF mem]])
    show "ran (peerMaj23s vs) \<subseteq> (\<lambda>p. the (peerMaj23s vs p)) ` dom (peerMaj23s vs)"
    proof
      fix b assume "b \<in> ran (peerMaj23s vs)"
      then obtain p where "peerMaj23s vs p = Some b" by (auto simp: ran_def)
      then show "b \<in> (\<lambda>p. the (peerMaj23s vs p)) ` dom (peerMaj23s vs)"
        by (intro image_eqI [of _ _ p]) auto
    qed
  qed
  moreover have "dom (votesByBlock vs) = U \<union> F" by (auto simp: U_def F_def)
  ultimately show ?thesis using card_Un_le [of U F] by simp
qed

subsection \<open>Signers of a majority\<close>

lemma block_sum:
  "wf_vote_set E vs \<Longrightarrow> votesByBlock vs k = Some bv \<Longrightarrow>
    bv_sum bv = sum (power_of (valSet vs)) (slots (bv_votes bv))"
  by (auto simp: wf_vote_set_def blocks_wf_def block_wf_def array_ok_def)

lemma majority_signers:
  assumes wf: "wf_vote_set E vs" and maj: "maj23 vs = Some b"
  obtains S where "S \<subseteq> {..<Size (valSet vs)}" and "sound_round (vs_round vs)"
    and "0 < quorum_of vs" and "quorum_of vs \<le> sum (power_of (valSet vs)) S"
    and "\<And>i. i \<in> S \<Longrightarrow> \<exists>v. votes vs ! i = Some v \<and> vote_ok E vs i v \<and> vote_key E v = BlockID_Key E b"
proof -
  obtain bv where bv: "votesByBlock vs (BlockID_Key E b) = Some bv" "quorum_of vs \<le> bv_sum bv"
      and pos: "0 < quorum_of vs" and canon:
      "\<forall>i \<in> slots (bv_votes bv). \<exists>v. votes vs ! i = Some v \<and> vote_key E v = BlockID_Key E b"
    using wf maj by (auto simp: wf_vote_set_def maj_wf_def)
  have len: "length (bv_votes bv) = Size (valSet vs)" "length (votes vs) = Size (valSet vs)"
    using wf bv(1) by (auto simp: wf_vote_set_def blocks_wf_def block_wf_def votes_wf_def array_ok_def)
  have sub: "slots (bv_votes bv) \<subseteq> {..<Size (valSet vs)}"
    using slots_bounded [of "bv_votes bv"] len by simp
  have sum: "quorum_of vs \<le> sum (power_of (valSet vs)) (slots (bv_votes bv))"
    using bv(2) block_sum [OF wf bv(1)] by simp
  have signed: "\<exists>v. votes vs ! i = Some v \<and> vote_ok E vs i v \<and> vote_key E v = BlockID_Key E b"
    if i: "i \<in> slots (bv_votes bv)" for i
  proof -
    obtain v where v: "votes vs ! i = Some v" "vote_key E v = BlockID_Key E b"
      using canon i by blast
    moreover have "vote_ok E vs i v"
      using wf v(1) i sub len(2) by (auto simp: wf_vote_set_def votes_wf_def)
    ultimately show ?thesis by blast
  qed
  have "slots (bv_votes bv) \<noteq> {}" using sum pos by auto
  then obtain i where "i \<in> slots (bv_votes bv)" by blast
  from signed [OF this] obtain v :: vote where "int_of_u64 (vote_Round v) = vs_round vs"
    by (auto simp: vote_ok_def)
  then have "- (2 ^ 63) \<le> vs_round vs" using int_of_u64_range(1) [of "vote_Round v"] by simp
  moreover have "sum (power_of (valSet vs)) (slots (bv_votes bv)) \<le> total_power (valSet vs)"
    using sub wf power_of_nonneg [of "valSet vs"] unfolding total_power_def
    by (intro sum_mono2) (auto simp: wf_vote_set_def votes_wf_def)
  ultimately have "sound_round (vs_round vs)"
    using Loose23_reached_sound [of "vs_round vs" "total_power (valSet vs)"] pos sum
    by (simp add: quorum_of_def)
  then show thesis using that sub pos sum signed by blast
qed

subsection \<open>Runs on concrete votes\<close>

fun add_votes :: "'b ext \<Rightarrow> 'b vote_set \<Rightarrow> vote list \<Rightarrow> 'b vote_set option" where
  "add_votes E vs [] = Some vs"
| "add_votes E vs (v # ws) =
     (case AddVote E (Some vs) v of None \<Rightarrow> None | Some (vs', _, _) \<Rightarrow> add_votes E vs' ws)"

lemma add_votes_reachable: "reachable E vs \<Longrightarrow> add_votes E vs ws = Some vs' \<Longrightarrow> reachable E vs'"
proof (induction ws arbitrary: vs)
  case (Cons v ws)
  then obtain vs1 added err where "AddVote E (Some vs) v = Some (vs1, added, err)"
      "add_votes E vs1 ws = Some vs'"
    by (auto split: option.splits)
  then show ?case using Cons.IH reachable.add [OF Cons.prems(1)] by blast
qed simp

definition sample_vote :: "byte \<Rightarrow> uint64 \<Rightarrow> bytes \<Rightarrow> vote" where
  "sample_vote a i hash =
     \<lparr>ValidatorAddress = [a], ValidatorIndex = i, vote_Height = 1, vote_Round = 0,
      vote_Type = VoteTypePrevote, vote_BlockID = \<lparr>bid_Hash = hash, bid_PartsHeader = zero_psh\<rparr>,
      vote_Signature = a # VoteTypePrevote # hash, vote_SignBytes = []\<rparr>"

definition sample_vote_set :: "bool list vote_set" where
  "sample_vote_set = the (NewVoteSet sample_ext ''neat'' 1 0 VoteTypePrevote sample_valset)"

lemma sample_vote_set_reachable [simp]: "reachable sample_ext sample_vote_set"
proof (rule reachable.new)
  show "nonneg_powers sample_valset" by simp
  show "NewVoteSet sample_ext ''neat'' 1 0 VoteTypePrevote sample_valset = Some sample_vote_set"
    by (simp add: sample_vote_set_def NewVoteSet_def)
qed

definition sample_majority :: "bytes \<Rightarrow> bool list vote_set" where
  "sample_majority hash =
     the (add_votes sample_ext sample_vote_set [sample_vote 1 0 hash, sample_vote 2 1 hash])"

lemma sample_majority_runs:
  "add_votes sample_ext sample_vote_set [sample_vote 1 0 [7], sample_vote 2 1 [7]] \<noteq> None"
  "add_votes sample_ext sample_vote_set [sample_vote 1 0 [8], sample_vote 2 1 [8]] \<noteq> None"
  "maj23 (sample_majority [7]) = Some \<lparr>bid_Hash = [7], bid_PartsHeader = zero_psh\<rparr>"
  "maj23 (sample_majority [8]) = Some \<lparr>bid_Hash = [8], bid_PartsHeader = zero_psh\<rparr>"
  by code_simp+

lemma sample_majority_reachable:
  "reachable sample_ext (sample_majority [7])" "reachable sample_ext (sample_majority [8])"
  using sample_majority_runs(1,2) add_votes_reachable [OF sample_vote_set_reachable]
  unfolding sample_majority_def by (metis option.collapse)+

subsection \<open>Properties\<close>

text \<open>
  C2: In every reachable vote set a majority is recorded exactly when the threshold for the round is
  positive and the validators whose verified votes are tallied for some block hold at least that
  much power; the threshold is positive for every round of at least \<open>61 - 2^63\<close>, below which it
  wraps around.  A recorded majority is backed by canonical votes for that very block, each with a
  valid signature of the validator at its index, whose power reaches the threshold.
\<close>

theorem majority_iff_quorum:
  assumes "bit_array_laws E" and "reachable E vs"
  shows "(maj23 vs \<noteq> None \<longleftrightarrow>
          0 < Loose23MajorThreshold (total_power (valSet vs)) (vs_round vs) \<and>
          (\<exists>k bv. votesByBlock vs k = Some bv \<and>
            Loose23MajorThreshold (total_power (valSet vs)) (vs_round vs)
              \<le> sum (power_of (valSet vs)) (slots (bv_votes bv)))) \<and>
    (sound_round (vs_round vs) \<longrightarrow>
       0 < Loose23MajorThreshold (total_power (valSet vs)) (vs_round vs)) \<and>
    (\<forall>b. maj23 vs = Some b \<longrightarrow> (\<exists>S \<subseteq> {..<Size (valSet vs)}.
        Loose23MajorThreshold (total_power (valSet vs)) (vs_round vs) \<le> sum (power_of (valSet vs)) S \<and>
        (\<forall>i \<in> S. \<exists>v. votes vs ! i = Some v \<and> vote_ok E vs i v \<and>
           BlockID_Key E (vote_BlockID v) = BlockID_Key E b)))"
proof (intro conjI allI impI)
  note wf = reachable_wf [OF assms(2,1)]
  show "maj23 vs \<noteq> None \<longleftrightarrow>
      0 < Loose23MajorThreshold (total_power (valSet vs)) (vs_round vs) \<and>
      (\<exists>k bv. votesByBlock vs k = Some bv \<and>
      Loose23MajorThreshold (total_power (valSet vs)) (vs_round vs)
        \<le> sum (power_of (valSet vs)) (slots (bv_votes bv)))"
  proof (cases "maj23 vs")
    case None
    then have "0 < quorum_of vs \<longrightarrow> (\<forall>k bv. votesByBlock vs k = Some bv \<longrightarrow> bv_sum bv < quorum_of vs)"
      using wf by (simp add: wf_vote_set_def maj_wf_def)
    then show ?thesis
      using None block_sum [OF wf] unfolding quorum_of_def by (metis not_le)
  next
    case (Some b)
    then obtain k bv where "votesByBlock vs k = Some bv" "0 < quorum_of vs" "quorum_of vs \<le> bv_sum bv"
      using wf by (auto simp: wf_vote_set_def maj_wf_def)
    then show ?thesis
      using Some block_sum [OF wf, of k bv] unfolding quorum_of_def by auto
  qed
  have "0 \<le> total_power (valSet vs)"
    using wf by (simp add: wf_vote_set_def votes_wf_def total_power_nonneg)
  then show "0 < Loose23MajorThreshold (total_power (valSet vs)) (vs_round vs)"
    if "sound_round (vs_round vs)"
    using Loose23_majority [OF that, of "total_power (valSet vs)"] by simp
  fix b assume "maj23 vs = Some b"
  then show "\<exists>S \<subseteq> {..<Size (valSet vs)}.
      Loose23MajorThreshold (total_power (valSet vs)) (vs_round vs) \<le> sum (power_of (valSet vs)) S \<and>
      (\<forall>i \<in> S. \<exists>v. votes vs ! i = Some v \<and> vote_ok E vs i v \<and> vote_key E v = BlockID_Key E b)"
    using majority_signers [OF wf] unfolding quorum_of_def by metis
qed

theorem majority_iff_quorum_witness:
  "\<exists>k bv. votesByBlock (sample_majority [7]) k = Some bv \<and>
     Loose23MajorThreshold (total_power (valSet (sample_majority [7]))) (vs_round (sample_majority [7]))
       \<le> sum (power_of (valSet (sample_majority [7]))) (slots (bv_votes bv))"
  using majority_iff_quorum [OF sample_ext_laws sample_majority_reachable(1)]
    sample_majority_runs(3) by simp

text \<open>
  C20: Two nodes with reachable vote sets for the same chain, height, round, type and validator set
  that record majorities for different block keys prove double signing: validators whose power is
  at least twice the threshold minus the total, and positive, have signed votes for two different
  block keys in that step.
\<close>

theorem conflicting_majorities_blame:
  assumes laws: "bit_array_laws E" and vs: "reachable E vs" and vs': "reachable E vs'"
    and same: "vs_chainID vs' = vs_chainID vs" "vs_height vs' = vs_height vs"
      "vs_round vs' = vs_round vs" "vs_type vs' = vs_type vs" "valSet vs' = valSet vs"
    and maj: "maj23 vs = Some b" "maj23 vs' = Some b'" and diff: "BlockID_Key E b \<noteq> BlockID_Key E b'"
  shows "\<exists>D \<subseteq> {..<Size (valSet vs)}.
    2 * Loose23MajorThreshold (total_power (valSet vs)) (vs_round vs) - total_power (valSet vs)
      \<le> sum (power_of (valSet vs)) D \<and> 0 < sum (power_of (valSet vs)) D \<and>
    (\<forall>i \<in> D. \<exists>v v'. vote_ok E vs i v \<and> vote_ok E vs i v' \<and>
       BlockID_Key E (vote_BlockID v) \<noteq> BlockID_Key E (vote_BlockID v'))"
proof -
  obtain S where S: "S \<subseteq> {..<Size (valSet vs)}" "quorum_of vs \<le> sum (power_of (valSet vs)) S"
      and snd: "sound_round (vs_round vs)" and S3:
      "\<And>i. i \<in> S \<Longrightarrow> \<exists>v. votes vs ! i = Some v \<and> vote_ok E vs i v \<and> vote_key E v = BlockID_Key E b"
    using majority_signers [OF reachable_wf [OF vs laws] maj(1)] by metis
  obtain S' where S': "S' \<subseteq> {..<Size (valSet vs')}" "quorum_of vs' \<le> sum (power_of (valSet vs')) S'"
      "\<And>i. i \<in> S' \<Longrightarrow> \<exists>v. votes vs' ! i = Some v \<and> vote_ok E vs' i v \<and> vote_key E v = BlockID_Key E b'"
    using majority_signers [OF reachable_wf [OF vs' laws] maj(2)] by metis
  have nn: "nonneg_powers (valSet vs)"
    using reachable_wf [OF vs laws] by (simp add: wf_vote_set_def votes_wf_def)
  show ?thesis
  proof (intro exI [of _ "S \<inter> S'"] conjI ballI)
    show "2 * Loose23MajorThreshold (total_power (valSet vs)) (vs_round vs) - total_power (valSet vs)
        \<le> sum (power_of (valSet vs)) (S \<inter> S')"
      using val_quorum.overlap_weight [OF nn S(1), of S' "vs_round vs" "vs_round vs"] S(2) S'(1,2)
      by (simp add: quorum_of_def same flip: total_power_def)
    show "0 < sum (power_of (valSet vs)) (S \<inter> S')"
      using val_quorum.overlap_positive [OF nn snd snd S(1), of S'] S(2) S'(1,2)
      by (simp add: quorum_of_def same flip: total_power_def)
    show "\<exists>v v'. vote_ok E vs i v \<and> vote_ok E vs i v' \<and> vote_key E v \<noteq> vote_key E v'"
      if "i \<in> S \<inter> S'" for i
      using S3 [of i] S'(3) [of i] that diff vote_ok_cong [OF same] by (metis IntD1 IntD2)
  qed (use S(1) in auto)
qed

theorem conflicting_majorities_blame_witness:
  "\<exists>D \<subseteq> {..<Size sample_valset}. 0 < sum (power_of sample_valset) D \<and>
    (\<forall>i \<in> D. \<exists>v v'. vote_ok sample_ext (sample_majority [7]) i v \<and>
       vote_ok sample_ext (sample_majority [7]) i v' \<and>
       BlockID_Key sample_ext (vote_BlockID v) \<noteq> BlockID_Key sample_ext (vote_BlockID v'))"
proof -
  have cfg: "vs_chainID (sample_majority [8]) = vs_chainID (sample_majority [7])"
    "vs_height (sample_majority [8]) = vs_height (sample_majority [7])"
    "vs_round (sample_majority [8]) = vs_round (sample_majority [7])"
    "vs_type (sample_majority [8]) = vs_type (sample_majority [7])"
    "valSet (sample_majority [8]) = valSet (sample_majority [7])"
    "valSet (sample_majority [7]) = sample_valset"
    by code_simp+
  have key: "BlockID_Key sample_ext \<lparr>bid_Hash = [7], bid_PartsHeader = zero_psh\<rparr> \<noteq>
      BlockID_Key sample_ext \<lparr>bid_Hash = [8], bid_PartsHeader = zero_psh\<rparr>"
    by code_simp
  show ?thesis
    using conflicting_majorities_blame [OF sample_ext_laws sample_majority_reachable cfg(1-5)
        sample_majority_runs(3,4) key]
    unfolding cfg(6) by metis
qed

text \<open>
  C21: On a reachable vote set \<open>AddVote\<close> panics exactly when the vote has no validator address, or
  matches the step but carries an index outside the validator slice; the sanity panics about
  duplicate and unaddable votes never happen.
\<close>

theorem AddVote_panics_iff:
  assumes "bit_array_laws E" and "reachable E vs"
  shows "AddVote E (Some vs) v = None \<longleftrightarrow>
    ValidatorAddress v = [] \<or>
    vote_Height v = vs_height vs \<and> int_of_u64 (vote_Round v) = vs_round vs \<and>
    vote_Type v = vs_type vs \<and>
    \<not> (0 \<le> int_of_u64 (ValidatorIndex v) \<and> int_of_u64 (ValidatorIndex v) < int (Size (valSet vs)))"
proof -
  note wf = reachable_wf [OF assms(2,1)]
  have "addVote E vs v \<noteq> None"
    if "ValidatorAddress v \<noteq> []" "step_matches vs v" "index_in_range vs v"
    by (rule addVote_in_range [OF assms(1) wf that]) simp_all
  then have "addVote E vs v = None \<longleftrightarrow>
      ValidatorAddress v = [] \<or> step_matches vs v \<and> \<not> index_in_range vs v"
    using addVote_no_address [of v E vs] addVote_other_step [of v vs E] addVote_out_of_range [of v vs E]
    by (cases "ValidatorAddress v = []"; cases "step_matches vs v"; cases "index_in_range vs v") simp_all
  then show ?thesis
    by (simp add: AddVote_def step_matches_def index_in_range_def)
qed

theorem AddVote_panics_iff_witness:
  "AddVote sample_ext (Some sample_vote_set) (sample_vote 1 9 [7]) = None \<and>
   AddVote sample_ext (Some sample_vote_set) (sample_vote 1 0 [7]) \<noteq> None"
proof -
  have "vs_height sample_vote_set = 1" "vs_round sample_vote_set = 0"
    "vs_type sample_vote_set = VoteTypePrevote" "Size (valSet sample_vote_set) = 4"
    "int_of_u64 9 = 9" "int_of_u64 0 = 0"
    by code_simp+
  then show ?thesis
    by (simp add: AddVote_panics_iff [OF sample_ext_laws sample_vote_set_reachable] sample_vote_def)
qed

text \<open>
  C22: A vote that is accepted by \<open>AddVote\<close> or a peer's claim never changes a recorded majority,
  never drops a canonical vote and never changes or removes a vote tallied for a block, and the
  resulting set satisfies the vote-set invariant again.
\<close>

theorem vote_set_monotone:
  assumes "bit_array_laws E" and "reachable E vs"
    and "AddVote E (Some vs) v = Some (vs', added, err) \<or> SetPeerMaj23 E (Some vs) p b = Some vs'"
  shows "wf_vote_set E vs' \<and> (maj23 vs \<noteq> None \<longrightarrow> maj23 vs' = maj23 vs) \<and>
    (\<forall>i < length (votes vs). votes vs ! i \<noteq> None \<longrightarrow> votes vs' ! i \<noteq> None) \<and>
    (\<forall>k bv i w. votesByBlock vs k = Some bv \<longrightarrow> i < length (bv_votes bv) \<longrightarrow> bv_votes bv ! i = Some w \<longrightarrow>
       (\<exists>bv'. votesByBlock vs' k = Some bv' \<and> bv_votes bv' ! i = Some w))"
proof -
  have "wf_vote_set E vs' \<and> extends vs vs'"
    using assms(3) AddVote_step [OF assms(1) reachable_wf [OF assms(2,1)]]
      SetPeerMaj23_step [OF assms(1) reachable_wf [OF assms(2,1)]] by blast
  then have wf: "wf_vote_set E vs'" and ext: "extends vs vs'" by simp_all
  have maj: "maj23 vs \<noteq> None \<longrightarrow> maj23 vs' = maj23 vs" and sl: "slots (votes vs) \<subseteq> slots (votes vs')"
    using ext by (simp_all add: extends_def)
  have blk: "\<exists>bv'. votesByBlock vs' k = Some bv' \<and> bv_votes bv' ! i = Some w"
    if "votesByBlock vs k = Some bv" "i < length (bv_votes bv)" "bv_votes bv ! i = Some w" for k bv i w
  proof -
    have "i \<in> slots (bv_votes bv)" using that by (simp add: slots_def)
    then show ?thesis using ext that unfolding extends_def by metis
  qed
  show ?thesis using wf maj sl blk unfolding slots_def by blast
qed

theorem vote_set_monotone_witness:
  "maj23 (fst (the (AddVote sample_ext (Some (sample_majority [7])) (sample_vote 3 2 [8])))) =
     Some \<lparr>bid_Hash = [7], bid_PartsHeader = zero_psh\<rparr>"
proof -
  have "AddVote sample_ext (Some (sample_majority [7])) (sample_vote 3 2 [8]) \<noteq> None"
    by code_simp
  then obtain vs' added err where
    run: "AddVote sample_ext (Some (sample_majority [7])) (sample_vote 3 2 [8]) = Some (vs', added, err)"
    by (metis not_None_eq surj_pair)
  then show ?thesis
    using vote_set_monotone [OF sample_ext_laws sample_majority_reachable(1) disjI1 [OF run]]
      sample_majority_runs(3) by simp
qed

text \<open>
  C23: Whatever votes and peer claims arrive, a vote set tracks at most as many blocks as there are
  validators plus peers that made a claim, so its memory is bounded.
\<close>

theorem tracked_blocks_bounded:
  assumes "bit_array_laws E" and "reachable E vs"
  shows "finite (dom (votesByBlock vs)) \<and>
    card (dom (votesByBlock vs)) \<le> Size (valSet vs) + card (dom (peerMaj23s vs))"
  using mem_inv_card [OF reachable_mem_inv [OF assms(2,1)] reachable_wf [OF assms(2,1)]]
    mem_invD(1) [OF reachable_mem_inv [OF assms(2,1)]] by simp

theorem tracked_blocks_bounded_witness:
  "card (dom (votesByBlock (sample_majority [7]))) \<le>
     Size (valSet (sample_majority [7])) + card (dom (peerMaj23s (sample_majority [7])))"
  using tracked_blocks_bounded [OF sample_ext_laws sample_majority_reachable(1)] by simp

text \<open>
  C24: Once a majority is recorded, a valid vote for the majority block by a validator whose canonical
  vote is for another block always replaces that canonical vote and is reported as conflicting, but
  it joins the tally of its block, and is reported as added, only if some peer has claimed that
  block; otherwise no tally changes, so the canonical vote is in no tally.
\<close>

theorem conflicting_vote_after_majority:
  assumes "bit_array_laws E" and "reachable E vs" and "maj23 vs = Some b"
    and "vote_ok E vs i v" and "index_in_range vs v" and "ValidatorAddress v \<noteq> []"
    and "BlockID_Key E (vote_BlockID v) = BlockID_Key E b"
    and "votes vs ! i = Some u" and "BlockID_Key E (vote_BlockID u) \<noteq> BlockID_Key E b"
  shows "\<exists>bv vs'. votesByBlock vs (BlockID_Key E b) = Some bv \<and> bv_votes bv ! i = None \<and>
    AddVote E (Some vs) v = Some (vs', peerMaj23 bv, Some (ErrVoteConflictingVotes u v)) \<and>
    votes vs' = (votes vs)[i := Some v] \<and> maj23 vs' = Some b \<and>
    (if peerMaj23 bv
     then \<exists>bv'. votesByBlock vs' = (votesByBlock vs)(BlockID_Key E b \<mapsto> bv') \<and>
            bv_votes bv' = (bv_votes bv)[i := Some v] \<and>
            bv_sum bv' = bv_sum bv + power_of (valSet vs) i
     else votesByBlock vs' = votesByBlock vs)"
proof -
  note wf = reachable_wf [OF assms(2,1)]
  let ?k = "BlockID_Key E b"
  obtain bv where bv: "votesByBlock vs ?k = Some bv"
    and canon: "\<forall>i \<in> slots (bv_votes bv). \<exists>v. votes vs ! i = Some v \<and> vote_key E v = ?k"
    using wf assms(3) by (auto simp: wf_vote_set_def maj_wf_def)
  have i: "i < Size (valSet vs)" "unat (ValidatorIndex v) = i" using assms(4) by (simp_all add: vote_ok_def)
  have idx: "int_of_u64 (ValidatorIndex v) = int i"
    using assms(5) int_of_u64_nonneg [of "ValidatorIndex v"] i(2) by (simp only: index_in_range_def)
  have "block_wf E vs ?k bv" "votes_wf E vs"
    using wf bv by (simp_all add: wf_vote_set_def blocks_wf_def)
  then have len: "length (bv_votes bv) = Size (valSet vs)" "length (votes vs) = Size (valSet vs)"
    and size: "bv_bitArray bv \<noteq> None \<and> BA_Size E (bv_bitArray bv) = Size (valSet vs)"
    using i(1) by (auto simp: block_wf_def votes_wf_def array_ok_def)
  have free: "bv_votes bv ! i = None"
    using canon assms(8,9) i(1) len(1) by (force simp: slots_def)
  have gv: "getVote E vs (int i) ?k = Some None"
    using i len free bv assms(8,9) by (simp add: getVote_def blockVotes_getByIndex_def)
  have get: "GetByIndex (valSet vs) (int i) =
      Some (Address (Validators (valSet vs) ! i), Validators (valSet vs) ! i)"
    using i(1) by (simp add: GetByIndex_def Size_def)
  obtain x y where tally: "TalliedVotingPower E (valSet vs) (bv_bitArray bv) =
      Inr (x, y, total_power (valSet vs))"
    using size by (simp add: TalliedVotingPower_eq)
  have ver: "AddVote E (Some vs) v =
      (case addVerifiedVote E vs v ?k (power_of (valSet vs) i) of
         None \<Rightarrow> None
       | Some (vs', added, Some c) \<Rightarrow> Some (vs', added, Some (ErrVoteConflictingVotes c v))
       | Some (vs', added, None) \<Rightarrow> if \<not> added then None else Some (vs', added, None))"
    using assms(4,6,7) idx gv get
    by (simp add: AddVote_def addVote_def Let_def vote_ok_def power_of_def)
  have "\<not> BlockID_Equals (vote_BlockID u) (vote_BlockID v)" using assms(7,9) by auto
  then have "addVerifiedVote E vs v ?k (power_of (valSet vs) i) =
      trackVote E (vs\<lparr>votes := (votes vs)[i := Some v],
          votesBitArray := BA_SetIndex E (votesBitArray vs) i True\<rparr>) v ?k (power_of (valSet vs) i) (Some u)"
    using assms(3,8) i len by (simp add: addVerifiedVote_def Let_def)
  then show ?thesis
    using bv free len i tally assms(3)
    by (simp add: ver trackVote_def tallyVote_def blockVotes_addVerifiedVote_def Let_def)
      (rule impI, rule exI, rule conjI, rule refl, simp)
qed

text \<open>A validator of the sample votes for block 8 and, after the majority, for block 7.\<close>

definition sample_conflict :: "bool list vote_set" where
  "sample_conflict = the (add_votes sample_ext (sample_majority [7]) [sample_vote 3 2 [8]])"

lemma sample_conflict_reachable: "reachable sample_ext sample_conflict"
proof -
  have "add_votes sample_ext (sample_majority [7]) [sample_vote 3 2 [8]] \<noteq> None" by code_simp
  then show ?thesis
    using add_votes_reachable [OF sample_majority_reachable(1)]
    unfolding sample_conflict_def by (metis option.collapse)
qed

theorem conflicting_vote_after_majority_witness:
  "\<exists>vs'. AddVote sample_ext (Some sample_conflict) (sample_vote 3 2 [7]) =
      Some (vs', False, Some (ErrVoteConflictingVotes (sample_vote 3 2 [8]) (sample_vote 3 2 [7]))) \<and>
    votes vs' = (votes sample_conflict)[2 := Some (sample_vote 3 2 [7])] \<and>
    votesByBlock vs' = votesByBlock sample_conflict"
proof -
  let ?b = "\<lparr>bid_Hash = [7], bid_PartsHeader = zero_psh\<rparr>"
  have "maj23 sample_conflict = Some ?b" "vote_ok sample_ext sample_conflict 2 (sample_vote 3 2 [7])"
    "index_in_range sample_conflict (sample_vote 3 2 [7])" "ValidatorAddress (sample_vote 3 2 [7]) \<noteq> []"
    "BlockID_Key sample_ext (vote_BlockID (sample_vote 3 2 [7])) = BlockID_Key sample_ext ?b"
    "votes sample_conflict ! 2 = Some (sample_vote 3 2 [8])"
    "BlockID_Key sample_ext (vote_BlockID (sample_vote 3 2 [8])) \<noteq> BlockID_Key sample_ext ?b"
    by code_simp+
  note run = conflicting_vote_after_majority [OF sample_ext_laws sample_conflict_reachable this]
  have "map_option peerMaj23 (votesByBlock sample_conflict (BlockID_Key sample_ext ?b)) = Some False"
    by code_simp
  then show ?thesis using run by (auto split: if_splits)
qed

end
