(* ===== verification/SignAggrs.thy ===== *)
theory SignAggrs
  imports Validators
begin

section \<open>Aggregated signatures\<close>

text \<open>
  The file \<open>sign_aggr.go\<close>: the message with which a proposer announces that a block, or nil, has
  collected enough prevotes or precommits, as one aggregated signature and a bit array of signers.
  A nil receiver is \<^term>\<open>None\<close>; a method that dereferences it panics.  The theory shows that a
  verified aggregate carries a quorum, and that the commit made from a verified precommit aggregate
  is accepted by \<open>VerifyCommit\<close>.
\<close>

record 'b sign_aggr =
  sa_ChainID :: chain_id
  sa_Height :: uint64
  sa_Round :: int
  sa_Type :: byte
  sa_NumValidators :: int
  sa_BlockID :: block_id
  sa_Maj23 :: block_id
  sa_BitArray :: "'b option"
  sa_Sum :: int
  sa_SignatureAggr :: signature
  sa_SignBytes :: bytes

definition MakeSignAggr ::
  "uint64 \<Rightarrow> int \<Rightarrow> byte \<Rightarrow> int \<Rightarrow> block_id \<Rightarrow> chain_id \<Rightarrow> 'b option \<Rightarrow> signature \<Rightarrow> 'b sign_aggr" where
  "MakeSignAggr height rnd mtype numValidators blockID chainID bitArray signAggr =
     \<lparr>sa_ChainID = chainID, sa_Height = height, sa_Round = rnd, sa_Type = mtype,
      sa_NumValidators = numValidators, sa_BlockID = blockID, sa_Maj23 = blockID,
      sa_BitArray = bitArray, sa_Sum = 0, sa_SignatureAggr = signAggr, sa_SignBytes = []\<rparr>"

definition SignAggr_SignAggr :: "'b sign_aggr option \<Rightarrow> signature" where
  "SignAggr_SignAggr sa = (case sa of Some a \<Rightarrow> sa_SignatureAggr a | None \<Rightarrow> [])"

definition SignRound :: "'b sign_aggr option \<Rightarrow> int" where
  "SignRound sa = (case sa of None \<Rightarrow> -1 | Some a \<Rightarrow> sa_Round a)"

definition SignAggr_HasTwoThirdsMajority ::
  "'b ext \<Rightarrow> 'b sign_aggr option \<Rightarrow> validator_set option \<Rightarrow> bool option" where
  "SignAggr_HasTwoThirdsMajority E sa vals =
     (case vals of
        None \<Rightarrow> Some False
      | Some s \<Rightarrow>
          (case sa of
             None \<Rightarrow> None
           | Some a \<Rightarrow>
               (case TalliedVotingPower E s (sa_BitArray a) of
                  Inl _ \<Rightarrow> Some False
                | Inr (_, votesSum, totalVotes) \<Rightarrow>
                    (let quorum = Loose23MajorThreshold totalVotes (sa_Round a)
                     in Some (votesSum \<ge> quorum)))))"

text \<open>The receiver is changed only when it is nil, which panics; otherwise nothing happens.\<close>

definition SetMaj23 :: "'b sign_aggr option \<Rightarrow> block_id \<Rightarrow> 'b sign_aggr option" where
  "SetMaj23 sa blockID = (case sa of None \<Rightarrow> None | Some a \<Rightarrow> Some a)"

definition SignAggr_Size :: "'b sign_aggr option \<Rightarrow> int" where
  "SignAggr_Size sa = (case sa of None \<Rightarrow> 0 | Some a \<Rightarrow> sa_NumValidators a)"

definition SetBitArray :: "'b ext \<Rightarrow> 'b sign_aggr option \<Rightarrow> 'b option \<Rightarrow> 'b sign_aggr option" where
  "SetBitArray E sa newBitArray =
     (case sa of None \<Rightarrow> None
      | Some a \<Rightarrow> Some (a\<lparr>sa_BitArray := BA_Update E (sa_BitArray a) newBitArray\<rparr>))"

definition SignAggr_IsCommit :: "'b sign_aggr option \<Rightarrow> bool" where
  "SignAggr_IsCommit sa =
     (case sa of
        None \<Rightarrow> False
      | Some a \<Rightarrow> if sa_Type a \<noteq> VoteTypePrecommit then False
                  else BlockID_IsZero (sa_Maj23 a) \<noteq> False)"

definition MakeCommit :: "'b ext \<Rightarrow> 'b sign_aggr option \<Rightarrow> 'b commit option" where
  "MakeCommit E sa =
     (case sa of
        None \<Rightarrow> None
      | Some a \<Rightarrow> Some \<lparr>com_BlockID = sa_Maj23 a, com_Height = sa_Height a, com_Round = sa_Round a,
          com_SignAggr = SignAggr_SignAggr sa, com_BitArray = BA_Copy E (sa_BitArray a)\<rparr>)"

text \<open>The message is nil or a byte slice; a nil aggregate key panics.\<close>

definition SignAggrVerify ::
  "'b ext \<Rightarrow> 'b sign_aggr option \<Rightarrow> bytes option \<Rightarrow> validator_set option \<Rightarrow> bool option" where
  "SignAggrVerify E sa msg vals =
     (if msg = None \<or> vals = None then Some False
      else case sa of
          None \<Rightarrow> None
        | Some a \<Rightarrow>
            if BA_Size E (sa_BitArray a) \<noteq> length (Validators (the vals)) then Some False
            else case AggrPubKey E (the vals) (sa_BitArray a) of
                None \<Rightarrow> None
              | Some pubKey \<Rightarrow>
                  if PubKey_VerifyBytes E pubKey (the msg) (sa_SignatureAggr a)
                  then SignAggr_HasTwoThirdsMajority E sa vals
                  else Some False)"

definition SignAggr_HasAll :: "'b sign_aggr \<Rightarrow> validator_set \<Rightarrow> bool" where
  "SignAggr_HasAll a vals \<longleftrightarrow> sa_Sum a = TotalVotingPower vals"

definition SignAggr_TwoThirdsMajority :: "'b sign_aggr option \<Rightarrow> block_id \<times> bool" where
  "SignAggr_TwoThirdsMajority sa =
     (case sa of
        None \<Rightarrow> (zero_block_id, False)
      | Some a \<Rightarrow> if BlockID_IsZero (sa_Maj23 a) then (zero_block_id, False) else (sa_Maj23 a, True))"

subsection \<open>Verified aggregates\<close>

lemma SignAggrVerify_iff:
  "SignAggrVerify E (Some a) (Some msg) (Some s) = Some True \<longleftrightarrow>
     sa_BitArray a \<noteq> None \<and> BA_Size E (sa_BitArray a) = Size s \<and>
     (\<exists>pk. AggrPubKey E s (sa_BitArray a) = Some pk \<and>
        PubKey_VerifyBytes E pk msg (sa_SignatureAggr a)) \<and>
     Loose23MajorThreshold (total_power s) (sa_Round a) \<le> sum (power_of s) (bits E (sa_BitArray a))"
  by (auto simp: SignAggrVerify_def SignAggr_HasTwoThirdsMajority_def TalliedVotingPower_eq
      AggrPubKey_def Size_def Let_def split: option.splits if_splits)

lemma AggrPubKey_Copy:
  assumes "bit_array_laws E"
  shows "AggrPubKey E s (BA_Copy E b) = AggrPubKey E s b"
proof -
  have "BA_GetIndex E (BA_Copy E b) = BA_GetIndex E b"
    by (rule ext) (simp add: bit_array_lawsD(9) [OF assms])
  then show ?thesis
    by (simp add: AggrPubKey_def bit_array_lawsD(7,8) [OF assms])
qed

lemma bits_Copy: "bit_array_laws E \<Longrightarrow> bits E (BA_Copy E b) = bits E b"
  by (simp add: bits_def bit_array_lawsD)

definition sample_aggr :: "bytes \<Rightarrow> bool list sign_aggr" where
  "sample_aggr hash = MakeSignAggr 1 0 VoteTypePrecommit 4
     \<lparr>bid_Hash = hash, bid_PartsHeader = zero_psh\<rparr> ''neat'' (Some [True, True, False, False])
     ([1, 2] @ VoteTypePrecommit # hash)"

subsection \<open>Properties\<close>

text \<open>
  C27: An aggregate of precommits whose signature verifies over the vote for its majority block, as
  \<open>SignAggrVerify\<close> checks, becomes by \<open>MakeCommit\<close> a commit that \<open>VerifyCommit\<close> accepts for the same
  validator set, chain and height.
\<close>

theorem verified_aggregate_commits:
  assumes "bit_array_laws E" and "MakeCommit E (Some a) = Some c"
    and "SignAggrVerify E (Some a) (Some (Vote_SignBytes E chainID (commit_vote c))) (Some s) = Some True"
  shows "VerifyCommit E s chainID (sa_Height a) (Some c) = Some (Inr ())"
proof -
  have c: "com_BitArray c = BA_Copy E (sa_BitArray a)" "com_Height c = sa_Height a"
    "com_Round c = sa_Round a" "com_SignAggr c = sa_SignatureAggr a"
    using assms(2) by (auto simp: MakeCommit_def SignAggr_SignAggr_def)
  show ?thesis
    using assms(1,3) bit_array_lawsD(7,8) [OF assms(1)]
    unfolding VerifyCommit_accepts_iff SignAggrVerify_iff c AggrPubKey_Copy [OF assms(1)]
      bits_Copy [OF assms(1)] by simp
qed

theorem verified_aggregate_commits_witness:
  "VerifyCommit sample_ext sample_valset ''neat'' 1 (MakeCommit sample_ext (Some (sample_aggr [7])))
     = Some (Inr ())"
proof -
  have "MakeCommit sample_ext (Some (sample_aggr [7])) = Some (the (MakeCommit sample_ext (Some (sample_aggr [7]))))"
    by (simp add: MakeCommit_def)
  moreover have "SignAggrVerify sample_ext (Some (sample_aggr [7])) (Some (Vote_SignBytes sample_ext ''neat''
      (commit_vote (the (MakeCommit sample_ext (Some (sample_aggr [7]))))))) (Some sample_valset) = Some True"
    "sa_Height (sample_aggr [7]) = 1"
    by code_simp+
  ultimately show ?thesis
    using verified_aggregate_commits [OF sample_ext_laws, of "sample_aggr [7]"] by metis
qed

end
