(* ===== verification/HeightVotes.thy ===== *)
theory HeightVotes
  imports VoteSets SignAggrs
begin

section \<open>Votes and aggregates of all rounds of a height\<close>

text \<open>
  The files \<open>height_vote_set.go\<close> and \<open>height_sign_aggr.go\<close>: tables indexed by round.  Both grow with
  \<open>SetRound\<close>, shrink with \<open>ResetTop2Round\<close> and answer \<open>POLInfo\<close>; the first also lets each peer open
  two rounds ahead.  What the round state machine needs of such a table is the locale
  \<open>round_table\<close>, interpreted for both.  The theory shows that rounds up to the current one are
  always present, that \<open>SetRound\<close> and \<open>ResetTop2Round\<close> panic exactly on the calls they forbid, that
  the number of rounds is bounded by the current round and the number of peers, and that the vote
  sets inside are reachable ones.
\<close>

subsection \<open>The table of vote sets\<close>

record 'b round_vote_set =
  rvs_Prevotes :: "'b vote_set"
  rvs_Precommits :: "'b vote_set"

record 'b height_vote_set =
  hvs_chainID :: chain_id
  hvs_height :: uint64
  hvs_valSet :: validator_set
  hvs_round :: int
  roundVoteSets :: "int \<rightharpoonup> 'b round_vote_set"
  peerCatchupRounds :: "string \<rightharpoonup> int list"

definition addRound :: "'b ext \<Rightarrow> 'b height_vote_set \<Rightarrow> int \<Rightarrow> 'b height_vote_set option" where
  "addRound E hvs rnd =
     (if roundVoteSets hvs rnd \<noteq> None then None
      else case (NewVoteSet E (hvs_chainID hvs) (hvs_height hvs) rnd VoteTypePrevote (hvs_valSet hvs),
                 NewVoteSet E (hvs_chainID hvs) (hvs_height hvs) rnd VoteTypePrecommit (hvs_valSet hvs)) of
          (Some prevotes, Some precommits) \<Rightarrow>
            Some (hvs\<lparr>roundVoteSets := (roundVoteSets hvs)
              (rnd \<mapsto> \<lparr>rvs_Prevotes = prevotes, rvs_Precommits = precommits\<rparr>)\<rparr>)
        | _ \<Rightarrow> None)"

definition hvs_Reset ::
  "'b ext \<Rightarrow> 'b height_vote_set \<Rightarrow> uint64 \<Rightarrow> validator_set \<Rightarrow> 'b height_vote_set option" where
  "hvs_Reset E hvs height vals =
     (case addRound E (hvs\<lparr>hvs_height := height, hvs_valSet := vals, roundVoteSets := Map.empty,
                           peerCatchupRounds := Map.empty\<rparr>) 0 of
        None \<Rightarrow> None
      | Some hvs \<Rightarrow> Some (hvs\<lparr>hvs_round := 0\<rparr>))"

definition NewHeightVoteSet ::
  "'b ext \<Rightarrow> chain_id \<Rightarrow> uint64 \<Rightarrow> validator_set \<Rightarrow> 'b height_vote_set option" where
  "NewHeightVoteSet E chainID height vals =
     hvs_Reset E \<lparr>hvs_chainID = chainID, hvs_height = 0, hvs_valSet = vals, hvs_round = 0,
       roundVoteSets = Map.empty, peerCatchupRounds = Map.empty\<rparr> height vals"

text \<open>The body of the loop in \<open>SetRound\<close> over the rounds to add.\<close>

fun addRounds :: "'b ext \<Rightarrow> 'b height_vote_set \<Rightarrow> int list \<Rightarrow> 'b height_vote_set option" where
  "addRounds E hvs [] = Some hvs"
| "addRounds E hvs (r # rs) =
     (if roundVoteSets hvs r \<noteq> None then addRounds E hvs rs
      else case addRound E hvs r of None \<Rightarrow> None | Some hvs \<Rightarrow> addRounds E hvs rs)"

definition hvs_SetRound :: "'b ext \<Rightarrow> 'b height_vote_set \<Rightarrow> int \<Rightarrow> 'b height_vote_set option" where
  "hvs_SetRound E hvs rnd =
     (if hvs_round hvs \<noteq> 0 \<and> rnd < hvs_round hvs + 1 then None
      else case addRounds E hvs [hvs_round hvs + 1..rnd] of
          None \<Rightarrow> None
        | Some hvs \<Rightarrow> Some (hvs\<lparr>hvs_round := rnd\<rparr>))"

definition hvs_ResetTop2Round :: "'b ext \<Rightarrow> 'b height_vote_set \<Rightarrow> int \<Rightarrow> 'b height_vote_set option" where
  "hvs_ResetTop2Round E hvs rnd =
     (if hvs_round hvs < rnd \<or> rnd < 1 then None
      else
        let hvs = hvs\<lparr>roundVoteSets :=
              fold (\<lambda>r m. m(r := None)) [rnd - 1..hvs_round hvs] (roundVoteSets hvs)\<rparr>
        in case addRound E hvs (rnd - 1) of
             None \<Rightarrow> None
           | Some hvs \<Rightarrow>
               (case addRound E hvs rnd of
                  None \<Rightarrow> None
                | Some hvs \<Rightarrow> Some (hvs\<lparr>hvs_round := rnd\<rparr>)))"

text \<open>The outer option is the panic on an unexpected vote type, the inner one a nil pointer.\<close>

definition getVoteSet :: "'b height_vote_set \<Rightarrow> int \<Rightarrow> byte \<Rightarrow> 'b vote_set option option" where
  "getVoteSet hvs rnd mtype =
     (case roundVoteSets hvs rnd of
        None \<Rightarrow> Some None
      | Some rvs \<Rightarrow>
          if mtype = VoteTypePrevote then Some (Some (rvs_Prevotes rvs))
          else if mtype = VoteTypePrecommit then Some (Some (rvs_Precommits rvs))
          else None)"

text \<open>Vote sets are shared by pointer: an update of one is an update of its table entry.\<close>

definition putVoteSet :: "'b height_vote_set \<Rightarrow> int \<Rightarrow> byte \<Rightarrow> 'b vote_set \<Rightarrow> 'b height_vote_set" where
  "putVoteSet hvs rnd mtype vs =
     (case roundVoteSets hvs rnd of
        None \<Rightarrow> hvs
      | Some rvs \<Rightarrow> hvs\<lparr>roundVoteSets := (roundVoteSets hvs)(rnd \<mapsto>
          (if mtype = VoteTypePrevote then rvs\<lparr>rvs_Prevotes := vs\<rparr> else rvs\<lparr>rvs_Precommits := vs\<rparr>))\<rparr>)"

datatype hvs_error = VoteError vote_error | UnwantedRounds

definition hvs_AddVote ::
  "'b ext \<Rightarrow> 'b height_vote_set \<Rightarrow> vote \<Rightarrow> string
    \<Rightarrow> ('b height_vote_set \<times> bool \<times> hvs_error option) option" where
  "hvs_AddVote E hvs v peerKey =
     (if \<not> IsVoteTypeValid (vote_Type v) then Some (hvs, False, None)
      else
        let rnd = int_of_u64 (vote_Round v);
            add = (\<lambda>hvs vs. case AddVote E (Some vs) v of
                None \<Rightarrow> None
              | Some (vs', added, err) \<Rightarrow>
                  Some (putVoteSet hvs rnd (vote_Type v) vs', added, map_option VoteError err))
        in case getVoteSet hvs rnd (vote_Type v) of
             None \<Rightarrow> None
           | Some (Some vs) \<Rightarrow> add hvs vs
           | Some None \<Rightarrow>
               let rndz = (case peerCatchupRounds hvs peerKey of None \<Rightarrow> [] | Some rs \<Rightarrow> rs) in
               if length rndz < 2
               then case addRound E hvs rnd of
                   None \<Rightarrow> None
                 | Some hvs \<Rightarrow>
                     (case getVoteSet hvs rnd (vote_Type v) of
                        Some (Some vs) \<Rightarrow>
                          add (hvs\<lparr>peerCatchupRounds :=
                                 (peerCatchupRounds hvs)(peerKey \<mapsto> rndz @ [rnd])\<rparr>) vs
                      | _ \<Rightarrow> None)
               else Some (hvs, False, Some UnwantedRounds))"

definition hvs_Prevotes :: "'b height_vote_set \<Rightarrow> int \<Rightarrow> 'b vote_set option" where
  "hvs_Prevotes hvs rnd = map_option rvs_Prevotes (roundVoteSets hvs rnd)"

definition hvs_Precommits :: "'b height_vote_set \<Rightarrow> int \<Rightarrow> 'b vote_set option" where
  "hvs_Precommits hvs rnd = map_option rvs_Precommits (roundVoteSets hvs rnd)"

text \<open>The search from the current round down to 0, for any table of majorities.\<close>

fun pol_search :: "(int \<Rightarrow> block_id \<times> bool) \<Rightarrow> int list \<Rightarrow> int \<times> block_id" where
  "pol_search maj [] = (-1, zero_block_id)"
| "pol_search maj (r # rs) = (if snd (maj r) then (r, fst (maj r)) else pol_search maj rs)"

definition hvs_POLInfo :: "'b height_vote_set \<Rightarrow> int \<times> block_id" where
  "hvs_POLInfo hvs =
     pol_search (\<lambda>r. VoteSet_TwoThirdsMajority (hvs_Prevotes hvs r)) (rev [0..hvs_round hvs])"

definition hvs_SetPeerMaj23 ::
  "'b ext \<Rightarrow> 'b height_vote_set \<Rightarrow> int \<Rightarrow> byte \<Rightarrow> string \<Rightarrow> block_id \<Rightarrow> 'b height_vote_set option" where
  "hvs_SetPeerMaj23 E hvs rnd mtype peerID blockID =
     (if \<not> IsVoteTypeValid mtype then Some hvs
      else case getVoteSet hvs rnd mtype of
          None \<Rightarrow> None
        | Some None \<Rightarrow> Some hvs
        | Some (Some vs) \<Rightarrow>
            (case SetPeerMaj23 E (Some vs) peerID blockID of
               None \<Rightarrow> None
             | Some vs' \<Rightarrow> Some (putVoteSet hvs rnd mtype vs')))"

subsection \<open>The table of aggregates\<close>

record 'b round_vote_sign_aggr =
  rsa_Prevotes :: "'b sign_aggr option"
  rsa_Precommits :: "'b sign_aggr option"

record 'b height_vote_sign_aggr =
  hsa_chainID :: chain_id
  hsa_height :: uint64
  hsa_valSet :: validator_set
  hsa_round :: int
  roundVoteSignAggrs :: "int \<rightharpoonup> 'b round_vote_sign_aggr"

definition hsa_addRound :: "'b height_vote_sign_aggr \<Rightarrow> int \<Rightarrow> 'b height_vote_sign_aggr option" where
  "hsa_addRound hsa rnd =
     (if roundVoteSignAggrs hsa rnd \<noteq> None then None
      else Some (hsa\<lparr>roundVoteSignAggrs := (roundVoteSignAggrs hsa)
             (rnd \<mapsto> \<lparr>rsa_Prevotes = None, rsa_Precommits = None\<rparr>)\<rparr>))"

definition hsa_Reset ::
  "'b height_vote_sign_aggr \<Rightarrow> uint64 \<Rightarrow> validator_set \<Rightarrow> 'b height_vote_sign_aggr option" where
  "hsa_Reset hsa height vals =
     (case hsa_addRound (hsa\<lparr>hsa_height := height, hsa_valSet := vals,
                             roundVoteSignAggrs := Map.empty\<rparr>) 0 of
        None \<Rightarrow> None
      | Some hsa \<Rightarrow> Some (hsa\<lparr>hsa_round := 0\<rparr>))"

definition NewHeightVoteSignAggr ::
  "chain_id \<Rightarrow> uint64 \<Rightarrow> validator_set \<Rightarrow> 'b height_vote_sign_aggr option" where
  "NewHeightVoteSignAggr chainID height vals =
     hsa_Reset \<lparr>hsa_chainID = chainID, hsa_height = 0, hsa_valSet = vals, hsa_round = 0,
       roundVoteSignAggrs = Map.empty\<rparr> height vals"

fun hsa_addRounds :: "'b height_vote_sign_aggr \<Rightarrow> int list \<Rightarrow> 'b height_vote_sign_aggr option" where
  "hsa_addRounds hsa [] = Some hsa"
| "hsa_addRounds hsa (r # rs) =
     (if roundVoteSignAggrs hsa r \<noteq> None then hsa_addRounds hsa rs
      else case hsa_addRound hsa r of None \<Rightarrow> None | Some hsa \<Rightarrow> hsa_addRounds hsa rs)"

definition hsa_SetRound :: "'b height_vote_sign_aggr \<Rightarrow> int \<Rightarrow> 'b height_vote_sign_aggr option" where
  "hsa_SetRound hsa rnd =
     (if hsa_round hsa \<noteq> 0 \<and> rnd < hsa_round hsa + 1 then None
      else case hsa_addRounds hsa [hsa_round hsa + 1..rnd] of
          None \<Rightarrow> None
        | Some hsa \<Rightarrow> Some (hsa\<lparr>hsa_round := rnd\<rparr>))"

definition hsa_ResetTop2Round :: "'b height_vote_sign_aggr \<Rightarrow> int \<Rightarrow> 'b height_vote_sign_aggr option" where
  "hsa_ResetTop2Round hsa rnd =
     (if hsa_round hsa < rnd \<or> rnd < 1 then None
      else
        let hsa = hsa\<lparr>roundVoteSignAggrs :=
              fold (\<lambda>r m. m(r := None)) [rnd - 1..hsa_round hsa] (roundVoteSignAggrs hsa)\<rparr>
        in case hsa_addRound hsa (rnd - 1) of
             None \<Rightarrow> None
           | Some hsa \<Rightarrow>
               (case hsa_addRound hsa rnd of
                  None \<Rightarrow> None
                | Some hsa \<Rightarrow> Some (hsa\<lparr>hsa_round := rnd\<rparr>)))"

definition getSignAggr :: "'b height_vote_sign_aggr \<Rightarrow> int \<Rightarrow> byte \<Rightarrow> 'b sign_aggr option option" where
  "getSignAggr hsa rnd mtype =
     (case roundVoteSignAggrs hsa rnd of
        None \<Rightarrow> Some None
      | Some rsa \<Rightarrow>
          if mtype = VoteTypePrevote then Some (rsa_Prevotes rsa)
          else if mtype = VoteTypePrecommit then Some (rsa_Precommits rsa)
          else None)"

definition AddSignAggr ::
  "'b height_vote_sign_aggr \<Rightarrow> 'b sign_aggr \<Rightarrow> ('b height_vote_sign_aggr \<times> bool) option" where
  "AddSignAggr hsa a =
     (if \<not> IsVoteTypeValid (sa_Type a) then Some (hsa, False)
      else case getSignAggr hsa (sa_Round a) (sa_Type a) of
          None \<Rightarrow> None
        | Some (Some existing) \<Rightarrow> Some (hsa, False)
        | Some None \<Rightarrow>
            (case roundVoteSignAggrs hsa (sa_Round a) of
               None \<Rightarrow> Some (hsa, False)
             | Some rsa \<Rightarrow>
                 if sa_Type a = VoteTypePrevote
                 then Some (hsa\<lparr>roundVoteSignAggrs := (roundVoteSignAggrs hsa)
                        (sa_Round a \<mapsto> rsa\<lparr>rsa_Prevotes := Some a\<rparr>)\<rparr>, True)
                 else if sa_Type a = VoteTypePrecommit
                 then Some (hsa\<lparr>roundVoteSignAggrs := (roundVoteSignAggrs hsa)
                        (sa_Round a \<mapsto> rsa\<lparr>rsa_Precommits := Some a\<rparr>)\<rparr>, True)
                 else Some (hsa, False)))"

definition hsa_Prevotes :: "'b height_vote_sign_aggr \<Rightarrow> int \<Rightarrow> 'b sign_aggr option" where
  "hsa_Prevotes hsa rnd = Option.bind (roundVoteSignAggrs hsa rnd) rsa_Prevotes"

definition hsa_Precommits :: "'b height_vote_sign_aggr \<Rightarrow> int \<Rightarrow> 'b sign_aggr option" where
  "hsa_Precommits hsa rnd = Option.bind (roundVoteSignAggrs hsa rnd) rsa_Precommits"

definition hsa_POLInfo :: "'b height_vote_sign_aggr \<Rightarrow> int \<times> block_id" where
  "hsa_POLInfo hsa =
     pol_search (\<lambda>r. SignAggr_TwoThirdsMajority (hsa_Prevotes hsa r)) (rev [0..hsa_round hsa])"

subsection \<open>The interface of a round table\<close>

text \<open>
  What the state machine relies on: which rounds are tracked, and that moving to a later round or
  resetting the top two rounds succeeds except on the calls that the code forbids.
\<close>

locale round_table =
  fixes inv :: "'s \<Rightarrow> bool"
    and cur :: "'s \<Rightarrow> int"
    and tracked :: "'s \<Rightarrow> int set"
    and setRound :: "'s \<Rightarrow> int \<Rightarrow> 's option"
    and resetTop2 :: "'s \<Rightarrow> int \<Rightarrow> 's option"
  assumes setRound_panics: "inv s \<Longrightarrow> setRound s r = None \<longleftrightarrow> cur s \<noteq> 0 \<and> r \<le> cur s"
    and setRound_effect: "inv s \<Longrightarrow> setRound s r = Some s' \<Longrightarrow>
      inv s' \<and> cur s' = r \<and> tracked s' = tracked s \<union> {cur s + 1..r}"
    and resetTop2_panics: "inv s \<Longrightarrow> resetTop2 s r = None \<longleftrightarrow> r < 1 \<or> cur s < r"
    and resetTop2_effect: "inv s \<Longrightarrow> resetTop2 s r = Some s' \<Longrightarrow>
      inv s' \<and> cur s' = r \<and> tracked s' = (tracked s - {r - 1..cur s}) \<union> {r - 1, r}"
begin

lemma setRound_dense:
  assumes "inv s" and "setRound s r = Some s'" and "{0..cur s} \<subseteq> tracked s" and "0 \<le> r"
  shows "{0..cur s'} \<subseteq> tracked s'"
  using setRound_effect [OF assms(1,2)] assms(3,4) by auto

lemma resetTop2_dense:
  assumes "inv s" and "resetTop2 s r = Some s'" and "{0..cur s} \<subseteq> tracked s"
  shows "{0..cur s'} \<subseteq> tracked s'"
  using resetTop2_effect [OF assms(1,2)] resetTop2_panics [OF assms(1), of r] assms(2,3) by force

lemma reset_then_advance:
  assumes "inv s" and "1 \<le> r" and "r \<le> cur s" and "r < r'"
  obtains s1 s2 where "resetTop2 s r = Some s1" and "setRound s1 r' = Some s2" and "cur s2 = r'"
    and "tracked s2 = (tracked s - {r - 1..cur s}) \<union> {r - 1..r'}"
proof -
  obtain s1 where s1: "resetTop2 s r = Some s1"
    using resetTop2_panics [OF assms(1), of r] assms(2,3) by fastforce
  note e1 = resetTop2_effect [OF assms(1) s1]
  obtain s2 where s2: "setRound s1 r' = Some s2"
    using setRound_panics [of s1 r'] e1 assms(4) by (cases "setRound s1 r'") auto
  have e2: "cur s2 = r' \<and> tracked s2 = tracked s1 \<union> {r + 1..r'}"
    using setRound_effect [OF _ s2] e1 by simp
  have "{r - 1, r} \<union> {r + 1..r'} = {r - 1..r'}" using assms(4) by auto
  then have "tracked s2 = (tracked s - {r - 1..cur s}) \<union> {r - 1..r'}"
    using e1 e2 by (simp only: Un_assoc)
  then show thesis by (rule that [OF s1 s2 conjunct1 [OF e2]])
qed

end

subsection \<open>The table of vote sets as a round table\<close>

definition new_rvs :: "'b ext \<Rightarrow> 'b height_vote_set \<Rightarrow> int \<Rightarrow> 'b round_vote_set" where
  "new_rvs E hvs r =
     \<lparr>rvs_Prevotes = the (NewVoteSet E (hvs_chainID hvs) (hvs_height hvs) r VoteTypePrevote (hvs_valSet hvs)),
      rvs_Precommits =
        the (NewVoteSet E (hvs_chainID hvs) (hvs_height hvs) r VoteTypePrecommit (hvs_valSet hvs))\<rparr>"

lemma addRound_eq:
  "hvs_height hvs \<noteq> 0 \<Longrightarrow> addRound E hvs r =
     (if roundVoteSets hvs r \<noteq> None then None
      else Some (hvs\<lparr>roundVoteSets := (roundVoteSets hvs)(r \<mapsto> new_rvs E hvs r)\<rparr>))"
  by (simp add: addRound_def NewVoteSet_def new_rvs_def)

text \<open>The table after the missing rounds of a list have been opened.\<close>

definition open_rounds :: "'b ext \<Rightarrow> 'b height_vote_set \<Rightarrow> int set \<Rightarrow> 'b height_vote_set" where
  "open_rounds E hvs R =
     hvs\<lparr>roundVoteSets := (\<lambda>r. if r \<in> R \<and> roundVoteSets hvs r = None then Some (new_rvs E hvs r)
                                 else roundVoteSets hvs r)\<rparr>"

lemma new_rvs_cong [simp]: "new_rvs E (hvs\<lparr>roundVoteSets := m\<rparr>) r = new_rvs E hvs r"
  by (simp add: new_rvs_def)

lemma addRounds_eq:
  "hvs_height hvs \<noteq> 0 \<Longrightarrow> addRounds E hvs rs = Some (open_rounds E hvs (set rs))"
proof (induction rs arbitrary: hvs)
  case (Cons r rs)
  show ?case
  proof (cases "roundVoteSets hvs r")
    case None
    let ?hvs = "hvs\<lparr>roundVoteSets := (roundVoteSets hvs)(r \<mapsto> new_rvs E hvs r)\<rparr>"
    have "addRounds E ?hvs rs = Some (open_rounds E ?hvs (set rs))"
      by (rule Cons.IH) (use Cons.prems in simp)
    moreover have "open_rounds E ?hvs (set rs) = open_rounds E hvs (insert r (set rs))"
      using None by (auto simp: open_rounds_def fun_eq_iff)
    ultimately show ?thesis using None Cons.prems by (simp add: addRound_eq)
  next
    case (Some x)
    then have "open_rounds E hvs (set rs) = open_rounds E hvs (insert r (set rs))"
      by (auto simp: open_rounds_def fun_eq_iff)
    then show ?thesis using Some Cons by simp
  qed
qed (simp add: open_rounds_def)

lemma hvs_SetRound_eq:
  "hvs_height hvs \<noteq> 0 \<Longrightarrow> hvs_SetRound E hvs r =
     (if hvs_round hvs \<noteq> 0 \<and> r \<le> hvs_round hvs then None
      else Some ((open_rounds E hvs {hvs_round hvs + 1..r})\<lparr>hvs_round := r\<rparr>))"
  by (simp add: hvs_SetRound_def addRounds_eq)

lemma fold_delete: "fold (\<lambda>r m. m(r := None)) rs m = (\<lambda>r. if r \<in> set rs then None else m r)"
  by (induction rs arbitrary: m) (auto simp: fun_eq_iff)

lemma hvs_ResetTop2Round_eq:
  "hvs_height hvs \<noteq> 0 \<Longrightarrow> hvs_ResetTop2Round E hvs r =
     (if hvs_round hvs < r \<or> r < 1 then None
      else Some (hvs\<lparr>roundVoteSets := (\<lambda>q. if q \<in> {r - 1, r} then Some (new_rvs E hvs q)
                        else if q \<in> {r - 1..hvs_round hvs} then None else roundVoteSets hvs q),
                     hvs_round := r\<rparr>))"
  by (auto simp: hvs_ResetTop2Round_def fold_delete addRound_eq Let_def fun_eq_iff)

interpretation hvs_table: round_table "\<lambda>hvs. hvs_height hvs \<noteq> 0" hvs_round
  "\<lambda>hvs. dom (roundVoteSets hvs)" "hvs_SetRound E" "hvs_ResetTop2Round E" for E
proof
  fix hvs hvs' :: "'a height_vote_set" and r
  assume h: "hvs_height hvs \<noteq> 0"
  show "hvs_SetRound E hvs r = None \<longleftrightarrow> hvs_round hvs \<noteq> 0 \<and> r \<le> hvs_round hvs"
    using h by (simp add: hvs_SetRound_eq)
  show "hvs_ResetTop2Round E hvs r = None \<longleftrightarrow> r < 1 \<or> hvs_round hvs < r"
    using h by (auto simp: hvs_ResetTop2Round_eq)
  show "hvs_height hvs' \<noteq> 0 \<and> hvs_round hvs' = r \<and>
      dom (roundVoteSets hvs') = dom (roundVoteSets hvs) \<union> {hvs_round hvs + 1..r}"
    if "hvs_SetRound E hvs r = Some hvs'"
    using that h by (auto simp: hvs_SetRound_eq open_rounds_def split: if_splits)
  show "hvs_height hvs' \<noteq> 0 \<and> hvs_round hvs' = r \<and> dom (roundVoteSets hvs') =
      (dom (roundVoteSets hvs) - {r - 1..hvs_round hvs}) \<union> {r - 1, r}"
    if "hvs_ResetTop2Round E hvs r = Some hvs'"
    using that h by (auto simp: hvs_ResetTop2Round_eq split: if_splits)
qed

subsection \<open>The table of aggregates as a round table\<close>

definition new_rsa :: "'b round_vote_sign_aggr" where
  "new_rsa = \<lparr>rsa_Prevotes = None, rsa_Precommits = None\<rparr>"

lemma hsa_addRounds_eq:
  "hsa_addRounds hsa rs = Some (hsa\<lparr>roundVoteSignAggrs := (\<lambda>r.
     if r \<in> set rs \<and> roundVoteSignAggrs hsa r = None then Some new_rsa else roundVoteSignAggrs hsa r)\<rparr>)"
proof (induction rs arbitrary: hsa)
  case (Cons r rs)
  then show ?case
    by (cases "roundVoteSignAggrs hsa r") (auto simp: hsa_addRound_def new_rsa_def fun_eq_iff)
qed simp

lemma hsa_SetRound_eq:
  "hsa_SetRound hsa r =
     (if hsa_round hsa \<noteq> 0 \<and> r \<le> hsa_round hsa then None
      else Some (hsa\<lparr>roundVoteSignAggrs := (\<lambda>q. if q \<in> {hsa_round hsa + 1..r} \<and>
              roundVoteSignAggrs hsa q = None then Some new_rsa else roundVoteSignAggrs hsa q),
            hsa_round := r\<rparr>))"
  by (simp add: hsa_SetRound_def hsa_addRounds_eq)

lemma hsa_ResetTop2Round_eq:
  "hsa_ResetTop2Round hsa r =
     (if hsa_round hsa < r \<or> r < 1 then None
      else Some (hsa\<lparr>roundVoteSignAggrs := (\<lambda>q. if q \<in> {r - 1, r} then Some new_rsa
              else if q \<in> {r - 1..hsa_round hsa} then None else roundVoteSignAggrs hsa q),
            hsa_round := r\<rparr>))"
  by (auto simp: hsa_ResetTop2Round_def fold_delete hsa_addRound_def new_rsa_def Let_def fun_eq_iff)

interpretation hsa_table: round_table "\<lambda>hsa. True" hsa_round
  "\<lambda>hsa. dom (roundVoteSignAggrs hsa)" hsa_SetRound hsa_ResetTop2Round
proof
  fix hsa hsa' :: "'a height_vote_sign_aggr" and r
  show "hsa_SetRound hsa r = None \<longleftrightarrow> hsa_round hsa \<noteq> 0 \<and> r \<le> hsa_round hsa"
    by (simp add: hsa_SetRound_eq)
  show "hsa_ResetTop2Round hsa r = None \<longleftrightarrow> r < 1 \<or> hsa_round hsa < r"
    by (auto simp: hsa_ResetTop2Round_eq)
  show "True \<and> hsa_round hsa' = r \<and>
      dom (roundVoteSignAggrs hsa') = dom (roundVoteSignAggrs hsa) \<union> {hsa_round hsa + 1..r}"
    if "hsa_SetRound hsa r = Some hsa'"
    using that by (auto simp: hsa_SetRound_eq split: if_splits)
  show "True \<and> hsa_round hsa' = r \<and> dom (roundVoteSignAggrs hsa') =
      (dom (roundVoteSignAggrs hsa) - {r - 1..hsa_round hsa}) \<union> {r - 1, r}"
    if "hsa_ResetTop2Round hsa r = Some hsa'"
    using that by (auto simp: hsa_ResetTop2Round_eq split: if_splits)
qed

subsection \<open>Reachable tables\<close>

definition set_for :: "'b ext \<Rightarrow> 'b height_vote_set \<Rightarrow> int \<Rightarrow> byte \<Rightarrow> 'b vote_set \<Rightarrow> bool" where
  "set_for E hvs r t vs \<longleftrightarrow>
     reachable E vs \<and> vs_chainID vs = hvs_chainID hvs \<and> vs_height vs = hvs_height hvs \<and>
     vs_round vs = r \<and> vs_type vs = t \<and> valSet vs = hvs_valSet hvs"

definition hvs_wf :: "'b ext \<Rightarrow> 'b height_vote_set \<Rightarrow> bool" where
  "hvs_wf E hvs \<longleftrightarrow>
     hvs_height hvs \<noteq> 0 \<and> nonneg_powers (hvs_valSet hvs) \<and> 0 \<le> hvs_round hvs \<and>
     {0..hvs_round hvs} \<subseteq> dom (roundVoteSets hvs) \<and>
     (\<forall>r rvs. roundVoteSets hvs r = Some rvs \<longrightarrow>
        set_for E hvs r VoteTypePrevote (rvs_Prevotes rvs) \<and>
        set_for E hvs r VoteTypePrecommit (rvs_Precommits rvs))"

text \<open>Rounds beyond the current one were opened for peers, at most two for each.\<close>

definition catchup_inv :: "'b height_vote_set \<Rightarrow> bool" where
  "catchup_inv hvs \<longleftrightarrow>
     finite (dom (peerCatchupRounds hvs)) \<and>
     (\<forall>p rs. peerCatchupRounds hvs p = Some rs \<longrightarrow> length rs \<le> 2) \<and>
     dom (roundVoteSets hvs) \<subseteq> {0..hvs_round hvs} \<union> (\<Union>rs \<in> ran (peerCatchupRounds hvs). set rs)"

lemma catchup_inv_rounds:
  assumes "catchup_inv hvs" and "peerCatchupRounds hvs' = peerCatchupRounds hvs"
    and "\<And>U. dom (roundVoteSets hvs) \<subseteq> {0..hvs_round hvs} \<union> U \<Longrightarrow>
      dom (roundVoteSets hvs') \<subseteq> {0..hvs_round hvs'} \<union> U"
  shows "catchup_inv hvs'"
  using assms(1) assms(3) [of "\<Union>rs \<in> ran (peerCatchupRounds hvs). set rs"]
  unfolding catchup_inv_def assms(2) by simp

inductive hvs_reachable :: "'b ext \<Rightarrow> 'b height_vote_set \<Rightarrow> bool" for E where
  new: "nonneg_powers vals \<Longrightarrow> NewHeightVoteSet E c h vals = Some hvs \<Longrightarrow> hvs_reachable E hvs"
| set: "hvs_reachable E hvs \<Longrightarrow> 0 \<le> r \<Longrightarrow> hvs_SetRound E hvs r = Some hvs' \<Longrightarrow> hvs_reachable E hvs'"
| top2: "hvs_reachable E hvs \<Longrightarrow> hvs_ResetTop2Round E hvs r = Some hvs' \<Longrightarrow> hvs_reachable E hvs'"
| vote: "hvs_reachable E hvs \<Longrightarrow> hvs_AddVote E hvs v p = Some (hvs', a, err) \<Longrightarrow> hvs_reachable E hvs'"
| peer: "hvs_reachable E hvs \<Longrightarrow> hvs_SetPeerMaj23 E hvs r t p b = Some hvs' \<Longrightarrow> hvs_reachable E hvs'"

lemma set_for_new:
  assumes "hvs_height hvs \<noteq> 0" and "nonneg_powers (hvs_valSet hvs)"
  shows "set_for E hvs r VoteTypePrevote (rvs_Prevotes (new_rvs E hvs r))"
    and "set_for E hvs r VoteTypePrecommit (rvs_Precommits (new_rvs E hvs r))"
  using assms
  by (auto simp: set_for_def new_rvs_def NewVoteSet_def intro: reachable.new)

lemma set_for_cong [simp]:
  "set_for E (hvs\<lparr>roundVoteSets := m\<rparr>) = set_for E hvs"
  "set_for E (hvs\<lparr>peerCatchupRounds := c\<rparr>) = set_for E hvs"
  "set_for E (hvs\<lparr>hvs_round := q\<rparr>) = set_for E hvs"
  by (simp_all add: set_for_def fun_eq_iff)

lemma config_kept:
  assumes "extends vs vs'" and "set_for E hvs r t vs" and "reachable E vs'"
  shows "set_for E hvs r t vs'"
  using assms by (simp add: set_for_def extends_def)

lemma hvs_wf_new:
  assumes "nonneg_powers vals" and "NewHeightVoteSet E c h vals = Some hvs"
  shows "hvs_wf E hvs \<and> catchup_inv hvs"
proof -
  define h0 :: "'a height_vote_set" where
    "h0 = \<lparr>hvs_chainID = c, hvs_height = h, hvs_valSet = vals, hvs_round = 0,
       roundVoteSets = Map.empty, peerCatchupRounds = Map.empty\<rparr>"
  have f: "hvs_height h0 = h" "hvs_valSet h0 = vals" "hvs_round h0 = 0" "roundVoteSets h0 = Map.empty"
      "peerCatchupRounds h0 = Map.empty" "h0\<lparr>hvs_round := 0\<rparr> = h0"
    by (simp_all add: h0_def)
  have run: "Some hvs = (case addRound E h0 0 of None \<Rightarrow> None | Some x \<Rightarrow> Some (x\<lparr>hvs_round := 0\<rparr>))"
    using assms(2) by (simp add: NewHeightVoteSet_def hvs_Reset_def h0_def)
  have h: "h \<noteq> 0"
    using run by (auto simp: addRound_def NewVoteSet_def f)
  have "hvs = h0\<lparr>roundVoteSets := [0 \<mapsto> new_rvs E h0 0], hvs_round := 0\<rparr>"
    using run addRound_eq [of h0 E 0] h by (simp add: f)
  then show ?thesis
    using h assms(1) set_for_new [of h0 E 0] by (simp add: hvs_wf_def catchup_inv_def f)
qed

lemma hvs_wf_SetRound:
  assumes "hvs_wf E hvs" and "catchup_inv hvs" and "0 \<le> r" and "hvs_SetRound E hvs r = Some hvs'"
  shows "hvs_wf E hvs' \<and> catchup_inv hvs'"
proof -
  have h: "hvs_height hvs \<noteq> 0" and nn: "nonneg_powers (hvs_valSet hvs)"
    using assms(1) by (simp_all add: hvs_wf_def)
  have hvs': "hvs' = (open_rounds E hvs {hvs_round hvs + 1..r})\<lparr>hvs_round := r\<rparr>"
    and up: "hvs_round hvs \<le> r"
    using assms(3,4) by (auto simp: hvs_SetRound_eq [OF h] split: if_splits)
  have "{0..hvs_round hvs'} \<subseteq> dom (roundVoteSets hvs')"
    by (rule hvs_table.setRound_dense [OF h assms(4) _ assms(3)]) (use assms(1) in \<open>simp add: hvs_wf_def\<close>)
  then have "hvs_wf E hvs'"
    using assms(1,3) set_for_new [OF h nn, of E]
    by (auto simp: hvs_wf_def hvs' open_rounds_def split: if_splits)
  moreover have "catchup_inv hvs'"
  proof (rule catchup_inv_rounds [OF assms(2)])
    show "peerCatchupRounds hvs' = peerCatchupRounds hvs" by (simp add: hvs' open_rounds_def)
    show "dom (roundVoteSets hvs') \<subseteq> {0..hvs_round hvs'} \<union> U"
      if "dom (roundVoteSets hvs) \<subseteq> {0..hvs_round hvs} \<union> U" for U
      using that hvs_table.setRound_effect [OF h assms(4)] up assms(1) by (auto simp: hvs_wf_def)
  qed
  ultimately show ?thesis by simp
qed

lemma hvs_wf_ResetTop2Round:
  assumes "hvs_wf E hvs" and "catchup_inv hvs" and "hvs_ResetTop2Round E hvs r = Some hvs'"
  shows "hvs_wf E hvs' \<and> catchup_inv hvs'"
proof -
  have h: "hvs_height hvs \<noteq> 0" and nn: "nonneg_powers (hvs_valSet hvs)"
    using assms(1) by (simp_all add: hvs_wf_def)
  have r: "1 \<le> r" "r \<le> hvs_round hvs"
    using assms(3) by (auto simp: hvs_ResetTop2Round_eq [OF h] split: if_splits)
  have hvs': "hvs' = hvs\<lparr>roundVoteSets := (\<lambda>q. if q \<in> {r - 1, r} then Some (new_rvs E hvs q)
                        else if q \<in> {r - 1..hvs_round hvs} then None else roundVoteSets hvs q),
                     hvs_round := r\<rparr>"
    using assms(3) r by (simp add: hvs_ResetTop2Round_eq [OF h])
  have "{0..hvs_round hvs'} \<subseteq> dom (roundVoteSets hvs')"
    by (rule hvs_table.resetTop2_dense [OF h assms(3)]) (use assms(1) in \<open>simp add: hvs_wf_def\<close>)
  then have "hvs_wf E hvs'"
    using assms(1) r set_for_new [OF h nn, of E]
    by (auto simp: hvs_wf_def hvs' split: if_splits)
  moreover have "catchup_inv hvs'"
  proof (rule catchup_inv_rounds [OF assms(2)])
    show "peerCatchupRounds hvs' = peerCatchupRounds hvs" by (simp add: hvs')
    show "dom (roundVoteSets hvs') \<subseteq> {0..hvs_round hvs'} \<union> U"
      if "dom (roundVoteSets hvs) \<subseteq> {0..hvs_round hvs} \<union> U" for U
      using that hvs_table.resetTop2_effect [OF h assms(3)] r by auto
  qed
  ultimately show ?thesis by simp
qed

lemma putVoteSet_wf:
  assumes "hvs_wf E hvs" and "roundVoteSets hvs r \<noteq> None" and "set_for E hvs r t vs"
    and "IsVoteTypeValid t"
  shows "hvs_wf E (putVoteSet hvs r t vs)"
proof -
  obtain rvs where rvs: "roundVoteSets hvs r = Some rvs" using assms(2) by auto
  have "t = VoteTypePrevote \<or> t = VoteTypePrecommit"
    using assms(4) by (auto simp: IsVoteTypeValid_def split: if_splits)
  then show ?thesis
    using assms(1,3) rvs by (auto simp: putVoteSet_def hvs_wf_def)
qed

lemma putVoteSet_same [simp]:
  "peerCatchupRounds (putVoteSet hvs r t vs) = peerCatchupRounds hvs"
  "hvs_round (putVoteSet hvs r t vs) = hvs_round hvs"
  "dom (roundVoteSets (putVoteSet hvs r t vs)) = dom (roundVoteSets hvs)"
  by (auto simp: putVoteSet_def split: option.splits)

lemma catchup_inv_put: "catchup_inv hvs \<Longrightarrow> catchup_inv (putVoteSet hvs r t vs)"
  by (simp add: catchup_inv_def)

lemma getVoteSet_valid:
  assumes "IsVoteTypeValid t"
  shows "getVoteSet hvs r t = Some (map_option
    (\<lambda>rvs. if t = VoteTypePrevote then rvs_Prevotes rvs else rvs_Precommits rvs) (roundVoteSets hvs r))"
  using assms by (auto simp: getVoteSet_def IsVoteTypeValid_def split: option.splits if_splits)

lemma getVoteSet_for:
  assumes "hvs_wf E hvs" and "IsVoteTypeValid t" and "getVoteSet hvs r t = Some (Some vs)"
  shows "set_for E hvs r t vs" and "roundVoteSets hvs r \<noteq> None"
  using assms by (auto simp: getVoteSet_valid hvs_wf_def IsVoteTypeValid_def split: if_splits)

lemma AddVote_put:
  assumes laws: "bit_array_laws E" and wf: "hvs_wf E hvs" and t: "IsVoteTypeValid (vote_Type v)"
    and get: "getVoteSet hvs r (vote_Type v) = Some (Some vs)"
    and run: "AddVote E (Some vs) v = Some (vs', a, err)"
  shows "hvs_wf E (putVoteSet hvs r (vote_Type v) vs')"
proof -
  have sf: "set_for E hvs r (vote_Type v) vs" by (rule getVoteSet_for(1) [OF wf t get])
  then have re: "reachable E vs" by (simp add: set_for_def)
  have "set_for E hvs r (vote_Type v) vs'"
    using config_kept [OF _ sf reachable.add [OF re run]] AddVote_step [OF laws reachable_wf [OF re laws] run]
    by blast
  then show ?thesis
    by (rule putVoteSet_wf [OF wf getVoteSet_for(2) [OF wf t get] _ t])
qed

lemma insert_cover: "D \<subseteq> A \<union> U \<Longrightarrow> U \<subseteq> V \<Longrightarrow> r \<in> V \<Longrightarrow> insert r D \<subseteq> A \<union> V"
  by blast

lemma catchup_open:
  assumes wf: "hvs_wf E hvs" and c: "catchup_inv hvs" and free: "roundVoteSets hvs r = None"
    and rs: "rs = (case peerCatchupRounds hvs p of None \<Rightarrow> [] | Some rs \<Rightarrow> rs)" "length rs < 2"
  shows "hvs_wf E (hvs\<lparr>roundVoteSets := (roundVoteSets hvs)(r \<mapsto> new_rvs E hvs r),
      peerCatchupRounds := (peerCatchupRounds hvs)(p \<mapsto> rs @ [r])\<rparr>)" (is "hvs_wf E ?hvs")
    and "catchup_inv (hvs\<lparr>roundVoteSets := (roundVoteSets hvs)(r \<mapsto> new_rvs E hvs r),
      peerCatchupRounds := (peerCatchupRounds hvs)(p \<mapsto> rs @ [r])\<rparr>)"
proof -
  show "hvs_wf E ?hvs"
    using wf set_for_new [of hvs E r] by (auto simp: hvs_wf_def)
  have grow: "(\<Union>q \<in> ran (peerCatchupRounds hvs). set q) \<subseteq> (\<Union>q \<in> ran (peerCatchupRounds ?hvs). set q)"
  proof
    fix x assume "x \<in> (\<Union>q \<in> ran (peerCatchupRounds hvs). set q)"
    then obtain p' q where q: "peerCatchupRounds hvs p' = Some q" "x \<in> set q" by (auto simp: ran_def)
    show "x \<in> (\<Union>q \<in> ran (peerCatchupRounds ?hvs). set q)"
    proof (cases "p' = p")
      case True
      then have "rs @ [r] \<in> ran (peerCatchupRounds ?hvs)" "x \<in> set (rs @ [r])"
        using q rs(1) by (auto simp: ran_def)
      then show ?thesis by blast
    next
      case False
      then have "q \<in> ran (peerCatchupRounds ?hvs)" using q by (auto simp: ran_def)
      then show ?thesis using q(2) by blast
    qed
  qed
  have "rs @ [r] \<in> ran (peerCatchupRounds ?hvs)" by (auto simp: ran_def)
  then have new: "r \<in> (\<Union>q \<in> ran (peerCatchupRounds ?hvs). set q)" by force
  have "dom (roundVoteSets ?hvs) = insert r (dom (roundVoteSets hvs))" "hvs_round ?hvs = hvs_round hvs"
    by simp_all
  moreover have "dom (roundVoteSets hvs) \<subseteq>
      {0..hvs_round hvs} \<union> (\<Union>q \<in> ran (peerCatchupRounds hvs). set q)"
    using c unfolding catchup_inv_def by simp
  ultimately have
    "dom (roundVoteSets ?hvs) \<subseteq> {0..hvs_round ?hvs} \<union> (\<Union>q \<in> ran (peerCatchupRounds ?hvs). set q)"
    using insert_cover [OF _ grow new] by (simp only:)
  then show "catchup_inv ?hvs"
    using c rs(2) unfolding catchup_inv_def by auto
qed

lemma hvs_wf_AddVote:
  assumes laws: "bit_array_laws E" and wf: "hvs_wf E hvs" and c: "catchup_inv hvs"
    and run: "hvs_AddVote E hvs v p = Some (hvs', a, err)"
  shows "hvs_wf E hvs' \<and> catchup_inv hvs'"
proof (cases "IsVoteTypeValid (vote_Type v)")
  case False
  then show ?thesis using run wf c by (simp add: hvs_AddVote_def)
next
  case t: True
  let ?r = "int_of_u64 (vote_Round v)"
  let ?rs = "case peerCatchupRounds hvs p of None \<Rightarrow> [] | Some rs \<Rightarrow> rs"
  have h: "hvs_height hvs \<noteq> 0" using wf by (simp add: hvs_wf_def)
  show ?thesis
  proof (cases "getVoteSet hvs ?r (vote_Type v) = Some None")
    case False
    then obtain vs where vs: "getVoteSet hvs ?r (vote_Type v) = Some (Some vs)"
      using getVoteSet_valid [OF t, of hvs ?r] by (cases "roundVoteSets hvs ?r") auto
    then obtain vs' e where step: "AddVote E (Some vs) v = Some (vs', a, e)"
      and "hvs' = putVoteSet hvs ?r (vote_Type v) vs'"
      using run t by (auto simp: hvs_AddVote_def Let_def split: option.splits prod.splits)
    then show ?thesis
      using AddVote_put [OF laws wf t vs step] catchup_inv_put [OF c] by simp
  next
    case True
    then have free: "roundVoteSets hvs ?r = None" by (simp add: getVoteSet_valid [OF t])
    show ?thesis
    proof (cases "length ?rs < 2")
      case False
      then show ?thesis using run t True wf c by (auto simp: hvs_AddVote_def Let_def)
    next
      case short: True
      let ?hvs = "hvs\<lparr>roundVoteSets := (roundVoteSets hvs)(?r \<mapsto> new_rvs E hvs ?r),
          peerCatchupRounds := (peerCatchupRounds hvs)(p \<mapsto> ?rs @ [?r])\<rparr>"
      note open_wf = catchup_open [OF wf c free refl short]
      let ?vs = "if vote_Type v = VoteTypePrevote then rvs_Prevotes (new_rvs E hvs ?r)
          else rvs_Precommits (new_rvs E hvs ?r)"
      have get: "getVoteSet ?hvs ?r (vote_Type v) = Some (Some ?vs)"
        "getVoteSet (hvs\<lparr>roundVoteSets := (roundVoteSets hvs)(?r \<mapsto> new_rvs E hvs ?r)\<rparr>) ?r (vote_Type v)
           = Some (Some ?vs)"
        by (simp_all add: getVoteSet_valid [OF t])
      obtain vs' e where step: "AddVote E (Some ?vs) v = Some (vs', a, e)"
        and "hvs' = putVoteSet ?hvs ?r (vote_Type v) vs'"
        using run t True short get(2)
        by (auto simp: hvs_AddVote_def Let_def addRound_eq [OF h] free split: option.splits)
      then show ?thesis
        using AddVote_put [OF laws open_wf(1) t get(1) step] catchup_inv_put [OF open_wf(2)] by simp
    qed
  qed
qed

lemma hvs_wf_SetPeerMaj23:
  assumes laws: "bit_array_laws E" and wf: "hvs_wf E hvs" and c: "catchup_inv hvs"
    and run: "hvs_SetPeerMaj23 E hvs r t p b = Some hvs'"
  shows "hvs_wf E hvs' \<and> catchup_inv hvs'"
proof (cases "IsVoteTypeValid t \<and> roundVoteSets hvs r \<noteq> None")
  case False
  then have "hvs' = hvs"
    using run by (auto simp: hvs_SetPeerMaj23_def getVoteSet_def split: if_splits)
  then show ?thesis using wf c by simp
next
  case True
  then have t: "IsVoteTypeValid t" by simp
  obtain vs where get: "getVoteSet hvs r t = Some (Some vs)"
    using True getVoteSet_valid [OF t, of hvs r] by auto
  have sf: "set_for E hvs r t vs" by (rule getVoteSet_for(1) [OF wf t get])
  then have re: "reachable E vs" by (simp add: set_for_def)
  obtain vs' where step: "SetPeerMaj23 E (Some vs) p b = Some vs'" and "hvs' = putVoteSet hvs r t vs'"
    using run t get by (auto simp: hvs_SetPeerMaj23_def split: option.splits)
  moreover have "set_for E hvs r t vs'"
    using config_kept [OF _ sf reachable.peer [OF re step]] SetPeerMaj23_step [OF laws reachable_wf [OF re laws] step]
    by blast
  ultimately show ?thesis
    using putVoteSet_wf [OF wf getVoteSet_for(2) [OF wf t get] _ t] catchup_inv_put [OF c] by simp
qed

lemma hvs_reachable_wf:
  "hvs_reachable E hvs \<Longrightarrow> bit_array_laws E \<Longrightarrow> hvs_wf E hvs \<and> catchup_inv hvs"
proof (induction rule: hvs_reachable.induct)
  case (new vals c h hvs)
  then show ?case by (intro hvs_wf_new)
next
  case (set hvs r hvs')
  then show ?case by (intro hvs_wf_SetRound [of E hvs r hvs']) simp_all
next
  case (top2 hvs r hvs')
  then show ?case by (intro hvs_wf_ResetTop2Round [of E hvs r hvs']) simp_all
next
  case (vote hvs v p hvs' a err)
  then show ?case by (intro hvs_wf_AddVote [of E hvs v p hvs' a err]) simp_all
next
  case (peer hvs r t p b hvs')
  then show ?case by (intro hvs_wf_SetPeerMaj23 [of E hvs r t p b hvs']) simp_all
qed

lemma catchup_card:
  assumes "catchup_inv hvs" and "0 \<le> hvs_round hvs"
  shows "finite (dom (roundVoteSets hvs))"
    and "card (dom (roundVoteSets hvs)) \<le> nat (hvs_round hvs) + 1 + 2 * card (dom (peerCatchupRounds hvs))"
proof -
  let ?P = "dom (peerCatchupRounds hvs)"
  let ?f = "\<lambda>p. set (the (peerCatchupRounds hvs p))"
  have fin: "finite ?P" and len: "\<And>p rs. peerCatchupRounds hvs p = Some rs \<Longrightarrow> length rs \<le> 2"
    using assms(1) by (auto simp: catchup_inv_def)
  have "(\<Union>rs \<in> ran (peerCatchupRounds hvs). set rs) \<subseteq> (\<Union>p \<in> ?P. ?f p)"
  proof
    fix x assume "x \<in> (\<Union>rs \<in> ran (peerCatchupRounds hvs). set rs)"
    then obtain p rs where "peerCatchupRounds hvs p = Some rs" "x \<in> set rs" by (auto simp: ran_def)
    then show "x \<in> (\<Union>p \<in> ?P. ?f p)" by (intro UN_I [of p]) auto
  qed
  then have sub: "dom (roundVoteSets hvs) \<subseteq> {0..hvs_round hvs} \<union> (\<Union>p \<in> ?P. ?f p)"
    using assms(1) unfolding catchup_inv_def by blast
  have finU: "finite (\<Union>p \<in> ?P. ?f p)" using fin by simp
  show "finite (dom (roundVoteSets hvs))"
    using sub finU by (meson finite_Un finite_atLeastAtMost_int finite_subset)
  have "card (\<Union>p \<in> ?P. ?f p) \<le> (\<Sum>p \<in> ?P. card (?f p))"
    using fin by (rule card_UN_le)
  also have "\<dots> \<le> (\<Sum>p \<in> ?P. 2)"
    using len by (intro sum_mono) (metis card_length domD le_trans option.sel)
  finally have "card (\<Union>p \<in> ?P. ?f p) \<le> 2 * card ?P" by simp
  moreover have "card (dom (roundVoteSets hvs)) \<le> card ({0..hvs_round hvs} \<union> (\<Union>p \<in> ?P. ?f p))"
    using sub finU by (intro card_mono) auto
  moreover have "card ({0..hvs_round hvs} \<union> (\<Union>p \<in> ?P. ?f p)) \<le> card {0..hvs_round hvs} + card (\<Union>p \<in> ?P. ?f p)"
    by (rule card_Un_le)
  ultimately show "card (dom (roundVoteSets hvs)) \<le> nat (hvs_round hvs) + 1 + 2 * card ?P"
    using assms(2) by simp
qed

lemma pol_search_spec:
  assumes "sorted_wrt (\<lambda>x y. y < x) rs" and "pol_search maj rs = (r, b)" and "\<forall>q \<in> set rs. 0 \<le> q"
  shows "(r \<in> set rs \<and> maj r = (b, True) \<and> (\<forall>q \<in> set rs. r < q \<longrightarrow> \<not> snd (maj q))) \<or>
    (r = -1 \<and> b = zero_block_id \<and> (\<forall>q \<in> set rs. \<not> snd (maj q)))"
  using assms
proof (induction rs)
  case (Cons q rs)
  show ?case
  proof (cases "snd (maj q)")
    case True
    then show ?thesis using Cons.prems by (cases "maj q") auto
  next
    case False
    then have "pol_search maj rs = (r, b)" using Cons.prems(2) by simp
    then show ?thesis using Cons False by auto
  qed
qed simp

lemma sorted_rev_upto: "sorted_wrt (\<lambda>x y. y < x) (rev [i..j :: int])"
  by (simp add: sorted_wrt_rev)

subsection \<open>A concrete table\<close>

definition sample_hvs :: "bool list height_vote_set" where
  "sample_hvs = the (NewHeightVoteSet sample_ext ''neat'' 1 sample_valset)"

definition sample_hvs_vote :: "bool list height_vote_set" where
  "sample_hvs_vote = fst (the (hvs_AddVote sample_ext sample_hvs
     ((sample_vote 1 0 [7])\<lparr>vote_Round := 5\<rparr>) ''peer''))"

lemma sample_hvs_reachable:
  "hvs_reachable sample_ext sample_hvs" "hvs_reachable sample_ext sample_hvs_vote"
proof -
  have ne: "NewHeightVoteSet sample_ext ''neat'' 1 sample_valset \<noteq> None"
    "hvs_AddVote sample_ext sample_hvs ((sample_vote 1 0 [7])\<lparr>vote_Round := 5\<rparr>) ''peer'' \<noteq> None"
    by code_simp+
  show r: "hvs_reachable sample_ext sample_hvs"
    by (rule hvs_reachable.new [of sample_valset _ "''neat''" 1]) (use ne(1) in \<open>simp_all add: sample_hvs_def\<close>)
  obtain x y z where "hvs_AddVote sample_ext sample_hvs ((sample_vote 1 0 [7])\<lparr>vote_Round := 5\<rparr>) ''peer'' =
      Some (x, y, z)"
    using ne(2) by (metis not_None_eq surj_pair)
  then show "hvs_reachable sample_ext sample_hvs_vote"
    using hvs_reachable.vote [OF r] by (simp add: sample_hvs_vote_def)
qed

subsection \<open>Properties\<close>

text \<open>
  C28: In every reachable height vote set each round from 0 to the current one has its two vote sets;
  every vote set in the table is a reachable vote set for this chain, height, validator set, its own
  round and its own type; and the number of rounds is at most the current round plus one plus two
  for every peer that sent votes.
\<close>

theorem height_vote_set_invariant:
  assumes "bit_array_laws E" and "hvs_reachable E hvs"
  shows "(\<forall>r. 0 \<le> r \<and> r \<le> hvs_round hvs \<longrightarrow> hvs_Prevotes hvs r \<noteq> None \<and> hvs_Precommits hvs r \<noteq> None) \<and>
    (\<forall>r vs. hvs_Prevotes hvs r = Some vs \<longrightarrow> set_for E hvs r VoteTypePrevote vs) \<and>
    (\<forall>r vs. hvs_Precommits hvs r = Some vs \<longrightarrow> set_for E hvs r VoteTypePrecommit vs) \<and>
    finite (dom (roundVoteSets hvs)) \<and>
    card (dom (roundVoteSets hvs)) \<le> nat (hvs_round hvs) + 1 + 2 * card (dom (peerCatchupRounds hvs))"
proof -
  have wf: "hvs_wf E hvs" and c: "catchup_inv hvs" and nn: "0 \<le> hvs_round hvs"
    using hvs_reachable_wf [OF assms(2,1)] by (auto simp: hvs_wf_def)
  have dense: "roundVoteSets hvs r \<noteq> None" if "0 \<le> r" "r \<le> hvs_round hvs" for r
  proof -
    have "r \<in> dom (roundVoteSets hvs)" using wf that unfolding hvs_wf_def by (meson atLeastAtMost_iff subsetD)
    then show ?thesis by auto
  qed
  show ?thesis
    using dense wf catchup_card [OF c nn] by (auto simp: hvs_Prevotes_def hvs_Precommits_def hvs_wf_def)
qed

theorem height_vote_set_invariant_witness:
  "hvs_Prevotes sample_hvs_vote 0 \<noteq> None \<and>
   card (dom (roundVoteSets sample_hvs_vote)) \<le>
     nat (hvs_round sample_hvs_vote) + 1 + 2 * card (dom (peerCatchupRounds sample_hvs_vote))"
proof -
  have "hvs_round sample_hvs_vote = 0" by code_simp
  then show ?thesis
    using height_vote_set_invariant [OF sample_ext_laws sample_hvs_reachable(2)] by simp
qed

text \<open>
  C29: On a reachable height vote set, \<open>SetRound\<close> panics exactly when it does not move forward from
  a non-zero round, and \<open>ResetTop2Round\<close> exactly for rounds below 1 or above the current one; after
  resetting to a round the table can always advance again, and it then holds fresh vote sets for the
  two reset rounds and every later one.
\<close>

theorem round_moves:
  assumes "bit_array_laws E" and "hvs_reachable E hvs"
  shows "(hvs_SetRound E hvs r = None \<longleftrightarrow> hvs_round hvs \<noteq> 0 \<and> r \<le> hvs_round hvs) \<and>
    (hvs_ResetTop2Round E hvs r = None \<longleftrightarrow> r < 1 \<or> hvs_round hvs < r) \<and>
    (1 \<le> r \<and> r \<le> hvs_round hvs \<longrightarrow> (\<exists>h1 h2. hvs_ResetTop2Round E hvs r = Some h1 \<and>
       hvs_SetRound E h1 (r + 1) = Some h2 \<and> hvs_round h2 = r + 1 \<and>
       dom (roundVoteSets h2) = (dom (roundVoteSets hvs) - {r - 1..hvs_round hvs}) \<union> {r - 1..r + 1}))"
proof -
  have h: "hvs_height hvs \<noteq> 0"
    using hvs_reachable_wf [OF assms(2,1)] by (simp add: hvs_wf_def)
  show ?thesis
    using hvs_table.setRound_panics [OF h] hvs_table.resetTop2_panics [OF h]
      hvs_table.reset_then_advance [OF h, of r "r + 1" E] by (metis less_add_one)
qed

theorem round_moves_witness:
  "hvs_SetRound sample_ext sample_hvs 0 \<noteq> None \<and> hvs_ResetTop2Round sample_ext sample_hvs 1 = None"
proof -
  have "hvs_round sample_hvs = 0" by code_simp
  then show ?thesis
    using round_moves [OF sample_ext_laws sample_hvs_reachable(1), of 0]
      round_moves [OF sample_ext_laws sample_hvs_reachable(1), of 1] by simp
qed

text \<open>
  C30: \<open>POLInfo\<close> of both tables returns the latest round up to the current one whose prevotes have a
  majority, together with that block, and the round -1 with the zero block if there is none.
\<close>

theorem POLInfo_latest:
  "(hvs_POLInfo hvs = (r, b) \<longrightarrow>
      (0 \<le> r \<and> r \<le> hvs_round hvs \<and> VoteSet_TwoThirdsMajority (hvs_Prevotes hvs r) = (b, True) \<and>
       (\<forall>q. r < q \<and> q \<le> hvs_round hvs \<longrightarrow> \<not> snd (VoteSet_TwoThirdsMajority (hvs_Prevotes hvs q)))) \<or>
      (r = -1 \<and> b = zero_block_id \<and>
       (\<forall>q. 0 \<le> q \<and> q \<le> hvs_round hvs \<longrightarrow> \<not> snd (VoteSet_TwoThirdsMajority (hvs_Prevotes hvs q))))) \<and>
   (hsa_POLInfo hsa = (r', b') \<longrightarrow>
      (0 \<le> r' \<and> r' \<le> hsa_round hsa \<and> SignAggr_TwoThirdsMajority (hsa_Prevotes hsa r') = (b', True) \<and>
       (\<forall>q. r' < q \<and> q \<le> hsa_round hsa \<longrightarrow> \<not> snd (SignAggr_TwoThirdsMajority (hsa_Prevotes hsa q)))) \<or>
      (r' = -1 \<and> b' = zero_block_id \<and>
       (\<forall>q. 0 \<le> q \<and> q \<le> hsa_round hsa \<longrightarrow> \<not> snd (SignAggr_TwoThirdsMajority (hsa_Prevotes hsa q)))))"
proof (intro conjI impI)
  assume "hvs_POLInfo hvs = (r, b)"
  from pol_search_spec [OF sorted_rev_upto this [unfolded hvs_POLInfo_def]]
  show "(0 \<le> r \<and> r \<le> hvs_round hvs \<and> VoteSet_TwoThirdsMajority (hvs_Prevotes hvs r) = (b, True) \<and>
       (\<forall>q. r < q \<and> q \<le> hvs_round hvs \<longrightarrow> \<not> snd (VoteSet_TwoThirdsMajority (hvs_Prevotes hvs q)))) \<or>
      (r = -1 \<and> b = zero_block_id \<and>
       (\<forall>q. 0 \<le> q \<and> q \<le> hvs_round hvs \<longrightarrow> \<not> snd (VoteSet_TwoThirdsMajority (hvs_Prevotes hvs q))))"
    by auto
next
  assume "hsa_POLInfo hsa = (r', b')"
  from pol_search_spec [OF sorted_rev_upto this [unfolded hsa_POLInfo_def]]
  show "(0 \<le> r' \<and> r' \<le> hsa_round hsa \<and> SignAggr_TwoThirdsMajority (hsa_Prevotes hsa r') = (b', True) \<and>
       (\<forall>q. r' < q \<and> q \<le> hsa_round hsa \<longrightarrow> \<not> snd (SignAggr_TwoThirdsMajority (hsa_Prevotes hsa q)))) \<or>
      (r' = -1 \<and> b' = zero_block_id \<and>
       (\<forall>q. 0 \<le> q \<and> q \<le> hsa_round hsa \<longrightarrow> \<not> snd (SignAggr_TwoThirdsMajority (hsa_Prevotes hsa q))))"
    by auto
qed

theorem POLInfo_latest_witness:
  "fst (hvs_POLInfo sample_hvs) = -1"
proof -
  have none: "\<not> snd (VoteSet_TwoThirdsMajority (hvs_Prevotes sample_hvs 0))" "hvs_round sample_hvs = 0"
    by code_simp+
  obtain r b where "hvs_POLInfo sample_hvs = (r, b)" by (cases "hvs_POLInfo sample_hvs")
  then show ?thesis
    using POLInfo_latest [of sample_hvs r b] none by (metis fst_conv order_antisym snd_conv)
qed



end
