(* ===== verification/StateTypes.thy ===== *)
theory StateTypes
  imports ChainTypes "HOL-Library.AList"
begin

section \<open>Accounts, state objects and the journal's entries\<close>

text \<open>
  The data of \<open>core/state\<close>: \<open>Account\<close> and \<open>stateObject\<close> (\<open>state_object.go\<close>), the
  per-delegator balances of \<open>state_object_delegate.go\<close>, the journal entries of
  \<open>journal.go\<close> and the \<open>StateDB\<close> struct of \<open>statedb.go\<close>, together with the reads
  that look at one object only.

  A Merkle trie is represented by its contents and a root hash by the contents it
  commits to, so that opening a trie at a root and hashing it back are the identity.
  Contents that the code iterates over are association lists; contents it only looks
  up are maps.  The zero hash of a fresh \<open>Account\<close>, which the code distinguishes from
  the root of the empty trie, is \<^term>\<open>None\<close> in the field \<open>ProxiedRoot\<close>.  Values in
  a trie are stored decoded; a value is absent exactly when its encoding is empty.
  A trie in memory never fails to answer, so the memoised database error is only set by
  the content check of \<open>HasTX1\<close> and \<open>HasTX3\<close>.
\<close>

type_synonym address = bytes
type_synonym hash = bytes

definition HashLength :: nat where
  "HashLength = 32"

definition BytesToHash :: "bytes \<Rightarrow> hash" where
  "BytesToHash b =
     (let b = (if length b > HashLength then drop (length b - HashLength) b else b)
      in replicate (HashLength - length b) 0 @ b)"

lemma length_BytesToHash [simp]: "length (BytesToHash b) = HashLength"
  by (simp add: BytesToHash_def Let_def)

lemma BytesToHash_id: "length b = HashLength \<Longrightarrow> BytesToHash b = b"
  by (simp add: BytesToHash_def)

lemma BytesToHash_idem [simp]: "BytesToHash (BytesToHash b) = BytesToHash b"
  by (simp add: BytesToHash_id)

definition zero_hash :: hash where
  "zero_hash = replicate HashLength 0"

text \<open>\<open>crypto.Keccak256(nil)\<close>, the code hash of an account without code.\<close>

definition emptyCodeHash :: bytes where
  "emptyCodeHash =
     [0xc5, 0xd2, 0x46, 0x01, 0x86, 0xf7, 0x23, 0x3c, 0x92, 0x7e, 0x7d, 0xb2, 0xdc, 0xc7, 0x03, 0xc0,
      0xe5, 0x00, 0xb6, 0x53, 0xca, 0x82, 0x27, 0x3b, 0x7b, 0xfa, 0xd8, 0x04, 0x5d, 0x85, 0xa4, 0x70]"

lemma length_emptyCodeHash [simp]: "length emptyCodeHash = HashLength"
  by (simp add: emptyCodeHash_def HashLength_def)

text \<open>\<open>bytes.TrimLeft(b, "\x00")\<close>.\<close>

definition trim_zeros :: "bytes \<Rightarrow> bytes" where
  "trim_zeros b = dropWhile (\<lambda>x. x = 0) b"

subsection \<open>Per-delegator balances\<close>

record accountProxiedBalance =
  apb_ProxiedBalance :: int
  apb_DepositProxiedBalance :: int
  apb_PendingRefundBalance :: int

definition NewAccountProxiedBalance :: accountProxiedBalance where
  "NewAccountProxiedBalance =
     \<lparr>apb_ProxiedBalance = 0, apb_DepositProxiedBalance = 0, apb_PendingRefundBalance = 0\<rparr>"

text \<open>The receiver of these two methods may be nil: reading its fields is then a panic.\<close>

definition apb_Equal ::
  "accountProxiedBalance option \<Rightarrow> accountProxiedBalance option \<Rightarrow> bool option" where
  "apb_Equal a b =
     (case b of None \<Rightarrow> Some False
      | Some y \<Rightarrow> (case a of None \<Rightarrow> None
         | Some x \<Rightarrow> Some (apb_ProxiedBalance x = apb_ProxiedBalance y
                       \<and> apb_DepositProxiedBalance x = apb_DepositProxiedBalance y
                       \<and> apb_PendingRefundBalance x = apb_PendingRefundBalance y)))"

definition apb_IsEmpty :: "accountProxiedBalance option \<Rightarrow> bool option" where
  "apb_IsEmpty a =
     map_option (\<lambda>x. apb_ProxiedBalance x = 0 \<and> apb_DepositProxiedBalance x = 0
                   \<and> apb_PendingRefundBalance x = 0) a"

subsection \<open>Accounts\<close>

type_synonym proxied_trie = "(address \<times> accountProxiedBalance) list"
type_synonym reward_trie = "(address \<times> int) list"

record account =
  Nonce :: uint64
  Balance :: int
  DepositBalance :: int
  SideChainDepositBalance :: "(string \<times> int) list"
  ChainBalance :: int
  Root :: "hash \<rightharpoonup> hash"
  TX1Root :: "hash \<rightharpoonup> bytes"
  TX3Root :: "hash \<rightharpoonup> bytes"
  CodeHash :: bytes
  DelegateBalance :: int
  ProxiedBalance :: int
  DepositProxiedBalance :: int
  PendingRefundBalance :: int
  ProxiedRoot :: "proxied_trie option"
  Candidate :: bool
  Commission :: "8 word"
  BlockTime :: int
  BannedTime :: int
  IsBanned :: bool
  Pubkey :: string
  RewardBalance :: int
  AvailableRewardBalance :: int
  RewardRoot :: reward_trie

text \<open>The Go value \<open>Account{}\<close> after \<open>newObject\<close> has replaced its nil pointers.\<close>

definition new_account :: account where
  "new_account =
     \<lparr>Nonce = 0, Balance = 0, DepositBalance = 0, SideChainDepositBalance = [], ChainBalance = 0,
      Root = Map.empty, TX1Root = Map.empty, TX3Root = Map.empty, CodeHash = emptyCodeHash,
      DelegateBalance = 0, ProxiedBalance = 0, DepositProxiedBalance = 0, PendingRefundBalance = 0,
      ProxiedRoot = None, Candidate = False, Commission = 0, BlockTime = 0, BannedTime = 0,
      IsBanned = False, Pubkey = '''', RewardBalance = 0, AvailableRewardBalance = 0,
      RewardRoot = []\<rparr>"

text \<open>
  The nine big integers of an account that have an \<open>Add\<close>, a \<open>Sub\<close> and a \<open>Set\<close> method
  of the same shape.
\<close>

datatype balance_field = F_Balance | F_Deposit | F_Chain | F_Delegate | F_Proxied
  | F_DepositProxied | F_PendingRefund | F_Reward | F_AvailableReward

fun get_field :: "balance_field \<Rightarrow> account \<Rightarrow> int" where
  "get_field F_Balance = Balance"
| "get_field F_Deposit = DepositBalance"
| "get_field F_Chain = ChainBalance"
| "get_field F_Delegate = DelegateBalance"
| "get_field F_Proxied = ProxiedBalance"
| "get_field F_DepositProxied = DepositProxiedBalance"
| "get_field F_PendingRefund = PendingRefundBalance"
| "get_field F_Reward = RewardBalance"
| "get_field F_AvailableReward = AvailableRewardBalance"

fun put_field :: "balance_field \<Rightarrow> int \<Rightarrow> account \<Rightarrow> account" where
  "put_field F_Balance x d = d\<lparr>Balance := x\<rparr>"
| "put_field F_Deposit x d = d\<lparr>DepositBalance := x\<rparr>"
| "put_field F_Chain x d = d\<lparr>ChainBalance := x\<rparr>"
| "put_field F_Delegate x d = d\<lparr>DelegateBalance := x\<rparr>"
| "put_field F_Proxied x d = d\<lparr>ProxiedBalance := x\<rparr>"
| "put_field F_DepositProxied x d = d\<lparr>DepositProxiedBalance := x\<rparr>"
| "put_field F_PendingRefund x d = d\<lparr>PendingRefundBalance := x\<rparr>"
| "put_field F_Reward x d = d\<lparr>RewardBalance := x\<rparr>"
| "put_field F_AvailableReward x d = d\<lparr>AvailableRewardBalance := x\<rparr>"

lemma get_put_field [simp]:
  "get_field f (put_field g x d) = (if f = g then x else get_field f d)"
  by (cases f; cases g) simp_all

lemma put_put_field [simp]: "put_field f y (put_field f x d) = put_field f y d"
  by (cases f) simp_all

lemma put_get_field [simp]: "put_field f (get_field f d) d = d"
  by (cases f) simp_all

text \<open>Every other field of an account is untouched by \<^const>\<open>put_field\<close>.\<close>

lemma put_field_sel [simp]:
  "Nonce (put_field f x d) = Nonce d"
  "SideChainDepositBalance (put_field f x d) = SideChainDepositBalance d"
  "Root (put_field f x d) = Root d"
  "TX1Root (put_field f x d) = TX1Root d"
  "TX3Root (put_field f x d) = TX3Root d"
  "CodeHash (put_field f x d) = CodeHash d"
  "ProxiedRoot (put_field f x d) = ProxiedRoot d"
  "Candidate (put_field f x d) = Candidate d"
  "Commission (put_field f x d) = Commission d"
  "BlockTime (put_field f x d) = BlockTime d"
  "BannedTime (put_field f x d) = BannedTime d"
  "IsBanned (put_field f x d) = IsBanned d"
  "Pubkey (put_field f x d) = Pubkey d"
  "RewardRoot (put_field f x d) = RewardRoot d"
  by (cases f; simp)+

subsection \<open>State objects\<close>

text \<open>
  The nil-able values of the proxied and reward caches are options: a key may be cached
  with a nil value.  The callback \<open>onDirty\<close> is always \<open>StateDB.MarkStateObjectDirty\<close>;
  the field says whether it is still set.
\<close>

record state_object =
  so_address :: address
  so_data :: account
  so_dbErr :: bool
  so_code :: "bytes option"
  originStorage :: "hash \<rightharpoonup> hash"
  dirtyStorage :: "hash \<rightharpoonup> hash"
  dirtyTX1 :: "hash set"
  dirtyTX3 :: "hash set"
  originProxied :: "(address \<times> accountProxiedBalance option) list"
  dirtyProxied :: "(address \<times> accountProxiedBalance option) list"
  originReward :: "(address \<times> int option) list"
  dirtyReward :: "(address \<times> int option) list"
  dirtyCode :: bool
  suicided :: bool
  touched :: bool
  deleted :: bool
  onDirty :: bool

definition newObject :: "address \<Rightarrow> account \<Rightarrow> bool \<Rightarrow> state_object" where
  "newObject address data cb =
     \<lparr>so_address = address, so_data = data, so_dbErr = False, so_code = None,
      originStorage = Map.empty, dirtyStorage = Map.empty, dirtyTX1 = {}, dirtyTX3 = {},
      originProxied = [], dirtyProxied = [], originReward = [], dirtyReward = [],
      dirtyCode = False, suicided = False, touched = False, deleted = False,
      onDirty = cb\<rparr>"

text \<open>\<open>stateObject.empty\<close>; \<open>RewardBalance\<close> and the candidate fields are not looked at.\<close>

definition so_empty :: "state_object \<Rightarrow> bool" where
  "so_empty s =
     (let d = so_data s in
      Nonce d = 0 \<and> Balance d = 0 \<and> CodeHash d = emptyCodeHash \<and> DepositBalance d = 0
      \<and> length (SideChainDepositBalance d) = 0 \<and> ChainBalance d = 0 \<and> DelegateBalance d = 0
      \<and> ProxiedBalance d = 0 \<and> DepositProxiedBalance d = 0 \<and> PendingRefundBalance d = 0
      \<and> AvailableRewardBalance d = 0)"

definition proxiedTrie :: "state_object \<Rightarrow> proxied_trie" where
  "proxiedTrie s = (case ProxiedRoot (so_data s) of None \<Rightarrow> [] | Some t \<Rightarrow> t)"

text \<open>The part of a read that asks the storage trie; a missing entry is the zero hash.\<close>

definition committed_read :: "state_object \<Rightarrow> hash \<Rightarrow> hash" where
  "committed_read s key =
     (case originStorage s key of Some v \<Rightarrow> v
      | None \<Rightarrow> (case Root (so_data s) key of Some v \<Rightarrow> v | None \<Rightarrow> zero_hash))"

definition state_read :: "state_object \<Rightarrow> hash \<Rightarrow> hash" where
  "state_read s key = (case dirtyStorage s key of Some v \<Rightarrow> v | None \<Rightarrow> committed_read s key)"

definition proxied_read :: "state_object \<Rightarrow> address \<Rightarrow> accountProxiedBalance option" where
  "proxied_read s key =
     (case map_of (dirtyProxied s) key of Some v \<Rightarrow> v
      | None \<Rightarrow> (case map_of (originProxied s) key of Some v \<Rightarrow> v
         | None \<Rightarrow> map_of (proxiedTrie s) key))"

definition reward_read :: "state_object \<Rightarrow> address \<Rightarrow> int option" where
  "reward_read s key =
     (case map_of (dirtyReward s) key of Some v \<Rightarrow> v
      | None \<Rightarrow> (case map_of (originReward s) key of Some v \<Rightarrow> v
         | None \<Rightarrow> map_of (RewardRoot (so_data s)) key))"

text \<open>\<open>SideChainDepositBalance\<close>: the first entry of the chain, or zero.\<close>

fun side_read :: "(string \<times> int) list \<Rightarrow> string \<Rightarrow> int" where
  "side_read [] chainId = 0"
| "side_read ((c, b) # rest) chainId = (if c = chainId then b else side_read rest chainId)"

text \<open>The search of \<open>SetSideChainDepositBalance\<close>: append a zero entry when there is none.\<close>

definition side_ensure :: "string \<Rightarrow> (string \<times> int) list \<Rightarrow> (string \<times> int) list" where
  "side_ensure chainId xs =
     (if chainId \<in> fst ` set xs then xs else xs @ [(chainId, 0)])"

fun side_put :: "string \<Rightarrow> int \<Rightarrow> (string \<times> int) list \<Rightarrow> (string \<times> int) list" where
  "side_put chainId amount [] = []"
| "side_put chainId amount ((c, b) # rest) =
     (if c = chainId then (c, amount) # rest else (c, b) # side_put chainId amount rest)"

lemma side_read_ensure [simp]: "side_read (side_ensure c xs) d = side_read xs d"
proof -
  have "c \<notin> fst ` set xs \<Longrightarrow> side_read (xs @ [(c, 0)]) d = side_read xs d"
    by (induction xs d rule: side_read.induct) auto
  then show ?thesis
    by (simp add: side_ensure_def)
qed

lemma side_ensure_mem [simp]: "c \<in> fst ` set (side_ensure c xs)"
  by (simp add: side_ensure_def)

lemma side_read_put:
  "c \<in> fst ` set xs \<Longrightarrow> side_read (side_put c v xs) d = (if d = c then v else side_read xs d)"
  by (induction c v xs rule: side_put.induct) (auto, (metis fst_conv image_eqI)+)

lemma side_put_mem [simp]: "fst ` set (side_put c v xs) = fst ` set xs"
  by (induction c v xs rule: side_put.induct) auto

subsection \<open>The journal\<close>

datatype journal_entry =
    createObjectChange address
  | resetObjectChange state_object
  | suicideChange address bool int
  | balanceChange address int
  | depositBalanceChange address int
  | sideChainDepositBalanceChange address string int
  | chainBalanceChange address int
  | delegateBalanceChange address int
  | proxiedBalanceChange address int
  | depositProxiedBalanceChange address int
  | pendingRefundBalanceChange address int
  | rewardBalanceChange address int
  | availableRewardBalanceChange address int
  | nonceChange address uint64
  | storageChange address hash hash
  | addTX1Change address hash
  | addTX3Change address hash
  | accountProxiedBalanceChange address address "accountProxiedBalance option"
  | delegateRewardBalanceChange address address "int option"
  | candidateChange address bool
  | pubkeyChange address string
  | commissionChange address "8 word"
  | bannedChange address bool
  | blockTimeChange address int
  | bannedTimeChange address int
  | codeChange address "bytes option" bytes
  | refundChange uint64
  | addLogChange hash
  | addPreimageChange hash
  | touchChange address bool bool

text \<open>The entry that a balance setter of the given field appends.\<close>

fun field_change :: "balance_field \<Rightarrow> address \<Rightarrow> int \<Rightarrow> journal_entry" where
  "field_change F_Balance = balanceChange"
| "field_change F_Deposit = depositBalanceChange"
| "field_change F_Chain = chainBalanceChange"
| "field_change F_Delegate = delegateBalanceChange"
| "field_change F_Proxied = proxiedBalanceChange"
| "field_change F_DepositProxied = depositProxiedBalanceChange"
| "field_change F_PendingRefund = pendingRefundBalanceChange"
| "field_change F_Reward = rewardBalanceChange"
| "field_change F_AvailableReward = availableRewardBalanceChange"

subsection \<open>The database\<close>

record log_entry =
  log_Address :: address
  log_Topics :: "hash list"
  log_Data :: bytes
  log_BlockNumber :: uint64
  log_TxHash :: hash
  log_TxIndex :: uint64
  log_BlockHash :: hash
  log_Index :: uint64
  log_Removed :: bool

record statedb =
  codeDB :: "hash \<rightharpoonup> bytes"
  trie :: "address \<rightharpoonup> account"
  trieRefundSet :: "address set"
  trieRewardSet :: "address set"
  trieCandidateSet :: "address set"
  trieBannedSet :: "address set"
  trieRewardPerBlock :: "int option"
  stateObjects :: "address \<rightharpoonup> state_object"
  stateObjectsDirty :: "address list"
  delegateRefundSet :: "address set"
  delegateRefundSetDirty :: bool
  rewardSet :: "address set"
  rewardSetDirty :: bool
  candidateSet :: "address set"
  candidateSetDirty :: bool
  bannedSet :: "address set"
  bannedSetDirty :: bool
  sideChainRewardPerBlock :: "int option"
  sideChainRewardPerBlockDirty :: bool
  sdb_refund :: uint64
  thash :: hash
  bhash :: hash
  txIndex :: int
  logs :: "hash \<rightharpoonup> log_entry list"
  logSize :: uint64
  preimages :: "hash \<rightharpoonup> bytes"
  journal :: "journal_entry list"
  validRevisions :: "(int \<times> nat) list"
  nextRevisionId :: int

text \<open>
  \<open>state.New\<close>: a database over the contents of the account trie at some root.  The
  system keys of the trie (\<open>DelegateRefundSet\<close>, \<open>RewardSet\<close>, \<open>CandidateSet\<close>,
  \<open>BannedSet\<close>, \<open>RewardPerBlock\<close>) are separate fields of its contents.
\<close>

record state_trie =
  st_codeDB :: "hash \<rightharpoonup> bytes"
  st_trie :: "address \<rightharpoonup> account"
  st_refundSet :: "address set"
  st_rewardSet :: "address set"
  st_candidateSet :: "address set"
  st_bannedSet :: "address set"
  st_rewardPerBlock :: "int option"

definition NewStateDB :: "state_trie \<Rightarrow> statedb" where
  "NewStateDB t =
     \<lparr>codeDB = st_codeDB t, trie = st_trie t, trieRefundSet = st_refundSet t,
      trieRewardSet = st_rewardSet t, trieCandidateSet = st_candidateSet t,
      trieBannedSet = st_bannedSet t, trieRewardPerBlock = st_rewardPerBlock t,
      stateObjects = Map.empty, stateObjectsDirty = [],
      delegateRefundSet = {}, delegateRefundSetDirty = False,
      rewardSet = {}, rewardSetDirty = False,
      candidateSet = {}, candidateSetDirty = False,
      bannedSet = {}, bannedSetDirty = False,
      sideChainRewardPerBlock = None, sideChainRewardPerBlockDirty = False,
      sdb_refund = 0, thash = zero_hash, bhash = zero_hash, txIndex = 0,
      logs = Map.empty, logSize = 0, preimages = Map.empty,
      journal = [], validRevisions = [], nextRevisionId = 0\<rparr>"

definition trie_of :: "statedb \<Rightarrow> state_trie" where
  "trie_of db =
     \<lparr>st_codeDB = codeDB db, st_trie = trie db, st_refundSet = trieRefundSet db,
      st_rewardSet = trieRewardSet db, st_candidateSet = trieCandidateSet db,
      st_bannedSet = trieBannedSet db, st_rewardPerBlock = trieRewardPerBlock db\<rparr>"

end
