(* ===== verification/EpochStore.thy ===== *)
theory EpochStore
  imports Validators StateTypes "HOL-Library.Countable"
begin

section \<open>Epochs, their vote sets and where they are stored\<close>

text \<open>
  The files \<open>epoch_vote.go\<close>, \<open>scheme.go\<close> and the first half of \<open>epoch.go\<close>: the
  votes for the next validator set, the reward scheme, the epoch record with its links to the
  previous and the next epoch, and saving and loading them.  The key-value database (db-go)
  is a map from keys to byte strings, passed along; the binary codec (wire-go) is a parameter
  of which only the round trip is assumed, where a lemma says so.  Votes are mutated through
  pointers, so a vote set holds its votes in an explicit store and refers to them by their
  position there.  Points in time are nanoseconds, \<open>time.Now()\<close> is a parameter.
\<close>

subsection \<open>Decimal numbers in keys\<close>

definition digit :: "nat \<Rightarrow> char" where
  "digit n = char_of (48 + n)"

text \<open>The verb \<open>%v\<close> of an unsigned integer.\<close>

fun decimal :: "nat \<Rightarrow> string" where
  "decimal n = (if n < 10 then [digit n] else decimal (n div 10) @ [digit (n mod 10)])"

declare decimal.simps [simp del]

text \<open>\<open>strconv.ParseUint\<close> to base ten; the error is dropped by its only caller, which then
  goes on with zero.\<close>

definition parse_step :: "nat option \<Rightarrow> char \<Rightarrow> nat option" where
  "parse_step acc c =
     (case acc of None \<Rightarrow> None
      | Some n \<Rightarrow> if 48 \<le> (of_char c :: nat) \<and> (of_char c :: nat) \<le> 57
                  then Some (10 * n + (of_char c - 48)) else None)"

definition ParseUint :: "string \<Rightarrow> uint64" where
  "ParseUint s =
     (if s = [] then 0
      else case foldl parse_step (Some 0) s of
             None \<Rightarrow> 0
           | Some n \<Rightarrow> if n < 2 ^ 64 then of_nat n else - 1)"

definition calcEpochKeyWithHeight :: "uint64 \<Rightarrow> string" where
  "calcEpochKeyWithHeight number = ''Epoch:'' @ decimal (unat number)"

definition latestEpochKey :: string where
  "latestEpochKey = ''LatestEpoch''"

definition rewardSchemeKey :: string where
  "rewardSchemeKey = ''REWARDSCHEME''"

definition calcEpochValidatorVoteKey :: "uint64 \<Rightarrow> string" where
  "calcEpochValidatorVoteKey epochNumber = ''EpochValidatorVote_'' @ decimal (unat epochNumber)"

subsection \<open>Votes for the next epoch\<close>

record epoch_vote =
  ev_Address :: address
  ev_PubKey :: "pubkey option"
  ev_Amount :: "int option"
  ev_Salt :: string
  ev_VoteHash :: hash
  ev_TxHash :: hash

record vote_table =
  vt_store :: "epoch_vote list"
  Votes :: "nat list"
  votesByAddress :: "address \<rightharpoonup> nat"

definition NewEpochValidatorVoteSet :: vote_table where
  "NewEpochValidatorVoteSet = \<lparr>vt_store = [], Votes = [], votesByAddress = Map.empty\<rparr>"

definition GetVoteByAddress :: "vote_table \<Rightarrow> address \<Rightarrow> nat option" where
  "GetVoteByAddress voteSet address = votesByAddress voteSet address"

text \<open>The votes of the set, in order.\<close>

definition votes_of :: "vote_table \<Rightarrow> epoch_vote list" where
  "votes_of voteSet = map (nth (vt_store voteSet)) (Votes voteSet)"

fun position :: "nat \<Rightarrow> nat list \<Rightarrow> nat option" where
  "position r [] = None"
| "position r (x # xs) = (if x = r then Some 0 else map_option Suc (position r xs))"

text \<open>A new vote is allocated; slicing at index \<open>-1\<close> is a panic.\<close>

definition StoreVote :: "epoch_vote \<Rightarrow> vote_table \<Rightarrow> vote_table option" where
  "StoreVote vote voteSet =
     (let r = length (vt_store voteSet);
          insert_vote = (\<lambda>refs. Some (voteSet\<lparr>vt_store := vt_store voteSet @ [vote], Votes := refs @ [r],
             votesByAddress := (votesByAddress voteSet)(ev_Address vote \<mapsto> r)\<rparr>))
      in case votesByAddress voteSet (ev_Address vote) of
           None \<Rightarrow> insert_vote (Votes voteSet)
         | Some oldVote \<Rightarrow>
             (case position oldVote (Votes voteSet) of
                None \<Rightarrow> None
              | Some index \<Rightarrow> insert_vote (take index (Votes voteSet) @ drop (index + 1) (Votes voteSet))))"

definition set_vote :: "nat \<Rightarrow> (epoch_vote \<Rightarrow> epoch_vote) \<Rightarrow> vote_table \<Rightarrow> vote_table" where
  "set_vote r f voteSet = voteSet\<lparr>vt_store := (vt_store voteSet)[r := f (vt_store voteSet ! r)]\<rparr>"

text \<open>Filling the map of a decoded list of votes, and copying.\<close>

definition table_of :: "epoch_vote list \<Rightarrow> vote_table" where
  "table_of votes =
     \<lparr>vt_store = votes, Votes = [0..<length votes],
      votesByAddress = (\<lambda>a. fold (\<lambda>i m. if ev_Address (votes ! i) = a then Some i else m)
                              [0..<length votes] None)\<rparr>"

definition VoteSet_Copy :: "vote_table option \<Rightarrow> vote_table option" where
  "VoteSet_Copy voteSet = map_option (\<lambda>vs. table_of (votes_of vs)) voteSet"

definition VoteSet_IsEmpty :: "vote_table option \<Rightarrow> bool" where
  "VoteSet_IsEmpty voteSet \<longleftrightarrow> (case voteSet of None \<Rightarrow> True | Some vs \<Rightarrow> length (Votes vs) = 0)"

subsection \<open>Epochs\<close>

record reward_scheme =
  TotalReward :: int
  RewardFirstYear :: int
  EpochNumberPerYear :: uint64
  TotalYear :: uint64

definition EPOCH_NOT_EXIST :: int where "EPOCH_NOT_EXIST = 0"
definition EPOCH_PROPOSED_NOT_VOTED :: int where "EPOCH_PROPOSED_NOT_VOTED = 1"
definition EPOCH_VOTED_NOT_SAVED :: int where "EPOCH_VOTED_NOT_SAVED = 2"
definition EPOCH_SAVED :: int where "EPOCH_SAVED = 3"

text \<open>The exported fields, which the codec writes.\<close>

record epoch_data =
  Number :: uint64
  RewardPerBlock :: int
  StartBlock :: uint64
  EndBlock :: uint64
  StartTime :: int
  EndTime :: int
  BlockGenerated :: int
  Status :: int
  ep_Validators :: validator_set

datatype epoch = Epoch (ep: epoch_data) (validatorVoteSet: "vote_table option")
  (rs: "reward_scheme option") (previousEpoch: "epoch option") (nextEpoch: "epoch option")

type_synonym store = "string \<rightharpoonup> bytes"

record wire =
  epoch_bytes :: "epoch_data \<Rightarrow> bytes"
  read_epoch :: "bytes \<Rightarrow> epoch_data option"
  votes_bytes :: "epoch_vote list \<Rightarrow> bytes"
  read_votes :: "bytes \<Rightarrow> epoch_vote list option"
  scheme_bytes :: "reward_scheme \<Rightarrow> bytes"
  read_scheme :: "bytes \<Rightarrow> reward_scheme option"
  read_time :: "int \<Rightarrow> int"

text \<open>The conversions between strings and byte slices.\<close>

definition text_bytes :: "string \<Rightarrow> bytes" where
  "text_bytes s = map of_char s"

definition bytes_text :: "bytes \<Rightarrow> string" where
  "bytes_text b = map (\<lambda>x. char_of (unat x)) b"

text \<open>A missing key reads as an empty byte slice.\<close>

definition db_get :: "store \<Rightarrow> string \<Rightarrow> bytes" where
  "db_get db k = (case db k of None \<Rightarrow> [] | Some b \<Rightarrow> b)"

definition SaveEpochVoteSet :: "wire \<Rightarrow> uint64 \<Rightarrow> vote_table \<Rightarrow> store \<Rightarrow> store" where
  "SaveEpochVoteSet W epochNumber voteSet db =
     db(calcEpochValidatorVoteKey epochNumber \<mapsto> votes_bytes W (votes_of voteSet))"

definition LoadEpochVoteSet :: "wire \<Rightarrow> store \<Rightarrow> uint64 \<Rightarrow> vote_table option" where
  "LoadEpochVoteSet W db epochNumber =
     (let data = db_get db (calcEpochValidatorVoteKey epochNumber) in
      if length data = 0 then None else map_option table_of (read_votes W data))"

definition LoadRewardScheme :: "wire \<Rightarrow> store \<Rightarrow> reward_scheme option" where
  "LoadRewardScheme W db =
     (let buf = db_get db rewardSchemeKey in if length buf = 0 then None else read_scheme W buf)"

definition RewardScheme_Save :: "wire \<Rightarrow> reward_scheme \<Rightarrow> store \<Rightarrow> store" where
  "RewardScheme_Save W r db = db(rewardSchemeKey \<mapsto> scheme_bytes W r)"

definition FromBytes :: "wire \<Rightarrow> bytes \<Rightarrow> epoch option" where
  "FromBytes W buf =
     (if length buf = 0 then None
      else map_option (\<lambda>d. Epoch d None None None None) (read_epoch W buf))"

definition loadOneEpoch :: "wire \<Rightarrow> store \<Rightarrow> uint64 \<Rightarrow> epoch option" where
  "loadOneEpoch W db epochNumber = FromBytes W (db_get db (calcEpochKeyWithHeight epochNumber))"

definition set_rs :: "reward_scheme option \<Rightarrow> epoch \<Rightarrow> epoch" where
  "set_rs r e = Epoch (ep e) (validatorVoteSet e) r (previousEpoch e) (nextEpoch e)"

definition set_votes :: "vote_table option \<Rightarrow> epoch \<Rightarrow> epoch" where
  "set_votes v e = Epoch (ep e) v (rs e) (previousEpoch e) (nextEpoch e)"

definition set_next :: "epoch option \<Rightarrow> epoch \<Rightarrow> epoch" where
  "set_next n e = Epoch (ep e) (validatorVoteSet e) (rs e) (previousEpoch e) n"

definition set_previous :: "epoch option \<Rightarrow> epoch \<Rightarrow> epoch" where
  "set_previous p e = Epoch (ep e) (validatorVoteSet e) (rs e) p (nextEpoch e)"

definition set_data :: "(epoch_data \<Rightarrow> epoch_data) \<Rightarrow> epoch \<Rightarrow> epoch" where
  "set_data f e = Epoch (f (ep e)) (validatorVoteSet e) (rs e) (previousEpoch e) (nextEpoch e)"

text \<open>A missing epoch makes \<open>LoadOneEpoch\<close> write through a nil pointer.\<close>

definition LoadOneEpoch :: "wire \<Rightarrow> store \<Rightarrow> uint64 \<Rightarrow> epoch option" where
  "LoadOneEpoch W db epochNumber =
     (case loadOneEpoch W db epochNumber of
        None \<Rightarrow> None
      | Some epoch \<Rightarrow>
          (let rewardscheme = LoadRewardScheme W db;
               epoch = set_votes (LoadEpochVoteSet W db epochNumber) (set_rs rewardscheme epoch);
               epoch = (if epochNumber > 0
                        then set_previous (map_option (set_rs rewardscheme)
                               (loadOneEpoch W db (epochNumber - 1))) epoch
                        else epoch)
           in Some (set_next (map_option (\<lambda>n. set_votes (LoadEpochVoteSet W db (epochNumber + 1))
                               (set_rs rewardscheme n)) (loadOneEpoch W db (epochNumber + 1))) epoch)))"

record genesis_validator =
  gv_EthAccount :: address
  gv_PubKey :: pubkey
  gv_Amount :: int
  gv_RemainingEpoch :: uint64

record one_epoch_doc =
  doc_Number :: uint64
  doc_RewardPerBlock :: int
  doc_StartBlock :: uint64
  doc_EndBlock :: uint64
  doc_Status :: int
  doc_Validators :: "genesis_validator list"

definition MakeOneEpoch :: "int \<Rightarrow> one_epoch_doc \<Rightarrow> epoch" where
  "MakeOneEpoch now oneEpoch =
     (let validators = map (\<lambda>val. \<lparr>Address = gv_EthAccount val, PubKey = gv_PubKey val,
             VotingPower = gv_Amount val, RemainingEpoch = gv_RemainingEpoch val\<rparr>) (doc_Validators oneEpoch)
      in Epoch \<lparr>Number = doc_Number oneEpoch, RewardPerBlock = doc_RewardPerBlock oneEpoch,
                StartBlock = doc_StartBlock oneEpoch, EndBlock = doc_EndBlock oneEpoch,
                StartTime = now, EndTime = 0, BlockGenerated = 0, Status = doc_Status oneEpoch,
                ep_Validators = NewValidatorSet validators\<rparr> None None None None)"

text \<open>\<open>Save\<close> also stores a next epoch that was voted and not yet saved.\<close>

definition Epoch_Save :: "wire \<Rightarrow> epoch \<Rightarrow> store \<Rightarrow> epoch \<times> store" where
  "Epoch_Save W e db =
     (let db1 = db(calcEpochKeyWithHeight (Number (ep e)) \<mapsto> epoch_bytes W (ep e),
                   latestEpochKey \<mapsto> text_bytes (decimal (unat (Number (ep e)))))
      in case nextEpoch e of
           None \<Rightarrow> (e, db1)
         | Some n \<Rightarrow>
             if Status (ep n) = EPOCH_VOTED_NOT_SAVED
             then (let n1 = set_data (\<lambda>d. d\<lparr>Status := EPOCH_SAVED\<rparr>) n
                   in (set_next (Some n1) e,
                       db1(calcEpochKeyWithHeight (Number (ep n1)) \<mapsto> epoch_bytes W (ep n1))))
             else (e, db1))"

definition InitEpoch ::
  "wire \<Rightarrow> int \<Rightarrow> reward_scheme \<Rightarrow> one_epoch_doc \<Rightarrow> store \<Rightarrow> epoch option \<times> store" where
  "InitEpoch W now rewardScheme currentEpoch db =
     (case db latestEpochKey of
        None \<Rightarrow>
          (let (e, db1) = Epoch_Save W (MakeOneEpoch now currentEpoch) (RewardScheme_Save W rewardScheme db)
           in (Some (set_rs (Some rewardScheme) e), db1))
      | Some epochNumber \<Rightarrow> (LoadOneEpoch W db (ParseUint (bytes_text epochNumber)), db))"

text \<open>The vote set is loaded on demand and kept.\<close>

definition GetEpochValidatorVoteSet :: "wire \<Rightarrow> store \<Rightarrow> epoch \<Rightarrow> vote_table option \<times> epoch" where
  "GetEpochValidatorVoteSet W db e =
     (case validatorVoteSet e of
        Some vs \<Rightarrow> (Some vs, e)
      | None \<Rightarrow> (let v = LoadEpochVoteSet W db (Number (ep e)) in (v, set_votes v e)))"

definition GetNextEpoch :: "wire \<Rightarrow> store \<Rightarrow> epoch \<Rightarrow> epoch" where
  "GetNextEpoch W db e =
     (case nextEpoch e of
        Some n \<Rightarrow> e
      | None \<Rightarrow> set_next (map_option (\<lambda>n. set_votes (LoadEpochVoteSet W db (Number (ep e) + 1)) (set_rs (rs e) n))
                 (loadOneEpoch W db (Number (ep e) + 1))) e)"

definition SetNextEpoch :: "epoch option \<Rightarrow> epoch \<Rightarrow> epoch" where
  "SetNextEpoch next e = set_next (map_option (set_rs (rs e)) next) e"

definition ShouldProposeNextEpoch :: "uint64 \<Rightarrow> epoch \<Rightarrow> bool" where
  "ShouldProposeNextEpoch curBlockHeight e \<longleftrightarrow>
     nextEpoch e = None \<and>
     curBlockHeight > StartBlock (ep e) \<and> curBlockHeight \<noteq> 1 \<and> curBlockHeight \<noteq> EndBlock (ep e)"

definition epoch_copy1 :: "epoch \<Rightarrow> epoch" where
  "epoch_copy1 e =
     Epoch ((ep e)\<lparr>ep_Validators := ValidatorSet_Copy (ep_Validators (ep e))\<rparr>)
       (VoteSet_Copy (validatorVoteSet e)) (rs e) None None"

definition Epoch_Copy :: "epoch \<Rightarrow> epoch" where
  "Epoch_Copy e =
     set_previous (map_option epoch_copy1 (previousEpoch e))
       (set_next (map_option epoch_copy1 (nextEpoch e)) (epoch_copy1 e))"

definition epoch_equals1 :: "'b ext \<Rightarrow> epoch option \<Rightarrow> epoch option \<Rightarrow> bool" where
  "epoch_equals1 E e oth =
     (case (e, oth) of
        (None, None) \<Rightarrow> True | (None, Some _) \<Rightarrow> False | (Some _, None) \<Rightarrow> False
      | (Some a, Some b) \<Rightarrow>
          Number (ep a) = Number (ep b) \<and> RewardPerBlock (ep a) = RewardPerBlock (ep b) \<and>
          StartBlock (ep a) = StartBlock (ep b) \<and> EndBlock (ep a) = EndBlock (ep b) \<and>
          ValidatorSet_Equals E (ep_Validators (ep a)) (ep_Validators (ep b)))"

definition Epoch_Equals :: "'b ext \<Rightarrow> epoch option \<Rightarrow> epoch option \<Rightarrow> bool \<Rightarrow> bool" where
  "Epoch_Equals E e oth checkPrevNext =
     (epoch_equals1 E e oth \<and>
      (case (e, oth) of
         (Some a, Some b) \<Rightarrow> checkPrevNext \<longrightarrow>
           epoch_equals1 E (previousEpoch a) (previousEpoch b) \<and> epoch_equals1 E (nextEpoch a) (nextEpoch b)
       | _ \<Rightarrow> True))"

definition UpdateEpochEndTime :: "wire \<Rightarrow> uint64 \<Rightarrow> int \<Rightarrow> store \<Rightarrow> store" where
  "UpdateEpochEndTime W epNumber endTime db =
     (case loadOneEpoch W db epNumber of
        None \<Rightarrow> db
      | Some e \<Rightarrow> db(calcEpochKeyWithHeight epNumber \<mapsto> epoch_bytes W ((ep e)\<lparr>EndTime := endTime\<rparr>)))"

subsection \<open>Voting for the next epoch\<close>

text \<open>
  The three operations of the cross-chain helper that write votes (\<open>cmd/neatio/cross_chain.go\<close>).
  \<^term>\<open>None\<close> is the panic of a missing next epoch and, for \<open>RevealVote\<close>, of a missing
  vote set.  A set that did not exist is saved and not attached to the epoch.
\<close>

definition next_votes :: "wire \<Rightarrow> store \<Rightarrow> epoch \<Rightarrow> (vote_table option \<times> epoch \<times> epoch) option" where
  "next_votes W db e =
     (let e1 = GetNextEpoch W db e in
      case nextEpoch e1 of
        None \<Rightarrow> None
      | Some n \<Rightarrow> (let (v, n1) = GetEpochValidatorVoteSet W db n in Some (v, n1, set_next (Some n1) e1)))"

definition save_next_votes ::
  "wire \<Rightarrow> vote_table option \<Rightarrow> vote_table \<Rightarrow> epoch \<Rightarrow> epoch \<Rightarrow> store \<Rightarrow> epoch \<times> store" where
  "save_next_votes W old voteSet n e db =
     ((case old of None \<Rightarrow> e | Some _ \<Rightarrow> set_next (Some (set_votes (Some voteSet) n)) e),
      SaveEpochVoteSet W (Number (ep n)) voteSet db)"

definition VoteNextEpoch ::
  "wire \<Rightarrow> address \<Rightarrow> hash \<Rightarrow> hash \<Rightarrow> epoch \<Rightarrow> store \<Rightarrow> (epoch \<times> store) option" where
  "VoteNextEpoch W from voteHash txHash e db =
     (case next_votes W db e of
        None \<Rightarrow> None
      | Some (old, n, e1) \<Rightarrow>
          (let voteSet = (case old of None \<Rightarrow> NewEpochValidatorVoteSet | Some vs \<Rightarrow> vs) in
           case GetVoteByAddress voteSet from of
             Some r \<Rightarrow> Some (save_next_votes W old
                 (set_vote r (\<lambda>v. v\<lparr>ev_VoteHash := voteHash, ev_TxHash := txHash\<rparr>) voteSet) n e1 db)
           | None \<Rightarrow> map_option (\<lambda>vs. save_next_votes W old vs n e1 db)
               (StoreVote \<lparr>ev_Address = from, ev_PubKey = None, ev_Amount = None, ev_Salt = '''',
                           ev_VoteHash = voteHash, ev_TxHash = txHash\<rparr> voteSet)))"

definition RevealVote ::
  "wire \<Rightarrow> address \<Rightarrow> pubkey \<Rightarrow> int \<Rightarrow> string \<Rightarrow> hash \<Rightarrow> epoch \<Rightarrow> store \<Rightarrow> (epoch \<times> store) option" where
  "RevealVote W from pubkey depositAmount salt txHash e db =
     (case next_votes W db e of
        None \<Rightarrow> None
      | Some (None, n, e1) \<Rightarrow> None
      | Some (Some voteSet, n, e1) \<Rightarrow>
          Some (save_next_votes W (Some voteSet)
            (case GetVoteByAddress voteSet from of
               Some r \<Rightarrow> set_vote r (\<lambda>v. v\<lparr>ev_PubKey := Some pubkey, ev_Amount := Some depositAmount,
                                          ev_Salt := salt, ev_TxHash := txHash\<rparr>) voteSet
             | None \<Rightarrow> voteSet) n e1 db))"

definition UpdateNextEpoch ::
  "wire \<Rightarrow> address \<Rightarrow> pubkey \<Rightarrow> int \<Rightarrow> hash \<Rightarrow> epoch \<Rightarrow> store \<Rightarrow> (epoch \<times> store) option" where
  "UpdateNextEpoch W from pubkey depositAmount txHash e db =
     (case next_votes W db e of
        None \<Rightarrow> None
      | Some (old, n, e1) \<Rightarrow>
          (let voteSet = (case old of None \<Rightarrow> NewEpochValidatorVoteSet | Some vs \<Rightarrow> vs) in
           case GetVoteByAddress voteSet from of
             Some r \<Rightarrow> Some (save_next_votes W old
                 (set_vote r (\<lambda>v. v\<lparr>ev_Amount := Some depositAmount, ev_TxHash := txHash\<rparr>) voteSet) n e1 db)
           | None \<Rightarrow> map_option (\<lambda>vs. save_next_votes W old vs n e1 db)
               (StoreVote \<lparr>ev_Address = from, ev_PubKey = Some pubkey, ev_Amount = Some depositAmount,
                           ev_Salt = ''neatio'', ev_VoteHash = zero_hash, ev_TxHash = txHash\<rparr> voteSet)))"

subsection \<open>Keys\<close>

lemma parse_digit: "n < 10 \<Longrightarrow> parse_step (Some m) (digit n) = Some (10 * m + n)"
  by (simp add: parse_step_def digit_def)

lemma parse_decimal: "foldl parse_step (Some m) (decimal n) = Some (m * 10 ^ length (decimal n) + n)"
proof (induction n arbitrary: m rule: decimal.induct)
  case (1 n)
  show ?case
  proof (cases "n < 10")
    case True
    then show ?thesis
      by (simp add: decimal.simps [of n] parse_digit)
  next
    case False
    let ?p = "decimal (n div 10)"
    have "foldl parse_step (Some m) (?p @ [digit (n mod 10)]) =
        Some (10 * (m * 10 ^ length ?p + n div 10) + n mod 10)"
      using 1 [OF False] by (simp add: parse_digit)
    moreover have "10 * (m * 10 ^ length ?p + n div 10) + n mod 10 = m * 10 ^ Suc (length ?p) + n"
      by (simp add: algebra_simps)
    ultimately show ?thesis
      using False by (simp add: decimal.simps [of n])
  qed
qed

lemma decimal_not_empty [simp]: "decimal n \<noteq> []"
  by (subst decimal.simps) simp

lemma ParseUint_decimal [simp]: "ParseUint (decimal (unat w)) = w"
proof -
  have "unat w < 2 ^ 64"
    using unsigned_less [of w] by simp
  then show ?thesis
    by (simp only: ParseUint_def parse_decimal decimal_not_empty if_False option.case if_True mult_zero_left
        add_0 of_nat_unat ucast_id)
qed

lemma decimal_inj [simp]: "decimal m = decimal n \<longleftrightarrow> m = n"
proof
  assume "decimal m = decimal n"
  then have "foldl parse_step (Some 0) (decimal m) = foldl parse_step (Some 0) (decimal n)"
    by (rule arg_cong)
  then show "m = n"
    by (simp only: parse_decimal mult_zero_left add_0 option.inject)
qed (simp only:)

lemma keys_distinct [simp]:
  "calcEpochKeyWithHeight m = calcEpochKeyWithHeight n \<longleftrightarrow> m = n"
  "calcEpochValidatorVoteKey m = calcEpochValidatorVoteKey n \<longleftrightarrow> m = n"
  "calcEpochKeyWithHeight m \<noteq> latestEpochKey" "latestEpochKey \<noteq> calcEpochKeyWithHeight m"
  "calcEpochKeyWithHeight m \<noteq> rewardSchemeKey" "rewardSchemeKey \<noteq> calcEpochKeyWithHeight m"
  "calcEpochKeyWithHeight m \<noteq> calcEpochValidatorVoteKey n"
  "calcEpochValidatorVoteKey n \<noteq> calcEpochKeyWithHeight m"
  "calcEpochValidatorVoteKey n \<noteq> latestEpochKey" "latestEpochKey \<noteq> calcEpochValidatorVoteKey n"
  "calcEpochValidatorVoteKey n \<noteq> rewardSchemeKey" "rewardSchemeKey \<noteq> calcEpochValidatorVoteKey n"
  "latestEpochKey \<noteq> rewardSchemeKey" "rewardSchemeKey \<noteq> latestEpochKey"
  by (simp_all add: calcEpochKeyWithHeight_def calcEpochValidatorVoteKey_def latestEpochKey_def
      rewardSchemeKey_def word_unat_eq_iff [symmetric])

lemma bytes_text_bytes [simp]: "bytes_text (text_bytes s) = s"
proof -
  have "unat (of_char c :: 8 word) = of_char c" for c
  proof -
    have "(of_char c :: 8 word) = of_nat (of_char c)"
      by (simp only: of_nat_of_char)
    moreover have "(of_char c :: nat) < 2 ^ 8"
      by simp
    ultimately have "unat (of_char c :: 8 word) = of_char c mod 2 ^ 8"
      by (simp only: unat_of_nat len_num1 len_bit0) simp
    then show ?thesis
      using \<open>(of_char c :: nat) < 2 ^ 8\<close> by (simp only: mod_less)
  qed
  then show ?thesis
    by (simp add: bytes_text_def text_bytes_def map_idI)
qed

subsection \<open>The vote set as an ordered map\<close>

text \<open>Every address has at most one vote, and the map finds it.\<close>

definition vt_ok :: "vote_table \<Rightarrow> bool" where
  "vt_ok vs \<longleftrightarrow> distinct (Votes vs) \<and> set (Votes vs) \<subseteq> {..<length (vt_store vs)} \<and>
     (\<forall>a r. votesByAddress vs a = Some r \<longleftrightarrow> r \<in> set (Votes vs) \<and> ev_Address (vt_store vs ! r) = a)"

lemma vt_okD:
  assumes "vt_ok vs"
  shows "distinct (Votes vs)" "r \<in> set (Votes vs) \<Longrightarrow> r < length (vt_store vs)"
    "votesByAddress vs a = Some r \<longleftrightarrow> r \<in> set (Votes vs) \<and> ev_Address (vt_store vs ! r) = a"
  using assms by (auto simp: vt_ok_def)

lemma vt_ok_new: "vt_ok NewEpochValidatorVoteSet"
  by (simp add: vt_ok_def NewEpochValidatorVoteSet_def)

lemma position_Some: "position r xs = Some i \<Longrightarrow> i < length xs \<and> xs ! i = r"
  by (induction xs arbitrary: i) (auto split: if_splits)

lemma position_None: "position r xs = None \<longleftrightarrow> r \<notin> set xs"
  by (induction xs) auto

lemma drop_position:
  assumes "position r xs = Some i" "distinct xs"
  shows "take i xs @ drop (i + 1) xs = filter (\<lambda>x. x \<noteq> r) xs"
  using assms
proof (induction xs arbitrary: i)
  case (Cons x xs)
  show ?case
  proof (cases "x = r")
    case True
    with Cons.prems have "r \<notin> set xs"
      by simp
    then have "filter (\<lambda>x. x \<noteq> r) xs = xs"
      by (simp add: filter_id_conv) blast
    with True Cons.prems show ?thesis
      by simp
  next
    case False
    then obtain j where "i = Suc j" "position r xs = Some j"
      using Cons.prems(1) by auto
    with Cons False show ?thesis
      by simp
  qed
qed simp

lemma StoreVote_eq:
  assumes "vt_ok vs"
  shows "StoreVote v vs = Some (vs\<lparr>vt_store := vt_store vs @ [v],
     Votes := filter (\<lambda>r. ev_Address (vt_store vs ! r) \<noteq> ev_Address v) (Votes vs) @ [length (vt_store vs)],
     votesByAddress := (votesByAddress vs)(ev_Address v \<mapsto> length (vt_store vs))\<rparr>)"
proof (cases "votesByAddress vs (ev_Address v)")
  case None
  then have "filter (\<lambda>r. ev_Address (vt_store vs ! r) \<noteq> ev_Address v) (Votes vs) = Votes vs"
    using vt_okD(3) [OF assms, of "ev_Address v"] by (auto simp: filter_id_conv)
  then show ?thesis
    by (simp add: StoreVote_def None Let_def)
next
  case (Some old)
  then have old: "old \<in> set (Votes vs)" "ev_Address (vt_store vs ! old) = ev_Address v"
    using vt_okD(3) [OF assms] by auto
  then obtain i where i: "position old (Votes vs) = Some i"
    using position_None [of old "Votes vs"] by auto
  have "r = old \<longleftrightarrow> ev_Address (vt_store vs ! r) = ev_Address v" if "r \<in> set (Votes vs)" for r
    using vt_okD(3) [OF assms, of "ev_Address v" r] Some that old by auto
  then have "filter (\<lambda>x. x \<noteq> old) (Votes vs) =
      filter (\<lambda>r. ev_Address (vt_store vs ! r) \<noteq> ev_Address v) (Votes vs)"
    by (auto intro: filter_cong)
  then show ?thesis
    using drop_position [OF i vt_okD(1) [OF assms]] by (simp add: StoreVote_def Some i Let_def)
qed

lemma filter_map_nth:
  "set ix \<subseteq> {..<length xs} \<Longrightarrow>
   map (nth (xs @ ys)) (filter (\<lambda>r. P (xs ! r)) ix) = filter P (map (nth xs) ix)"
  by (induction ix) (auto simp: nth_append)

lemma StoreVote_votes:
  assumes "vt_ok vs" "StoreVote v vs = Some vs'"
  shows "vt_ok vs'" "votes_of vs' = filter (\<lambda>w. ev_Address w \<noteq> ev_Address v) (votes_of vs) @ [v]"
proof -
  have vs': "vt_store vs' = vt_store vs @ [v]"
      "Votes vs' = filter (\<lambda>r. ev_Address (vt_store vs ! r) \<noteq> ev_Address v) (Votes vs) @ [length (vt_store vs)]"
      "votesByAddress vs' = (votesByAddress vs)(ev_Address v \<mapsto> length (vt_store vs))"
    using assms(2) unfolding StoreVote_eq [OF assms(1)] by auto
  have "set (Votes vs) \<subseteq> {..<length (vt_store vs)}"
    using assms(1) by (simp add: vt_ok_def)
  then show "votes_of vs' = filter (\<lambda>w. ev_Address w \<noteq> ev_Address v) (votes_of vs) @ [v]"
    using filter_map_nth [of "Votes vs" "vt_store vs" "[v]" "\<lambda>w. ev_Address w \<noteq> ev_Address v"]
    by (simp add: votes_of_def vs')
  have "votesByAddress vs' a = Some r \<longleftrightarrow> r \<in> set (Votes vs') \<and> ev_Address (vt_store vs' ! r) = a" for a r
  proof (cases "r = length (vt_store vs)")
    case True
    have "length (vt_store vs) \<notin> set (Votes vs)"
      using vt_okD(2) [OF assms(1)] by blast
    then have "votesByAddress vs a \<noteq> Some (length (vt_store vs))"
      using vt_okD(3) [OF assms(1)] by blast
    then show ?thesis
      by (auto simp: vs' True)
  next
    case False
    have "votesByAddress vs a = Some r \<longleftrightarrow> r \<in> set (Votes vs) \<and> ev_Address (vt_store vs ! r) = a"
      by (rule vt_okD(3) [OF assms(1)])
    moreover have "r < length (vt_store vs)" if "r \<in> set (Votes vs)"
      using vt_okD(2) [OF assms(1)] that .
    ultimately show ?thesis
      using False by (cases "a = ev_Address v") (auto simp: vs' nth_append)
  qed
  then show "vt_ok vs'"
    using assms(1) by (auto simp: vt_ok_def vs')
qed

lemma set_vote_votes:
  assumes "vt_ok vs" "GetVoteByAddress vs a = Some r" "\<forall>w. ev_Address (f w) = ev_Address w"
  shows "vt_ok (set_vote r f vs)"
    "votes_of (set_vote r f vs) = map (\<lambda>w. if ev_Address w = a then f w else w) (votes_of vs)"
proof -
  have r: "r \<in> set (Votes vs)" "ev_Address (vt_store vs ! r) = a" "r < length (vt_store vs)"
    using assms(2) vt_okD [OF assms(1)] by (auto simp: GetVoteByAddress_def)
  have addr: "ev_Address ((vt_store vs)[r := f (vt_store vs ! r)] ! q) = ev_Address (vt_store vs ! q)" for q
    using r(3) assms(3) by (cases "q = r") simp_all
  show "vt_ok (set_vote r f vs)"
    using assms(1) by (simp add: vt_ok_def set_vote_def addr)
  have "q = r \<longleftrightarrow> ev_Address (vt_store vs ! q) = a" if "q \<in> set (Votes vs)" for q
    using vt_okD(3) [OF assms(1), of a q] assms(2) that r(2) by (auto simp: GetVoteByAddress_def)
  then show "votes_of (set_vote r f vs) = map (\<lambda>w. if ev_Address w = a then f w else w) (votes_of vs)"
    using r(3) by (auto simp: votes_of_def set_vote_def nth_list_update)
qed

lemma table_of_lookup:
  "n \<le> length votes \<Longrightarrow> distinct (map ev_Address votes) \<Longrightarrow>
   fold (\<lambda>i m. if ev_Address (votes ! i) = a then Some i else m) [0..<n] None = Some r \<longleftrightarrow>
     r < n \<and> ev_Address (votes ! r) = a"
proof (induction n)
  case (Suc n)
  have "ev_Address (votes ! r) \<noteq> ev_Address (votes ! n)" if "r < n"
    using Suc.prems that by (auto simp: distinct_conv_nth)
  then show ?case
    using Suc by (auto simp: less_Suc_eq)
qed simp

lemma table_of_ok:
  assumes "distinct (map ev_Address votes)"
  shows "vt_ok (table_of votes)" "votes_of (table_of votes) = votes"
  using table_of_lookup [OF order.refl assms]
  by (auto simp: vt_ok_def table_of_def votes_of_def map_nth)

lemma votes_distinct: "vt_ok vs \<Longrightarrow> distinct (map ev_Address (votes_of vs))"
  unfolding votes_of_def distinct_map map_map
proof (intro conjI)
  assume ok: "vt_ok vs"
  show "distinct (Votes vs)"
    by (rule vt_okD(1) [OF ok])
  show "inj_on (ev_Address \<circ> (!) (vt_store vs)) (set (Votes vs))"
    using vt_okD(3) [OF ok] by (intro inj_onI) (metis comp_apply option.inject)
qed

lemma single_vote:
  "distinct (map ev_Address ws) \<Longrightarrow> a \<in> ev_Address ` set ws \<Longrightarrow> \<exists>v. filter (\<lambda>w. ev_Address w = a) ws = [v]"
proof (induction ws)
  case (Cons w ws)
  show ?case
  proof (cases "ev_Address w = a")
    case True
    then have "filter (\<lambda>w. ev_Address w = a) ws = []"
      using Cons.prems(1) by (simp add: filter_empty_conv) (metis imageI)
    then show ?thesis
      using True by simp
  qed (use Cons in auto)
qed simp

subsection \<open>Saving and reloading\<close>

text \<open>
  What is documented of the codec: what is written reads back, up to the unexported cache of
  the validator set and the precision of points in time, and no encoding is empty.
\<close>

definition exported :: "wire \<Rightarrow> epoch_data \<Rightarrow> epoch_data" where
  "exported W d = d\<lparr>StartTime := read_time W (StartTime d), EndTime := read_time W (EndTime d),
     ep_Validators := (ep_Validators d)\<lparr>totalVotingPower := None\<rparr>\<rparr>"

definition wire_laws :: "wire \<Rightarrow> bool" where
  "wire_laws W \<longleftrightarrow>
     (\<forall>d. epoch_bytes W d \<noteq> [] \<and> read_epoch W (epoch_bytes W d) = Some (exported W d)) \<and>
     (\<forall>vs. votes_bytes W vs \<noteq> [] \<and> read_votes W (votes_bytes W vs) = Some vs) \<and>
     (\<forall>r. scheme_bytes W r \<noteq> [] \<and> read_scheme W (scheme_bytes W r) = Some r)"

lemma wire_lawsD:
  assumes "wire_laws W"
  shows "epoch_bytes W d \<noteq> []" "read_epoch W (epoch_bytes W d) = Some (exported W d)"
    "votes_bytes W vs \<noteq> []" "read_votes W (votes_bytes W vs) = Some vs"
    "scheme_bytes W r \<noteq> []" "read_scheme W (scheme_bytes W r) = Some r"
  using assms by (simp_all add: wire_laws_def)

lemma load_saved:
  assumes "wire_laws W" "db (calcEpochKeyWithHeight k) = Some (epoch_bytes W d)"
  shows "loadOneEpoch W db k = Some (Epoch (exported W d) None None None None)"
  using assms by (simp add: loadOneEpoch_def FromBytes_def db_get_def wire_lawsD)

lemma load_votes_saved:
  assumes "wire_laws W"
  shows "LoadEpochVoteSet W (SaveEpochVoteSet W k vs db) k = Some (table_of (votes_of vs))"
  using assms by (simp add: LoadEpochVoteSet_def SaveEpochVoteSet_def db_get_def Let_def wire_lawsD)

lemma set_sel [simp]:
  "ep (set_rs r e) = ep e" "ep (set_votes v e) = ep e" "ep (set_next n e) = ep e"
  "ep (set_previous p e) = ep e" "ep (set_data f e) = f (ep e)"
  "nextEpoch (set_rs r e) = nextEpoch e" "nextEpoch (set_votes v e) = nextEpoch e"
  "nextEpoch (set_next n e) = n" "nextEpoch (set_previous p e) = nextEpoch e"
  "nextEpoch (set_data f e) = nextEpoch e"
  "validatorVoteSet (set_rs r e) = validatorVoteSet e" "validatorVoteSet (set_votes v e) = v"
  "validatorVoteSet (set_next n e) = validatorVoteSet e" "validatorVoteSet (set_previous p e) = validatorVoteSet e"
  "rs (set_rs r e) = r" "rs (set_votes v e) = rs e" "rs (set_next n e) = rs e" "rs (set_previous p e) = rs e"
  "previousEpoch (set_votes v e) = previousEpoch e" "previousEpoch (set_next n e) = previousEpoch e"
  "previousEpoch (set_rs r e) = previousEpoch e" "previousEpoch (set_previous p e) = p"
  by (simp_all add: set_rs_def set_votes_def set_next_def set_previous_def set_data_def)

text \<open>A codec with these properties.\<close>

definition unary :: "nat \<Rightarrow> bytes" where
  "unary n = replicate (Suc n) 1"

lemma unary_simps [simp]: "unary n \<noteq> []" "length (unary n) = Suc n"
  by (simp_all add: unary_def)

definition val_tuple :: "validator \<Rightarrow> bytes \<times> bytes \<times> int \<times> uint64" where
  "val_tuple v = (Address v, PubKey v, VotingPower v, RemainingEpoch v)"

definition tuple_val :: "bytes \<times> bytes \<times> int \<times> uint64 \<Rightarrow> validator" where
  "tuple_val t = (case t of (a, p, x, r) \<Rightarrow> \<lparr>Address = a, PubKey = p, VotingPower = x, RemainingEpoch = r\<rparr>)"

definition vote_tuple :: "epoch_vote \<Rightarrow> bytes \<times> bytes option \<times> int option \<times> string \<times> bytes \<times> bytes" where
  "vote_tuple v = (ev_Address v, ev_PubKey v, ev_Amount v, ev_Salt v, ev_VoteHash v, ev_TxHash v)"

definition tuple_vote :: "bytes \<times> bytes option \<times> int option \<times> string \<times> bytes \<times> bytes \<Rightarrow> epoch_vote" where
  "tuple_vote t = (case t of (a, p, x, s, h, tx) \<Rightarrow>
     \<lparr>ev_Address = a, ev_PubKey = p, ev_Amount = x, ev_Salt = s, ev_VoteHash = h, ev_TxHash = tx\<rparr>)"

definition epoch_tuple ::
  "epoch_data \<Rightarrow> uint64 \<times> int \<times> uint64 \<times> uint64 \<times> int \<times> int \<times> int \<times> int \<times> (bytes \<times> bytes \<times> int \<times> uint64) list" where
  "epoch_tuple d = (Number d, RewardPerBlock d, StartBlock d, EndBlock d, StartTime d, EndTime d,
     BlockGenerated d, Status d, map val_tuple (Validators (ep_Validators d)))"

definition tuple_epoch ::
  "uint64 \<times> int \<times> uint64 \<times> uint64 \<times> int \<times> int \<times> int \<times> int \<times> (bytes \<times> bytes \<times> int \<times> uint64) list \<Rightarrow> epoch_data" where
  "tuple_epoch t = (case t of (n, r, s, e, st, et, b, u, vs) \<Rightarrow>
     \<lparr>Number = n, RewardPerBlock = r, StartBlock = s, EndBlock = e, StartTime = st, EndTime = et,
      BlockGenerated = b, Status = u, ep_Validators = \<lparr>Validators = map tuple_val vs, totalVotingPower = None\<rparr>\<rparr>)"

definition sample_wire :: wire where
  "sample_wire =
     \<lparr>epoch_bytes = (\<lambda>d. unary (to_nat (epoch_tuple d))),
      read_epoch = (\<lambda>b. Some (tuple_epoch (from_nat (length b - 1)))),
      votes_bytes = (\<lambda>vs. unary (to_nat (map vote_tuple vs))),
      read_votes = (\<lambda>b. Some (map tuple_vote (from_nat (length b - 1)))),
      scheme_bytes = (\<lambda>r. unary (to_nat (TotalReward r, RewardFirstYear r, EpochNumberPerYear r, TotalYear r))),
      read_scheme = (\<lambda>b. case from_nat (length b - 1) of (t, f, e, y) \<Rightarrow>
         Some \<lparr>TotalReward = t, RewardFirstYear = f, EpochNumberPerYear = e, TotalYear = y\<rparr>),
      read_time = (\<lambda>t. t)\<rparr>"

lemma sample_wire_laws: "wire_laws sample_wire"
proof -
  have v: "tuple_val (val_tuple v) = v" and w: "tuple_vote (vote_tuple u) = u" for v u
    by (simp_all add: tuple_val_def val_tuple_def tuple_vote_def vote_tuple_def)
  have "tuple_epoch (epoch_tuple d) = exported sample_wire d" for d
    by (simp add: tuple_epoch_def epoch_tuple_def exported_def sample_wire_def v map_idI)
  then show ?thesis
    by (simp add: wire_laws_def sample_wire_def w map_idI)
qed

text \<open>
  C34: A restarted node resumes where it saved.  After \<open>Save\<close>, \<open>InitEpoch\<close> on the same
  database ignores the genesis document and returns the saved epoch, with the reward scheme
  of the database; a next epoch that had been voted and not yet saved is now stored with
  status saved and is linked again after the restart, together with its vote set.
\<close>
theorem epoch_restart:
  assumes "wire_laws W" "Epoch_Save W e db = (e', db')"
    and "\<forall>n. nextEpoch e = Some n \<longrightarrow> Number (ep n) = Number (ep e) + 1"
  shows "\<exists>e2. InitEpoch W now sch doc db' = (Some e2, db') \<and> ep e2 = exported W (ep e) \<and>
    rs e2 = LoadRewardScheme W db \<and>
    (\<forall>n. nextEpoch e = Some n \<longrightarrow> Status (ep n) = EPOCH_VOTED_NOT_SAVED \<longrightarrow>
       nextEpoch e' = Some (set_data (\<lambda>d. d\<lparr>Status := EPOCH_SAVED\<rparr>) n) \<and>
       (\<exists>n2. nextEpoch e2 = Some n2 \<and> ep n2 = exported W ((ep n)\<lparr>Status := EPOCH_SAVED\<rparr>) \<and>
          validatorVoteSet n2 = LoadEpochVoteSet W db (Number (ep n))))"
proof -
  let ?k = "Number (ep e)"
  have db': "db' latestEpochKey = Some (text_bytes (decimal (unat ?k)))"
      "db' (calcEpochKeyWithHeight ?k) = Some (epoch_bytes W (ep e))"
      "db' (calcEpochValidatorVoteKey j) = db (calcEpochValidatorVoteKey j)"
      "db' rewardSchemeKey = db rewardSchemeKey" for j
    using assms(2,3) by (auto simp: Epoch_Save_def Let_def split: option.splits if_splits)
  have nx: "db' (calcEpochKeyWithHeight (?k + 1)) = Some (epoch_bytes W ((ep n)\<lparr>Status := EPOCH_SAVED\<rparr>)) \<and>
      nextEpoch e' = Some (set_data (\<lambda>d. d\<lparr>Status := EPOCH_SAVED\<rparr>) n) \<and> Number (ep n) = ?k + 1"
    if "nextEpoch e = Some n" "Status (ep n) = EPOCH_VOTED_NOT_SAVED" for n
    using assms(2,3) that by (auto simp: Epoch_Save_def Let_def)
  note load = load_saved [OF assms(1), where db = db']
  have votes: "LoadEpochVoteSet W db' j = LoadEpochVoteSet W db j"
    and scheme: "LoadRewardScheme W db' = LoadRewardScheme W db" for j
    by (simp_all add: LoadEpochVoteSet_def LoadRewardScheme_def db_get_def db')
  obtain e2 where e2: "LoadOneEpoch W db' ?k = Some e2" "ep e2 = exported W (ep e)"
      "rs e2 = LoadRewardScheme W db" "nextEpoch e2 = map_option (\<lambda>n. set_votes (LoadEpochVoteSet W db (?k + 1))
        (set_rs (LoadRewardScheme W db) n)) (loadOneEpoch W db' (?k + 1))"
    by (simp add: LoadOneEpoch_def load [OF db'(2)] Let_def votes scheme)
  have "InitEpoch W now sch doc db' = (Some e2, db')"
    by (simp add: InitEpoch_def db'(1) e2(1))
  moreover have "\<exists>n2. nextEpoch e2 = Some n2 \<and> ep n2 = exported W ((ep n)\<lparr>Status := EPOCH_SAVED\<rparr>) \<and>
      validatorVoteSet n2 = LoadEpochVoteSet W db (Number (ep n))"
    if "nextEpoch e = Some n" "Status (ep n) = EPOCH_VOTED_NOT_SAVED" for n
    using nx [OF that] by (simp add: e2(4) load)
  ultimately show ?thesis
    using e2(2,3) nx by blast
qed

definition sample_epoch_data :: "uint64 \<Rightarrow> int \<Rightarrow> epoch_data" where
  "sample_epoch_data n st =
     \<lparr>Number = n, RewardPerBlock = 5, StartBlock = 100 * n, EndBlock = 100 * n + 99, StartTime = 0,
      EndTime = 0, BlockGenerated = 0, Status = st, ep_Validators = \<lparr>Validators = [], totalVotingPower = None\<rparr>\<rparr>"

definition sample_scheme :: reward_scheme where
  "sample_scheme = \<lparr>TotalReward = 1000, RewardFirstYear = 100, EpochNumberPerYear = 10, TotalYear = 10\<rparr>"

definition sample_doc :: one_epoch_doc where
  "sample_doc = \<lparr>doc_Number = 0, doc_RewardPerBlock = 1, doc_StartBlock = 0, doc_EndBlock = 99, doc_Status = 0,
     doc_Validators = []\<rparr>"

theorem epoch_restart_witness:
  "let n = Epoch (sample_epoch_data 4 EPOCH_VOTED_NOT_SAVED) None None None None;
       e = Epoch (sample_epoch_data 3 EPOCH_SAVED) None None None (Some n);
       db' = snd (Epoch_Save sample_wire e Map.empty) in
   \<exists>e2. InitEpoch sample_wire 0 sample_scheme sample_doc db' = (Some e2, db') \<and> Number (ep e2) = 3 \<and>
     map_option (\<lambda>n. Status (ep n)) (nextEpoch e2) = Some EPOCH_SAVED"
proof -
  let ?n = "Epoch (sample_epoch_data 4 EPOCH_VOTED_NOT_SAVED) None None None None"
  let ?e = "Epoch (sample_epoch_data 3 EPOCH_SAVED) None None None (Some ?n)"
  show ?thesis
    using epoch_restart [OF sample_wire_laws surjective_pairing, where e = ?e and db = Map.empty
        and now = 0 and sch = sample_scheme and doc = sample_doc]
    by (auto simp: Let_def sample_epoch_data_def exported_def)
qed

text \<open>
  C11: A vote for the next epoch is recorded once, in memory and on disk.  If the next epoch's
  vote set has at most one vote per address, \<open>UpdateNextEpoch\<close> succeeds, saves the set, and
  afterwards the stored set has exactly one vote of the voter, with the new amount and
  transaction, keeps all votes of the others, and still has at most one vote per address; the
  next epoch answers with the same votes as the database.
\<close>
theorem next_epoch_vote_recorded:
  assumes "wire_laws W" "nextEpoch e = Some n" "validatorVoteSet n = Some vs" "vt_ok vs"
  shows "\<exists>e' db' vs'. UpdateNextEpoch W voter pk amount tx e db = Some (e', db') \<and>
    map_option validatorVoteSet (nextEpoch e') = Some (Some vs') \<and> vt_ok vs' \<and>
    map_option votes_of (LoadEpochVoteSet W db' (Number (ep n))) = Some (votes_of vs') \<and>
    (\<exists>v. filter (\<lambda>w. ev_Address w = voter) (votes_of vs') = [v] \<and> ev_Amount v = Some amount \<and> ev_TxHash v = tx) \<and>
    filter (\<lambda>w. ev_Address w \<noteq> voter) (votes_of vs') = filter (\<lambda>w. ev_Address w \<noteq> voter) (votes_of vs)"
proof -
  define nv where "nv = \<lparr>ev_Address = voter, ev_PubKey = Some pk, ev_Amount = Some amount, ev_Salt = ''neatio'',
    ev_VoteHash = zero_hash, ev_TxHash = tx\<rparr>"
  define up where "up = (\<lambda>v :: epoch_vote. v\<lparr>ev_Amount := Some amount, ev_TxHash := tx\<rparr>)"
  have nx: "next_votes W db e = Some (Some vs, n, set_next (Some n) e)"
    by (simp add: next_votes_def GetNextEpoch_def assms(2,3) GetEpochValidatorVoteSet_def)
  have fin: ?thesis
    if r: "UpdateNextEpoch W voter pk amount tx e db = Some (save_next_votes W (Some vs) vs' n (set_next (Some n) e) db)"
      and ok: "vt_ok vs'" and one: "\<exists>v. filter (\<lambda>w. ev_Address w = voter) (votes_of vs') = [v] \<and> ev_Amount v = Some amount \<and> ev_TxHash v = tx"
      and others: "filter (\<lambda>w. ev_Address w \<noteq> voter) (votes_of vs') = filter (\<lambda>w. ev_Address w \<noteq> voter) (votes_of vs)" for vs'
  proof -
    have l: "map_option votes_of (LoadEpochVoteSet W (SaveEpochVoteSet W (Number (ep n)) vs' db) (Number (ep n))) = Some (votes_of vs')"
      by (simp add: load_votes_saved [OF assms(1)] table_of_ok(2) [OF votes_distinct [OF ok]])
    show ?thesis
      by (rule exI [of _ "set_next (Some (set_votes (Some vs') n)) (set_next (Some n) e)"],
          rule exI [of _ "SaveEpochVoteSet W (Number (ep n)) vs' db"], rule exI [of _ vs'])
        (use r ok one others l in \<open>simp add: save_next_votes_def\<close>)
  qed
  show ?thesis
  proof (cases "GetVoteByAddress vs voter")
    case None
    then have "votesByAddress vs voter = None"
      by (simp add: GetVoteByAddress_def)
    obtain vs' where vs': "StoreVote nv vs = Some vs'"
      using StoreVote_eq [OF assms(4)] by blast
    note sv = StoreVote_votes [OF assms(4) vs']
    show ?thesis
    proof (rule fin [OF _ sv(1)])
      show "UpdateNextEpoch W voter pk amount tx e db = Some (save_next_votes W (Some vs) vs' n (set_next (Some n) e) db)"
        using vs' by (simp add: UpdateNextEpoch_def nx None nv_def)
    qed (simp_all add: sv(2) nv_def)
  next
    case (Some r)
    have a: "\<forall>w. ev_Address (up w) = ev_Address w"
      by (simp add: up_def)
    note su = set_vote_votes [OF assms(4) Some a]
    have "r \<in> set (Votes vs)" "ev_Address (vt_store vs ! r) = voter"
      using Some vt_okD(3) [OF assms(4), of voter r] by (simp_all add: GetVoteByAddress_def)
    then have mem: "voter \<in> ev_Address ` set (votes_of vs)"
      by (force simp: votes_of_def)
    have fm: "filter (\<lambda>w. ev_Address w = voter) (map (\<lambda>w. if ev_Address w = voter then up w else w) ws)
        = map up (filter (\<lambda>w. ev_Address w = voter) ws)"
      "filter (\<lambda>w. ev_Address w \<noteq> voter) (map (\<lambda>w. if ev_Address w = voter then up w else w) ws)
        = filter (\<lambda>w. ev_Address w \<noteq> voter) ws" for ws
      using a by (induction ws) auto
    obtain v where v: "filter (\<lambda>w. ev_Address w = voter) (votes_of vs) = [v]"
      using single_vote [OF votes_distinct [OF assms(4)] mem] by blast
    show ?thesis
    proof (rule fin [OF _ su(1)])
      show "UpdateNextEpoch W voter pk amount tx e db =
          Some (save_next_votes W (Some vs) (set_vote r up vs) n (set_next (Some n) e) db)"
        by (simp add: UpdateNextEpoch_def nx Some up_def)
    qed (simp_all add: su(2) fm v, simp add: up_def)
  qed
qed

theorem next_epoch_vote_recorded_witness:
  "let vs = table_of [\<lparr>ev_Address = [1], ev_PubKey = Some [9], ev_Amount = Some 5, ev_Salt = ''neatio'',
         ev_VoteHash = zero_hash, ev_TxHash = [3]\<rparr>];
       n = Epoch (sample_epoch_data 4 EPOCH_SAVED) (Some vs) None None None;
       e = Epoch (sample_epoch_data 3 EPOCH_SAVED) None None None (Some n) in
   \<exists>e' db' vs'. UpdateNextEpoch sample_wire [1] [9] 8 [4] e Map.empty = Some (e', db') \<and>
     map_option validatorVoteSet (nextEpoch e') = Some (Some vs') \<and>
     (\<exists>v. filter (\<lambda>w. ev_Address w = [1]) (votes_of vs') = [v] \<and> ev_Amount v = Some 8)"
proof -
  let ?v = "\<lparr>ev_Address = [1], ev_PubKey = Some [9], ev_Amount = Some 5, ev_Salt = ''neatio'',
      ev_VoteHash = zero_hash, ev_TxHash = [3]\<rparr>"
  let ?n = "Epoch (sample_epoch_data 4 EPOCH_SAVED) (Some (table_of [?v])) None None None"
  have "vt_ok (table_of [?v])"
    by (rule table_of_ok) simp
  from next_epoch_vote_recorded [OF sample_wire_laws _ _ this,
      where e = "Epoch (sample_epoch_data 3 EPOCH_SAVED) None None None (Some ?n)" and n = ?n and
        db = Map.empty and voter = "[1]" and pk = "[9]" and amount = 8 and tx = "[4]"]
  show ?thesis
    unfolding Let_def epoch.sel by blast
qed

end
