(* ===== verification/EpochTimes.thy ===== *)
theory EpochTimes
  imports EpochStore
begin

section \<open>The length of an epoch and moving from one to the next\<close>

text \<open>
  The part of \<open>epoch.go\<close> that sizes, proposes, finds and enters epochs, and the hook
  \<open>updateLocalEpoch\<close> of \<open>state/execution.go\<close> that records a proposed epoch.  Durations are
  64-bit nanoseconds, with the saturation of \<open>Time.Sub\<close>, the truncation of Go's division and
  the wrap-around of its conversions written out; division by zero is a panic
  (\<^term>\<open>None\<close>).  \<open>Time.AddDate\<close> depends on the location of the clock and is the parameter
  \<open>AddYears\<close>.
\<close>

subsection \<open>Durations and big integers\<close>

definition time_Sub :: "int \<Rightarrow> int \<Rightarrow> int" where
  "time_Sub t u = max (- (2 ^ 63)) (min (2 ^ 63 - 1) (t - u))"

text \<open>Euclidean division of big integers.\<close>

definition big_Div :: "int \<Rightarrow> int \<Rightarrow> int option" where
  "big_Div a b = (if b = 0 then None else Some (if 0 < b then a div b else - (a div (- b))))"

subsection \<open>Proposing the next epoch\<close>

definition calculateRewardPerEpochByYear :: "int \<Rightarrow> int \<Rightarrow> int \<Rightarrow> int \<Rightarrow> int option" where
  "calculateRewardPerEpochByYear rewardFirstYear year totalYear epochNumberPerYear =
     (if year > totalYear then Some 0 else big_Div rewardFirstYear epochNumberPerYear)"

definition EMERGENCY_BLOCKS_OF_NEXT_EPOCH :: uint64 where
  "EMERGENCY_BLOCKS_OF_NEXT_EPOCH = 100"

definition timePerBlockOfEpoch :: "uint64 \<Rightarrow> int \<Rightarrow> epoch \<Rightarrow> int option" where
  "timePerBlockOfEpoch lastBlockHeight lastBlockTime e =
     map_option (\<lambda>t. if t = 0 then 1000000000 else t)
       (case previousEpoch e of
          Some prevEpoch \<Rightarrow>
            int64_quot (time_Sub (EndTime (ep prevEpoch)) (StartTime (ep prevEpoch)))
              (int_of_u64 (EndBlock (ep prevEpoch) - StartBlock (ep prevEpoch)))
        | None \<Rightarrow>
            int64_quot (time_Sub lastBlockTime (StartTime (ep e)))
              (int_of_u64 (lastBlockHeight - StartBlock (ep e))))"

text \<open>\<open>estimateForNextEpoch\<close>: the reward per block and the number of blocks.\<close>

definition at_least_emergency :: "uint64 \<Rightarrow> uint64" where
  "at_least_emergency blocks =
     (if blocks < EMERGENCY_BLOCKS_OF_NEXT_EPOCH then EMERGENCY_BLOCKS_OF_NEXT_EPOCH else blocks)"

definition reward_and_blocks :: "reward_scheme \<Rightarrow> uint64 \<Rightarrow> uint64 \<Rightarrow> (int \<times> uint64) option" where
  "reward_and_blocks r year blocks =
     (let blocksOfNextEpoch = at_least_emergency blocks in
      do { rewardPerEpoch \<leftarrow> calculateRewardPerEpochByYear (RewardFirstYear r) (int_of_u64 year)
             (int_of_u64 (TotalYear r)) (int_of_u64 (EpochNumberPerYear r));
           rewardPerBlock \<leftarrow> big_Div rewardPerEpoch (int_of_u64 blocksOfNextEpoch);
           Some (rewardPerBlock, blocksOfNextEpoch) })"

definition estimateForNextEpoch ::
  "wire \<Rightarrow> (int \<Rightarrow> int \<Rightarrow> int) \<Rightarrow> uint64 \<Rightarrow> int \<Rightarrow> epoch \<Rightarrow> store \<Rightarrow> (int \<times> uint64) option" where
  "estimateForNextEpoch W AddYears lastBlockHeight lastBlockTime e db =
     (case (rs e, loadOneEpoch W db 0) of
        (Some r, Some zeroEpoch) \<Rightarrow>
          (let initStartTime = StartTime (ep zeroEpoch); perYear = EpochNumberPerYear r in
           if perYear = 0 then None
           else
             (let thisYear = Number (ep e) div perYear; nextYear = thisYear + 1;
                  epochLeftThisYear = perYear - Number (ep e) mod perYear - 1;
                  nextYearStartTime = AddYears initStartTime (int_of_u64 nextYear)
              in case timePerBlockOfEpoch lastBlockHeight lastBlockTime e of
                   None \<Rightarrow> None
                 | Some perBlock \<Rightarrow>
                     if epochLeftThisYear = 0
                     then (let nextYearEndTime = AddYears nextYearStartTime 1;
                               timeLeftNextYear = time_Sub nextYearEndTime nextYearStartTime
                           in do { perEpoch \<leftarrow> int64_quot timeLeftNextYear (int_of_u64 perYear);
                                   blocks \<leftarrow> int64_quot perEpoch perBlock;
                                   reward_and_blocks r nextYear (u64_of_int blocks) })
                     else (let timeLeftThisYear = time_Sub nextYearStartTime lastBlockTime
                           in if timeLeftThisYear > 0
                              then do { perEpoch \<leftarrow> int64_quot timeLeftThisYear (int_of_u64 epochLeftThisYear);
                                        blocks \<leftarrow> int64_quot perEpoch perBlock;
                                        reward_and_blocks r thisYear (u64_of_int blocks) }
                              else reward_and_blocks r thisYear 0)))
      | _ \<Rightarrow> None)"

text \<open>The zero value of \<open>time.Time\<close>, the first of January of the year one.\<close>

definition zeroTime :: int where
  "zeroTime = - 62135596800000000000"

definition ProposeNextEpoch ::
  "wire \<Rightarrow> (int \<Rightarrow> int \<Rightarrow> int) \<Rightarrow> uint64 \<Rightarrow> int \<Rightarrow> epoch \<Rightarrow> store \<Rightarrow> epoch option" where
  "ProposeNextEpoch W AddYears lastBlockHeight lastBlockTime e db =
     map_option (\<lambda>(rewardPerBlock, blocks).
       Epoch \<lparr>Number = Number (ep e) + 1, RewardPerBlock = rewardPerBlock,
              StartBlock = EndBlock (ep e) + 1, EndBlock = EndBlock (ep e) + blocks,
              StartTime = zeroTime, EndTime = zeroTime, BlockGenerated = 0,
              Status = EPOCH_PROPOSED_NOT_VOTED,
              ep_Validators = ValidatorSet_Copy (ep_Validators (ep e))\<rparr> None None None None)
       (estimateForNextEpoch W AddYears lastBlockHeight lastBlockTime e db)"

text \<open>The errors of merging votes, with the values their messages print.\<close>

datatype set_change_error =
  FailedToAdd address int
| FailedToRemove bytes
| FailedToUpdate bytes int

datatype epoch_error = NextEpochNotExist | NextEpochNotEXPECTED | ValidatorSetChange set_change_error

text \<open>The warning prints the rejected epoch, so a missing one is a panic.\<close>

definition ValidateNextEpoch ::
  "'b ext \<Rightarrow> wire \<Rightarrow> (int \<Rightarrow> int \<Rightarrow> int) \<Rightarrow> epoch option \<Rightarrow> uint64 \<Rightarrow> int \<Rightarrow> epoch \<Rightarrow> store \<Rightarrow>
   (epoch_error + unit) option" where
  "ValidateNextEpoch E W AddYears next lastHeight lastBlockTime e db =
     (case ProposeNextEpoch W AddYears lastHeight lastBlockTime e db of
        None \<Rightarrow> None
      | Some myNextEpoch \<Rightarrow>
          if Epoch_Equals E (Some myNextEpoch) next False then Some (Inr ())
          else (case next of None \<Rightarrow> None | Some _ \<Rightarrow> Some (Inl NextEpochNotEXPECTED)))"

subsection \<open>Finding an epoch\<close>

definition covers :: "epoch \<Rightarrow> uint64 \<Rightarrow> bool" where
  "covers e blockNumber \<longleftrightarrow> blockNumber \<ge> StartBlock (ep e) \<and> blockNumber \<le> EndBlock (ep e)"

text \<open>
  The loop counts an unsigned number down under the condition \<open>number >= 0\<close>, which always
  holds; it stops at an epoch that covers the block or cannot be loaded.  Not returning is
  \<^term>\<open>None\<close>.
\<close>

partial_function (option) find_epoch :: "wire \<Rightarrow> store \<Rightarrow> uint64 \<Rightarrow> uint64 \<Rightarrow> epoch option option" where
  "find_epoch W db blockNumber number =
     (case loadOneEpoch W db number of
        None \<Rightarrow> Some None
      | Some e \<Rightarrow> if covers e blockNumber then Some (Some e)
                  else find_epoch W db blockNumber (number - 1))"

definition GetEpochByBlockNumber :: "wire \<Rightarrow> store \<Rightarrow> uint64 \<Rightarrow> epoch \<Rightarrow> epoch option option" where
  "GetEpochByBlockNumber W db blockNumber e =
     (if covers e blockNumber then Some (Some e) else find_epoch W db blockNumber (Number (ep e) - 1))"

subsection \<open>Entering the next epoch\<close>

definition EnterNewEpoch ::
  "wire \<Rightarrow> int \<Rightarrow> validator_set \<Rightarrow> epoch \<Rightarrow> store \<Rightarrow> (epoch_error + epoch) \<times> epoch \<times> store" where
  "EnterNewEpoch W now newValidators e db =
     (case nextEpoch e of
        None \<Rightarrow> (Inl NextEpochNotExist, e, db)
      | Some _ \<Rightarrow>
          (let (e1, db1) = Epoch_Save W (set_data (\<lambda>d. d\<lparr>EndTime := now\<rparr>) e) db;
               n = (case nextEpoch e1 of Some n \<Rightarrow> n | None \<Rightarrow> e1);
               n1 = set_next None (set_data (\<lambda>d. d\<lparr>StartTime := now, ep_Validators := newValidators\<rparr>)
                      (set_previous (Some (Epoch_Copy e1)) n));
               (n2, db2) = Epoch_Save W n1 db1
           in (Inr n2, set_next (Some n2) e1, db2)))"

text \<open>
  The hook run when a block is inserted, with the epoch of the block's extra data
  (\<open>ncExtra.EpochBytes\<close>) decoded.  \<^term>\<open>None\<close> is the panic of a missing next or
  previous epoch.
\<close>

definition updateLocalEpoch :: "wire \<Rightarrow> uint64 \<Rightarrow> bytes \<Rightarrow> epoch \<Rightarrow> store \<Rightarrow> (epoch \<times> store) option" where
  "updateLocalEpoch W blockNumber epochBytes currentEpoch db =
     (if blockNumber = 0 then Some (currentEpoch, db)
      else case FromBytes W epochBytes of
        None \<Rightarrow> Some (currentEpoch, db)
      | Some epochInBlock \<Rightarrow>
          if Number (ep epochInBlock) = Number (ep currentEpoch) + 1
          then (if blockNumber = StartBlock (ep currentEpoch) + 1 \<or> blockNumber = 2
                then Some (Epoch_Save W (SetNextEpoch (Some (set_rs (rs currentEpoch)
                       (set_data (\<lambda>d. d\<lparr>Status := EPOCH_VOTED_NOT_SAVED\<rparr>) epochInBlock))) currentEpoch) db)
                else if blockNumber = EndBlock (ep currentEpoch)
                then (let e1 = GetNextEpoch W db currentEpoch in
                      case nextEpoch e1 of
                        None \<Rightarrow> None
                      | Some n \<Rightarrow> Some (Epoch_Save W (set_next (Some (set_data (\<lambda>d. d\<lparr>
                           ep_Validators := ep_Validators (ep epochInBlock),
                           Status := EPOCH_VOTED_NOT_SAVED\<rparr>) n)) e1) db))
                else Some (Epoch_Save W currentEpoch db))
          else if Number (ep epochInBlock) = Number (ep currentEpoch)
          then (let (e1, db1) = Epoch_Save W (set_data (\<lambda>d. d\<lparr>StartTime := StartTime (ep epochInBlock)\<rparr>) currentEpoch) db in
                if Number (ep e1) > 0
                then (case previousEpoch e1 of
                        None \<Rightarrow> None
                      | Some p \<Rightarrow>
                          Some (set_previous (Some (set_data (\<lambda>d. d\<lparr>EndTime := StartTime (ep epochInBlock)\<rparr>) p)) e1,
                                UpdateEpochEndTime W (Number (ep e1) - 1) (StartTime (ep epochInBlock)) db1))
                else Some (e1, db1))
          else Some (currentEpoch, db))"

subsection \<open>The lookup returns\<close>

lemma find_epoch_returns:
  assumes "loadOneEpoch W db (- 1) = None" "m < 2 ^ 64"
  shows "\<exists>r. find_epoch W db n (of_nat m) = Some r \<and>
    (case r of Some e' \<Rightarrow> covers e' n
     | None \<Rightarrow> \<forall>i \<le> m. (\<forall>j. i \<le> j \<and> j \<le> m \<longrightarrow> loadOneEpoch W db (of_nat j) \<noteq> None) \<longrightarrow>
         \<not> covers (the (loadOneEpoch W db (of_nat i))) n)"
  using assms(2)
proof (induction m)
  case 0
  show ?case
  proof (cases "loadOneEpoch W db 0")
    case (Some e)
    have "find_epoch W db n (- 1) = Some None"
      by (subst find_epoch.simps) (simp add: assms(1))
    then show ?thesis
      by (subst find_epoch.simps) (simp add: Some)
  qed (subst find_epoch.simps, auto)
next
  case (Suc m)
  show ?case
  proof (cases "loadOneEpoch W db (of_nat (Suc m))")
    case None
    then show ?thesis
      by (subst find_epoch.simps) (auto simp del: of_nat_Suc)
  next
    case (Some e)
    show ?thesis
    proof (cases "covers e n")
      case True
      then show ?thesis
        by (subst find_epoch.simps) (simp add: Some del: of_nat_Suc)
    next
      case False
      have "(of_nat (Suc m) :: uint64) - 1 = of_nat m"
        by simp
      then have step: "find_epoch W db n (of_nat (Suc m)) = find_epoch W db n (of_nat m)"
        by (subst find_epoch.simps) (simp only: Some option.case False if_False)
      obtain r where r: "find_epoch W db n (of_nat m) = Some r"
        "case r of Some e' \<Rightarrow> covers e' n
         | None \<Rightarrow> \<forall>i \<le> m. (\<forall>j. i \<le> j \<and> j \<le> m \<longrightarrow> loadOneEpoch W db (of_nat j) \<noteq> None) \<longrightarrow>
             \<not> covers (the (loadOneEpoch W db (of_nat i))) n"
        using Suc by auto
      have "\<not> covers (the (loadOneEpoch W db (of_nat i))) n"
        if "r = None" "i \<le> Suc m" "\<forall>j. i \<le> j \<and> j \<le> Suc m \<longrightarrow> loadOneEpoch W db (of_nat j) \<noteq> None" for i
        using that r(2) False Some by (cases "i = Suc m") (auto simp del: of_nat_Suc)
      then show ?thesis
        unfolding step using r by (auto split: option.splits)
    qed
  qed
qed

text \<open>
  C35: Looking up the epoch of a block terminates.  The loop of \<open>GetEpochByBlockNumber\<close>
  counts an unsigned number down under a condition that is always true, but it returns as
  soon as the database holds no epoch with the largest 64-bit number: the answer is an epoch
  that covers the block, or nothing, and then no stored epoch above the most recent gap
  covers the block, and neither does the current one.
\<close>
theorem epoch_lookup_terminates:
  assumes "loadOneEpoch W db (- 1) = None"
  shows "\<exists>r. GetEpochByBlockNumber W db n e = Some r \<and>
    (case r of Some e' \<Rightarrow> covers e' n
     | None \<Rightarrow> \<not> covers e n \<and>
         (\<forall>i < Number (ep e). (\<forall>j. i \<le> j \<and> j < Number (ep e) \<longrightarrow> loadOneEpoch W db j \<noteq> None) \<longrightarrow>
            \<not> covers (the (loadOneEpoch W db i)) n))"
proof (cases "covers e n")
  case True
  then show ?thesis
    by (simp add: GetEpochByBlockNumber_def)
next
  case False
  show ?thesis
  proof (cases "Number (ep e) = 0")
    case True
    have "find_epoch W db n (- 1) = Some None"
      by (subst find_epoch.simps) (simp add: assms)
    then show ?thesis
      using False True by (simp add: GetEpochByBlockNumber_def)
  next
    case pos: False
    define m where "m = unat (Number (ep e)) - 1"
    have m: "Number (ep e) - 1 = of_nat m" "m < 2 ^ 64" "unat (Number (ep e)) = Suc m"
    proof -
      have "unat (Number (ep e)) < 2 ^ 64"
        using unsigned_less [of "Number (ep e)"] by simp
      then show "m < 2 ^ 64"
        by (simp add: m_def)
    qed (use pos unat_gt_0 [of "Number (ep e)"] in \<open>auto simp: m_def of_nat_diff\<close>)
    obtain r where r: "find_epoch W db n (of_nat m) = Some r"
      "case r of Some e' \<Rightarrow> covers e' n
       | None \<Rightarrow> \<forall>i \<le> m. (\<forall>j. i \<le> j \<and> j \<le> m \<longrightarrow> loadOneEpoch W db (of_nat j) \<noteq> None) \<longrightarrow>
           \<not> covers (the (loadOneEpoch W db (of_nat i))) n"
      using find_epoch_returns [OF assms m(2), of n] by blast
    have "\<not> covers (the (loadOneEpoch W db i)) n"
      if "r = None" "i < Number (ep e)" "\<forall>j. i \<le> j \<and> j < Number (ep e) \<longrightarrow> loadOneEpoch W db j \<noteq> None" for i
    proof -
      have "loadOneEpoch W db (of_nat j) \<noteq> None" if "unat i \<le> j" "j \<le> m" for j
      proof -
        have "unat (of_nat j :: uint64) = j"
          using that(2) m(2) by (simp add: unat_of_nat)
        then show ?thesis
          using \<open>\<forall>j. i \<le> j \<and> j < Number (ep e) \<longrightarrow> loadOneEpoch W db j \<noteq> None\<close> that m(3)
          by (simp add: word_le_nat_alt word_less_nat_alt)
      qed
      moreover have "unat i \<le> m"
        using that(2) m(3) by (simp add: word_less_nat_alt)
      ultimately show ?thesis
        using r(2) \<open>r = None\<close> by (auto dest!: spec [of _ "unat i"])
    qed
    then show ?thesis
      using False r by (auto simp: GetEpochByBlockNumber_def m(1) split: option.splits)
  qed
qed

theorem epoch_lookup_terminates_witness:
  "(let db = Map.empty(calcEpochKeyWithHeight 0 \<mapsto> epoch_bytes sample_wire (sample_epoch_data 0 EPOCH_SAVED));
        e = Epoch (sample_epoch_data 1 EPOCH_SAVED) None None None None in
    \<exists>e'. GetEpochByBlockNumber sample_wire db 7 e = Some (Some e') \<and> covers e' 7)"
proof -
  let ?d = "sample_epoch_data 0 EPOCH_SAVED"
  let ?db = "Map.empty(calcEpochKeyWithHeight 0 \<mapsto> epoch_bytes sample_wire ?d)"
  let ?e = "Epoch (sample_epoch_data 1 EPOCH_SAVED) None None None None"
  have none: "loadOneEpoch sample_wire ?db (- 1) = None"
    by (simp add: loadOneEpoch_def FromBytes_def db_get_def)
  have load: "loadOneEpoch sample_wire ?db 0 = Some (Epoch (exported sample_wire ?d) None None None None)"
    by (rule load_saved [OF sample_wire_laws]) simp
  have cov: "covers (the (loadOneEpoch sample_wire ?db 0)) 7"
    unfolding load by (simp add: covers_def exported_def sample_epoch_data_def)
  have one: "j < Number (ep ?e) \<longleftrightarrow> j = 0" for j
    by (simp add: sample_epoch_data_def)
  obtain r where r: "GetEpochByBlockNumber sample_wire ?db 7 ?e = Some r"
    "case r of Some e' \<Rightarrow> covers e' 7
     | None \<Rightarrow> \<not> covers ?e 7 \<and>
         (\<forall>i < Number (ep ?e). (\<forall>j. i \<le> j \<and> j < Number (ep ?e) \<longrightarrow> loadOneEpoch sample_wire ?db j \<noteq> None) \<longrightarrow>
            \<not> covers (the (loadOneEpoch sample_wire ?db i)) 7)"
    using epoch_lookup_terminates [OF none, of 7 ?e] by blast
  then show ?thesis
    using cov load unfolding Let_def one by (cases r) auto
qed

subsection \<open>The size and the reward of a proposed epoch\<close>

lemma at_least_emergency_ge: "100 \<le> at_least_emergency b"
  by (simp add: at_least_emergency_def EMERGENCY_BLOCKS_OF_NEXT_EPOCH_def not_less)

lemma reward_and_blocks_bounds:
  assumes "reward_and_blocks r year b = Some (reward, blocks)" "0 \<le> RewardFirstYear r"
    and "0 < int_of_u64 (EpochNumberPerYear r)" "0 < int_of_u64 blocks"
  shows "100 \<le> blocks" "0 \<le> reward"
    "reward * int_of_u64 blocks \<le> RewardFirstYear r div int_of_u64 (EpochNumberPerYear r)"
proof -
  let ?p = "int_of_u64 (EpochNumberPerYear r)"
  obtain x where x: "calculateRewardPerEpochByYear (RewardFirstYear r) (int_of_u64 year)
      (int_of_u64 (TotalYear r)) ?p = Some x" "big_Div x (int_of_u64 blocks) = Some reward"
      "blocks = at_least_emergency b"
    using assms(1) by (auto simp: reward_and_blocks_def Let_def bind_eq_Some_conv)
  have "0 \<le> RewardFirstYear r div ?p"
    using assms(2,3) by (simp add: pos_imp_zdiv_nonneg_iff)
  then have x2: "0 \<le> x" "x \<le> RewardFirstYear r div ?p"
    using x(1) assms(3) by (auto simp: calculateRewardPerEpochByYear_def big_Div_def split: if_splits)
  have rw: "reward = x div int_of_u64 blocks"
    using x(2) assms(4) by (simp add: big_Div_def split: if_splits)
  show "100 \<le> blocks"
    by (simp add: x(3) at_least_emergency_ge)
  show "0 \<le> reward"
    unfolding rw using x2(1) assms(4) by (simp add: pos_imp_zdiv_nonneg_iff)
  have "reward * int_of_u64 blocks \<le> x"
    unfolding rw using minus_mod_eq_div_mult [of x "int_of_u64 blocks"] pos_mod_sign [OF assms(4), of x]
    by linarith
  then show "reward * int_of_u64 blocks \<le> RewardFirstYear r div ?p"
    using x2(2) by linarith
qed

lemma int_of_u64_small: "uint w < 2 ^ 63 \<Longrightarrow> int_of_u64 w = uint w"
  using int_of_u64_u64_of_int [of "uint w"] by (simp add: u64_of_int_def)

lemma int_of_u64_positive: "0 < int_of_u64 w \<Longrightarrow> int_of_u64 w = uint w \<and> uint w < 2 ^ 63"
  using int_of_u64_nonneg [of w] int_of_u64_range(2) [of w] by simp

lemma time_Sub_forward: "u \<le> t \<Longrightarrow> 0 \<le> time_Sub t u \<and> time_Sub t u < 2 ^ 63"
  by (simp add: time_Sub_def)

lemma time_Sub_less: "time_Sub t u < 2 ^ 63"
  by (simp add: time_Sub_def)

lemma quot_range:
  assumes "0 \<le> a" "a < 2 ^ 63" "0 < b"
  obtains q where "int64_quot a b = Some q" "0 \<le> q" "q < 2 ^ 63"
proof -
  have "0 \<le> a div b" using assms by (simp add: pos_imp_zdiv_nonneg_iff)
  moreover have "a div b \<le> a" using assms zdiv_mono2 [of a 1 b] by simp
  ultimately show thesis
    using that [of "a div b"] int64_quot_pos [of a b] assms by simp
qed

text \<open>
  The clock and the heights from which the time per block is estimated run forward: over the
  previous epoch, or over the current one when it is the first.
\<close>

definition clock_forward :: "uint64 \<Rightarrow> int \<Rightarrow> epoch \<Rightarrow> bool" where
  "clock_forward lastBlockHeight lastBlockTime e \<longleftrightarrow>
     (case previousEpoch e of
        Some p \<Rightarrow> StartTime (ep p) \<le> EndTime (ep p) \<and> 0 < int_of_u64 (EndBlock (ep p) - StartBlock (ep p))
      | None \<Rightarrow> StartTime (ep e) \<le> lastBlockTime \<and> 0 < int_of_u64 (lastBlockHeight - StartBlock (ep e)))"

lemma timePerBlock_pos:
  assumes "clock_forward h t e"
  obtains p where "timePerBlockOfEpoch h t e = Some p" "0 < p"
proof (cases "previousEpoch e")
  case None
  with assms obtain q where "int64_quot (time_Sub t (StartTime (ep e))) (int_of_u64 (h - StartBlock (ep e))) = Some q"
      "0 \<le> q" "q < 2 ^ 63"
    using quot_range time_Sub_forward by (metis (no_types, lifting) clock_forward_def option.simps(4))
  then show thesis
    using that [of "if q = 0 then 1000000000 else q"] None by (simp add: timePerBlockOfEpoch_def)
next
  case (Some z)
  with assms obtain q where "int64_quot (time_Sub (EndTime (ep z)) (StartTime (ep z)))
      (int_of_u64 (EndBlock (ep z) - StartBlock (ep z))) = Some q" "0 \<le> q" "q < 2 ^ 63"
    using quot_range time_Sub_forward by (metis (no_types, lifting) clock_forward_def option.simps(5))
  then show thesis
    using that [of "if q = 0 then 1000000000 else q"] Some by (simp add: timePerBlockOfEpoch_def)
qed

lemma emergency_value:
  assumes "0 \<le> b" "b < 2 ^ 63"
  shows "uint (at_least_emergency (u64_of_int b)) = max 100 b"
    and "int_of_u64 (at_least_emergency (u64_of_int b)) = max 100 b"
proof -
  have u: "uint (u64_of_int b) = b"
    using unat_u64_of_int [OF assms] assms(1) by (simp add: uint_nat)
  show v: "uint (at_least_emergency (u64_of_int b)) = max 100 b"
    by (auto simp: at_least_emergency_def EMERGENCY_BLOCKS_OF_NEXT_EPOCH_def word_less_def u)
  show "int_of_u64 (at_least_emergency (u64_of_int b)) = max 100 b"
    using int_of_u64_small [of "at_least_emergency (u64_of_int b)"] v assms(2) by simp
qed

lemma reward_and_blocks_total:
  assumes "0 \<le> b" "b < 2 ^ 63" "0 < int_of_u64 (EpochNumberPerYear r)"
  shows "\<exists>reward. reward_and_blocks r year (u64_of_int b) = Some (reward, at_least_emergency (u64_of_int b))"
  using emergency_value(2) [OF assms(1,2)] assms(3)
  by (simp add: reward_and_blocks_def Let_def calculateRewardPerEpochByYear_def big_Div_def)

text \<open>The epochs left in a year are read as a positive signed number.\<close>

lemma epochs_left_pos:
  fixes n p :: uint64
  assumes "0 < int_of_u64 p" "p - n mod p - 1 \<noteq> 0"
  shows "0 < int_of_u64 (p - n mod p - 1)"
proof -
  have p: "0 < uint p" "uint p < 2 ^ 63" using int_of_u64_positive [OF assms(1)] assms(1) by simp_all
  have m: "uint (n mod p) < uint p" "0 \<le> uint (n mod p)"
    using p(1) by (simp_all add: uint_mod)
  have "uint (p - n mod p) = uint p - uint (n mod p)"
    using m by (simp add: uint_sub_if')
  then have "uint (p - n mod p - 1) = uint p - uint (n mod p) - 1"
    using m by (simp add: uint_sub_if')
  moreover from this have "uint (p - n mod p - 1) \<noteq> 0"
    using assms(2) by (metis uint_0_iff)
  moreover have "0 \<le> uint (p - n mod p - 1)" by simp
  moreover have "uint p - uint (n mod p) - 1 < 2 ^ 63" using p(2) m(2) by linarith
  ultimately show ?thesis
    using int_of_u64_small [of "p - n mod p - 1"] by linarith
qed

lemma estimate_total:
  assumes "rs e = Some r" "loadOneEpoch W db 0 = Some z" "0 < int_of_u64 (EpochNumberPerYear r)"
    and "clock_forward h t e" "\<And>u. u \<le> AddYears u 1"
  obtains reward b year where "0 \<le> b" "b < 2 ^ 63"
    "reward_and_blocks r year (u64_of_int b) = Some (reward, at_least_emergency (u64_of_int b))"
    "estimateForNextEpoch W AddYears h t e db = Some (reward, at_least_emergency (u64_of_int b))"
proof -
  let ?p = "EpochNumberPerYear r" let ?left = "?p - Number (ep e) mod ?p - 1"
  let ?next = "AddYears (StartTime (ep z)) (int_of_u64 (Number (ep e) div ?p + 1))"
  obtain pb where pb: "timePerBlockOfEpoch h t e = Some pb" "0 < pb" by (rule timePerBlock_pos [OF assms(4)])
  have nz: "?p \<noteq> 0" using assms(3) by (auto simp: int_of_u64_def)
  have blocks: "\<exists>q b. int64_quot left k = Some q \<and> int64_quot q pb = Some b \<and> 0 \<le> b \<and> b < 2 ^ 63"
    if "0 \<le> left" "left < 2 ^ 63" "0 < k" for left k
    using quot_range [OF that] quot_range [of _ pb] pb(2) by metis
  consider (next_year) "?left = 0" | (late) "?left \<noteq> 0" "time_Sub ?next t \<le> 0"
    | (this_year) "?left \<noteq> 0" "0 < time_Sub ?next t" by linarith
  then show thesis
  proof cases
    case next_year
    obtain q b where "int64_quot (time_Sub (AddYears ?next 1) ?next) (int_of_u64 ?p) = Some q"
        "int64_quot q pb = Some b" "0 \<le> b" "b < 2 ^ 63"
      using blocks time_Sub_forward [OF assms(5) [of ?next]] assms(3) by blast
    with reward_and_blocks_total [of b r "Number (ep e) div ?p + 1"] show thesis
      using that [of b "Number (ep e) div ?p + 1"] next_year assms(1-3) pb nz
      by (auto simp: estimateForNextEpoch_def Let_def)
  next
    case late
    have u0: "(0 :: uint64) = u64_of_int 0" by (simp add: u64_of_int_def)
    show thesis
      using reward_and_blocks_total [of 0 r "Number (ep e) div ?p"] that [of 0 "Number (ep e) div ?p"]
        late assms(1-3) pb nz
      by (auto simp: estimateForNextEpoch_def Let_def u0 [symmetric])
  next
    case this_year
    obtain q b where "int64_quot (time_Sub ?next t) (int_of_u64 ?left) = Some q"
        "int64_quot q pb = Some b" "0 \<le> b" "b < 2 ^ 63"
      using blocks [OF less_imp_le [OF this_year(2)] time_Sub_less epochs_left_pos [OF assms(3) this_year(1)]]
      by blast
    with reward_and_blocks_total [of b r "Number (ep e) div ?p"] show thesis
      using that [of b "Number (ep e) div ?p"] this_year assms(1-3) pb nz
      by (auto simp: estimateForNextEpoch_def Let_def)
  qed
qed

text \<open>
  C36: Proposing the next epoch succeeds, continues the chain and stays within the emission plan.
  Suppose epoch 0 is stored, the number of epochs per year is positive as a signed integer, the
  yearly reward is not negative, the clock and the block numbers from which the time per block is
  estimated run forward, adding a year does not go back in time, and the current epoch ends below
  block \<open>2^63\<close>.  Then \<open>ProposeNextEpoch\<close> does not panic; the next epoch has the next number, keeps
  the validators, starts right after the current one ends and its last block is at least a hundred
  blocks after that end, none of the block numbers wrapping around; the reward per block is not
  negative; and all blocks of the epoch together pay at most the yearly reward divided by the epochs
  of a year.
\<close>
theorem proposed_epoch_bounds:
  assumes "rs e = Some r" and "loadOneEpoch W db 0 = Some z"
    and "0 < int_of_u64 (EpochNumberPerYear r)" and "0 \<le> RewardFirstYear r"
    and "clock_forward h t e" and "\<And>u. u \<le> AddYears u 1" and "uint (EndBlock (ep e)) < 2 ^ 63"
  shows "\<exists>n. ProposeNextEpoch W AddYears h t e db = Some n \<and>
    Number (ep n) = Number (ep e) + 1 \<and> ep_Validators (ep n) = ep_Validators (ep e) \<and>
    uint (StartBlock (ep n)) = uint (EndBlock (ep e)) + 1 \<and>
    100 \<le> uint (EndBlock (ep n)) - uint (EndBlock (ep e)) \<and> 0 \<le> RewardPerBlock (ep n) \<and>
    RewardPerBlock (ep n) * (uint (EndBlock (ep n)) - uint (EndBlock (ep e)))
      \<le> RewardFirstYear r div int_of_u64 (EpochNumberPerYear r)"
proof -
  obtain reward b year where b: "0 \<le> b" "b < 2 ^ 63"
    and rb: "reward_and_blocks r year (u64_of_int b) = Some (reward, at_least_emergency (u64_of_int b))"
    and est: "estimateForNextEpoch W AddYears h t e db = Some (reward, at_least_emergency (u64_of_int b))"
    by (rule estimate_total [where AddYears = AddYears, OF assms(1-3,5,6)])
  let ?k = "at_least_emergency (u64_of_int b)"
  note k = emergency_value [OF b]
  have bounds: "0 \<le> reward" "reward * max 100 b \<le> RewardFirstYear r div int_of_u64 (EpochNumberPerYear r)"
    using reward_and_blocks_bounds [OF rb assms(4,3)] k(2) by simp_all
  obtain n where n: "ProposeNextEpoch W AddYears h t e db = Some n" "Number (ep n) = Number (ep e) + 1"
      "StartBlock (ep n) = EndBlock (ep e) + 1" "EndBlock (ep n) = EndBlock (ep e) + ?k"
      "ep_Validators (ep n) = ep_Validators (ep e)" "RewardPerBlock (ep n) = reward"
    using est by (auto simp: ProposeNextEpoch_def ValidatorSet_Copy_def)
  have "uint (EndBlock (ep n)) = uint (EndBlock (ep e)) + max 100 b"
    using k(1) b(2) assms(7) by (simp add: n(4) uint_plus_if')
  moreover have "uint (StartBlock (ep n)) = uint (EndBlock (ep e)) + 1"
    using assms(7) by (simp add: n(3) uint_plus_if')
  ultimately show ?thesis using n bounds by auto
qed

theorem proposed_epoch_bounds_witness:
  "(let db = Map.empty(calcEpochKeyWithHeight 0 \<mapsto> epoch_bytes sample_wire (sample_epoch_data 0 EPOCH_SAVED));
        e = Epoch (sample_epoch_data 0 EPOCH_SAVED) None (Some (sample_scheme\<lparr>RewardFirstYear := 900000000\<rparr>)) None None;
        n = ProposeNextEpoch sample_wire (\<lambda>t y. t + y * 31536000000000000) 50 50000000000 e db in
    \<exists>n'. n = Some n' \<and> uint (StartBlock (ep n')) = 100 \<and> 199 \<le> uint (EndBlock (ep n')) \<and>
      RewardPerBlock (ep n') * (uint (EndBlock (ep n')) - 99) \<le> 90000000)"
proof -
  let ?db = "Map.empty(calcEpochKeyWithHeight 0 \<mapsto> epoch_bytes sample_wire (sample_epoch_data 0 EPOCH_SAVED))"
  let ?r = "sample_scheme\<lparr>RewardFirstYear := 900000000\<rparr>"
  let ?e = "Epoch (sample_epoch_data 0 EPOCH_SAVED) None (Some ?r) None None"
  have load: "loadOneEpoch sample_wire ?db 0 = Some (Epoch (exported sample_wire (sample_epoch_data 0 EPOCH_SAVED)) None None None None)"
    by (rule load_saved [OF sample_wire_laws]) simp
  have "0 < int_of_u64 (EpochNumberPerYear ?r)" "0 \<le> RewardFirstYear ?r" "clock_forward 50 50000000000 ?e"
    "uint (EndBlock (ep ?e)) = 99" "int_of_u64 (EpochNumberPerYear ?r) = 10"
    by code_simp+
  then show ?thesis
    using proposed_epoch_bounds [where AddYears = "\<lambda>t y. t + y * 31536000000000000" and h = 50
        and t = 50000000000 and e = ?e and r = ?r, OF _ load]
    unfolding Let_def by fastforce
qed

subsection \<open>The switch survives a restart\<close>

text \<open>
  C37: Entering an epoch is durable.  When \<open>EnterNewEpoch\<close> moves to the next epoch, it
  carries the new validators and starts now, and a node restarted afterwards on the same
  database resumes in that epoch with those validators, linked to the previous epoch, which
  has ended at the moment of the switch.  Without a next epoch the call is an error and
  nothing is stored.
\<close>
theorem enter_epoch_durable:
  assumes "wire_laws W"
  shows "case nextEpoch e of
      None \<Rightarrow> EnterNewEpoch W now vals e db = (Inl NextEpochNotExist, e, db)
    | Some n \<Rightarrow> Number (ep n) = Number (ep e) + 1 \<longrightarrow> Number (ep n) \<noteq> 0 \<longrightarrow>
        (\<exists>n' e' db' e2 p. EnterNewEpoch W now vals e db = (Inr n', e', db') \<and>
           ep_Validators (ep n') = vals \<and> StartTime (ep n') = now \<and> nextEpoch n' = None \<and>
           InitEpoch W now' sch doc db' = (Some e2, db') \<and> ep e2 = exported W (ep n') \<and>
           previousEpoch e2 = Some p \<and> ep p = exported W ((ep e)\<lparr>EndTime := now\<rparr>))"
proof (cases "nextEpoch e")
  case None
  then show ?thesis
    by (simp add: EnterNewEpoch_def)
next
  case (Some n)
  let ?e0 = "set_data (\<lambda>d. d\<lparr>EndTime := now\<rparr>) e"
  obtain e1 db1 where s1: "Epoch_Save W ?e0 db = (e1, db1)"
    by fastforce
  obtain n1 where n1: "nextEpoch e1 = Some n1" "Number (ep n1) = Number (ep n)" and e1: "ep e1 = ep ?e0"
    using s1 Some by (auto simp: Epoch_Save_def Let_def split: if_splits)
  let ?n = "set_next None (set_data (\<lambda>d. d\<lparr>StartTime := now, ep_Validators := vals\<rparr>)
      (set_previous (Some (Epoch_Copy e1)) n1))"
  obtain n2 db2 where s2: "Epoch_Save W ?n db1 = (n2, db2)"
    by fastforce
  have n2: "n2 = ?n"
      "db2 = db1(calcEpochKeyWithHeight (Number (ep ?n)) \<mapsto> epoch_bytes W (ep ?n),
         latestEpochKey \<mapsto> text_bytes (decimal (unat (Number (ep ?n)))))"
    using s2 by (auto simp: Epoch_Save_def Let_def)
  have en: "EnterNewEpoch W now vals e db = (Inr n2, set_next (Some n2) e1, db2)"
    by (simp add: EnterNewEpoch_def Some s1 n1(1) s2)
  show ?thesis
    unfolding Some option.case
  proof (intro impI)
    assume k: "Number (ep n) = Number (ep e) + 1" "Number (ep n) \<noteq> 0"
    have key: "db1 (calcEpochKeyWithHeight (Number (ep e))) = Some (epoch_bytes W ((ep e)\<lparr>EndTime := now\<rparr>))"
      using s1 Some k(1) by (auto simp: Epoch_Save_def Let_def split: if_splits)
    have ne: "Number (ep e) \<noteq> Number (ep n)"
      using k(1) by simp
    have load: "loadOneEpoch W db2 (Number (ep n)) = Some (Epoch (exported W (ep ?n)) None None None None)"
      by (rule load_saved [OF assms]) (simp add: n2(2) n1(2))
    have loadp: "loadOneEpoch W db2 (Number (ep n) - 1) =
        Some (Epoch (exported W ((ep e)\<lparr>EndTime := now\<rparr>)) None None None None)"
      by (rule load_saved [OF assms]) (use key ne in \<open>simp add: n2(2) n1(2) k(1)\<close>)
    obtain e2 where e2: "LoadOneEpoch W db2 (Number (ep n)) = Some e2" "ep e2 = exported W (ep ?n)"
        "\<exists>p. previousEpoch e2 = Some p \<and> ep p = exported W ((ep e)\<lparr>EndTime := now\<rparr>)"
      using k(2) by (simp add: LoadOneEpoch_def load loadp Let_def word_gt_0)
    then have "InitEpoch W now' sch doc db2 = (Some e2, db2)"
      by (simp add: InitEpoch_def n2(2) n1(2))
    then show "\<exists>n' e' db' e2 p. EnterNewEpoch W now vals e db = (Inr n', e', db') \<and>
           ep_Validators (ep n') = vals \<and> StartTime (ep n') = now \<and> nextEpoch n' = None \<and>
           InitEpoch W now' sch doc db' = (Some e2, db') \<and> ep e2 = exported W (ep n') \<and>
           previousEpoch e2 = Some p \<and> ep p = exported W ((ep e)\<lparr>EndTime := now\<rparr>)"
      using en e2(2,3) unfolding n2(1) by auto
  qed
qed

theorem enter_epoch_durable_witness:
  "(let n = Epoch (sample_epoch_data 4 EPOCH_SAVED) None None None None;
        e = Epoch (sample_epoch_data 3 EPOCH_SAVED) None None None (Some n);
        vals = \<lparr>Validators = [NewValidator [1] [2] 7], totalVotingPower = None\<rparr> in
    \<exists>n' e' db' e2. EnterNewEpoch sample_wire 12345 vals e Map.empty = (Inr n', e', db') \<and>
      InitEpoch sample_wire 0 sample_scheme sample_doc db' = (Some e2, db') \<and>
      Number (ep e2) = 4 \<and> ep_Validators (ep e2) = vals)"
proof -
  let ?n = "Epoch (sample_epoch_data 4 EPOCH_SAVED) None None None None"
  let ?e = "Epoch (sample_epoch_data 3 EPOCH_SAVED) None None None (Some ?n)"
  let ?vals = "\<lparr>Validators = [NewValidator [1] [2] 7], totalVotingPower = None\<rparr>"
  have num: "Number (ep n') = 4" if "EnterNewEpoch sample_wire 12345 ?vals ?e Map.empty = (Inr n', e', db')" for n' e' db'
    using that
    by (auto simp: EnterNewEpoch_def Epoch_Save_def sample_epoch_data_def Let_def EPOCH_SAVED_def
        EPOCH_VOTED_NOT_SAVED_def)
  obtain n' e' db' e2 where "EnterNewEpoch sample_wire 12345 ?vals ?e Map.empty = (Inr n', e', db')"
      "ep_Validators (ep n') = ?vals" "InitEpoch sample_wire 0 sample_scheme sample_doc db' = (Some e2, db')"
      "ep e2 = exported sample_wire (ep n')"
    using enter_epoch_durable [OF sample_wire_laws, where e = ?e and now = 12345 and vals = ?vals and db = Map.empty
        and now' = 0 and sch = sample_scheme and doc = sample_doc]
    by (auto simp: sample_epoch_data_def)
  then show ?thesis
    using num by (auto simp: Let_def exported_def)
qed

end
