(* ===== verification/StateDB.thy ===== *)
theory StateDB
  imports StateTypes
begin

section \<open>The state database\<close>

text \<open>
  The operations of \<open>core/state\<close>: the methods of \<open>stateObject\<close> (\<open>state_object.go\<close>,
  \<open>state_object1.go\<close>, \<open>state_object_delegate.go\<close>, \<open>state_object_reward.go\<close>), the
  journal's \<open>undo\<close> methods (\<open>journal.go\<close>) and the methods of \<open>StateDB\<close>
  (\<open>statedb*.go\<close>).

  A \<open>*stateObject\<close> that the code holds is always the live object of its address, so a
  method of an object is a function of the address and the database, which also carries
  the journal and the dirty set that the method writes.  The branch for an absent object
  in such a function is the nil receiver that \<open>getStateObject\<close> and
  \<open>GetOrNewStateObject\<close> exclude.  Functions that may panic return an option.
\<close>

subsection \<open>Live objects\<close>

definition push :: "journal_entry \<Rightarrow> statedb \<Rightarrow> statedb" where
  "push e db = db\<lparr>journal := journal db @ [e]\<rparr>"

definition MarkStateObjectDirty :: "address \<Rightarrow> statedb \<Rightarrow> statedb" where
  "MarkStateObjectDirty addr db = db\<lparr>stateObjectsDirty := List.insert addr (stateObjectsDirty db)\<rparr>"

definition setStateObject :: "state_object \<Rightarrow> statedb \<Rightarrow> statedb" where
  "setStateObject obj db = db\<lparr>stateObjects := (stateObjects db)(so_address obj \<mapsto> obj)\<rparr>"

definition getStateObject :: "address \<Rightarrow> statedb \<Rightarrow> state_object option \<times> statedb" where
  "getStateObject addr db =
     (case stateObjects db addr of
        Some obj \<Rightarrow> (if deleted obj then None else Some obj, db)
      | None \<Rightarrow>
          (case trie db addr of
             None \<Rightarrow> (None, db)
           | Some data \<Rightarrow>
               (let obj = newObject addr data True in (Some obj, setStateObject obj db))))"

definition createObject :: "address \<Rightarrow> statedb \<Rightarrow> state_object option \<times> statedb" where
  "createObject addr db =
     (let (prev, db1) = getStateObject addr db;
          newobj = newObject addr new_account False;
          db2 = MarkStateObjectDirty addr db1;
          db3 = push (case prev of None \<Rightarrow> createObjectChange addr
                      | Some p \<Rightarrow> resetObjectChange p) db2
      in (prev, setStateObject newobj db3))"

definition GetOrNewStateObject :: "address \<Rightarrow> statedb \<Rightarrow> statedb" where
  "GetOrNewStateObject addr db =
     (let (obj, db1) = getStateObject addr db in
      case obj of
        None \<Rightarrow> snd (createObject addr db1)
      | Some s \<Rightarrow> if deleted s then snd (createObject addr db1) else db1)"

text \<open>
  A write to the fields of a live object followed by
  \<open>if self.onDirty != nil { self.onDirty(self.Address()); self.onDirty = nil }\<close>.
\<close>

definition write_object ::
  "address \<Rightarrow> (state_object \<Rightarrow> state_object) \<Rightarrow> statedb \<Rightarrow> statedb" where
  "write_object addr f db =
     (case stateObjects db addr of
        None \<Rightarrow> db
      | Some obj \<Rightarrow>
          (let db1 = (if onDirty obj then MarkStateObjectDirty addr db else db)
           in db1\<lparr>stateObjects := (stateObjects db1)(addr \<mapsto> (f obj)\<lparr>onDirty := False\<rparr>)\<rparr>))"

text \<open>A write to the fields of a live object with nothing else, e.g. to its read caches.\<close>

definition modify_object ::
  "address \<Rightarrow> (state_object \<Rightarrow> state_object) \<Rightarrow> statedb \<Rightarrow> statedb" where
  "modify_object addr f db =
     (case stateObjects db addr of
        None \<Rightarrow> db
      | Some obj \<Rightarrow> db\<lparr>stateObjects := (stateObjects db)(addr \<mapsto> f obj)\<rparr>)"

definition markSuicided :: "address \<Rightarrow> statedb \<Rightarrow> statedb" where
  "markSuicided addr = write_object addr (\<lambda>obj. obj\<lparr>suicided := True\<rparr>)"

definition touch :: "address \<Rightarrow> statedb \<Rightarrow> statedb" where
  "touch addr db =
     (case stateObjects db addr of
        None \<Rightarrow> db
      | Some obj \<Rightarrow>
          write_object addr (\<lambda>obj. obj\<lparr>touched := True\<rparr>)
            (push (touchChange addr (touched obj) (\<not> onDirty obj)) db))"

subsection \<open>The balances of an object\<close>

text \<open>
  The four methods that every balance has: \<open>setX\<close> writes the field, \<open>SetX\<close> journals the
  old value first, \<open>AddX\<close> and \<open>SubX\<close> compute the new value; adding zero only touches an
  empty object.
\<close>

definition set_balance :: "balance_field \<Rightarrow> address \<Rightarrow> int \<Rightarrow> statedb \<Rightarrow> statedb" where
  "set_balance f addr amount =
     write_object addr (\<lambda>obj. obj\<lparr>so_data := put_field f amount (so_data obj)\<rparr>)"

definition Set_balance :: "balance_field \<Rightarrow> address \<Rightarrow> int \<Rightarrow> statedb \<Rightarrow> statedb" where
  "Set_balance f addr amount db =
     (case stateObjects db addr of
        None \<Rightarrow> db
      | Some obj \<Rightarrow>
          set_balance f addr amount (push (field_change f addr (get_field f (so_data obj))) db))"

definition Add_balance :: "balance_field \<Rightarrow> address \<Rightarrow> int \<Rightarrow> statedb \<Rightarrow> statedb" where
  "Add_balance f addr amount db =
     (case stateObjects db addr of
        None \<Rightarrow> db
      | Some obj \<Rightarrow>
          if amount = 0 then (if so_empty obj then touch addr db else db)
          else Set_balance f addr (get_field f (so_data obj) + amount) db)"

definition Sub_balance :: "balance_field \<Rightarrow> address \<Rightarrow> int \<Rightarrow> statedb \<Rightarrow> statedb" where
  "Sub_balance f addr amount db =
     (case stateObjects db addr of
        None \<Rightarrow> db
      | Some obj \<Rightarrow>
          if amount = 0 then db
          else Set_balance f addr (get_field f (so_data obj) - amount) db)"

definition so_SetBalance :: "address \<Rightarrow> int \<Rightarrow> statedb \<Rightarrow> statedb" where
  "so_SetBalance = Set_balance F_Balance"
definition so_AddBalance :: "address \<Rightarrow> int \<Rightarrow> statedb \<Rightarrow> statedb" where
  "so_AddBalance = Add_balance F_Balance"
definition so_SubBalance :: "address \<Rightarrow> int \<Rightarrow> statedb \<Rightarrow> statedb" where
  "so_SubBalance = Sub_balance F_Balance"

definition so_SetDepositBalance :: "address \<Rightarrow> int \<Rightarrow> statedb \<Rightarrow> statedb" where
  "so_SetDepositBalance = Set_balance F_Deposit"
definition so_AddDepositBalance :: "address \<Rightarrow> int \<Rightarrow> statedb \<Rightarrow> statedb" where
  "so_AddDepositBalance = Add_balance F_Deposit"
definition so_SubDepositBalance :: "address \<Rightarrow> int \<Rightarrow> statedb \<Rightarrow> statedb" where
  "so_SubDepositBalance = Sub_balance F_Deposit"

definition so_SetChainBalance :: "address \<Rightarrow> int \<Rightarrow> statedb \<Rightarrow> statedb" where
  "so_SetChainBalance = Set_balance F_Chain"
definition so_AddChainBalance :: "address \<Rightarrow> int \<Rightarrow> statedb \<Rightarrow> statedb" where
  "so_AddChainBalance = Add_balance F_Chain"
definition so_SubChainBalance :: "address \<Rightarrow> int \<Rightarrow> statedb \<Rightarrow> statedb" where
  "so_SubChainBalance = Sub_balance F_Chain"

definition so_SetDelegateBalance :: "address \<Rightarrow> int \<Rightarrow> statedb \<Rightarrow> statedb" where
  "so_SetDelegateBalance = Set_balance F_Delegate"
definition so_AddDelegateBalance :: "address \<Rightarrow> int \<Rightarrow> statedb \<Rightarrow> statedb" where
  "so_AddDelegateBalance = Add_balance F_Delegate"
definition so_SubDelegateBalance :: "address \<Rightarrow> int \<Rightarrow> statedb \<Rightarrow> statedb" where
  "so_SubDelegateBalance = Sub_balance F_Delegate"

definition so_SetProxiedBalance :: "address \<Rightarrow> int \<Rightarrow> statedb \<Rightarrow> statedb" where
  "so_SetProxiedBalance = Set_balance F_Proxied"
definition so_AddProxiedBalance :: "address \<Rightarrow> int \<Rightarrow> statedb \<Rightarrow> statedb" where
  "so_AddProxiedBalance = Add_balance F_Proxied"
definition so_SubProxiedBalance :: "address \<Rightarrow> int \<Rightarrow> statedb \<Rightarrow> statedb" where
  "so_SubProxiedBalance = Sub_balance F_Proxied"

definition so_SetDepositProxiedBalance :: "address \<Rightarrow> int \<Rightarrow> statedb \<Rightarrow> statedb" where
  "so_SetDepositProxiedBalance = Set_balance F_DepositProxied"
definition so_AddDepositProxiedBalance :: "address \<Rightarrow> int \<Rightarrow> statedb \<Rightarrow> statedb" where
  "so_AddDepositProxiedBalance = Add_balance F_DepositProxied"
definition so_SubDepositProxiedBalance :: "address \<Rightarrow> int \<Rightarrow> statedb \<Rightarrow> statedb" where
  "so_SubDepositProxiedBalance = Sub_balance F_DepositProxied"

definition so_SetPendingRefundBalance :: "address \<Rightarrow> int \<Rightarrow> statedb \<Rightarrow> statedb" where
  "so_SetPendingRefundBalance = Set_balance F_PendingRefund"
definition so_AddPendingRefundBalance :: "address \<Rightarrow> int \<Rightarrow> statedb \<Rightarrow> statedb" where
  "so_AddPendingRefundBalance = Add_balance F_PendingRefund"
definition so_SubPendingRefundBalance :: "address \<Rightarrow> int \<Rightarrow> statedb \<Rightarrow> statedb" where
  "so_SubPendingRefundBalance = Sub_balance F_PendingRefund"

definition so_SetRewardBalance :: "address \<Rightarrow> int \<Rightarrow> statedb \<Rightarrow> statedb" where
  "so_SetRewardBalance = Set_balance F_Reward"
definition so_AddRewardBalance :: "address \<Rightarrow> int \<Rightarrow> statedb \<Rightarrow> statedb" where
  "so_AddRewardBalance = Add_balance F_Reward"
definition so_SubRewardBalance :: "address \<Rightarrow> int \<Rightarrow> statedb \<Rightarrow> statedb" where
  "so_SubRewardBalance = Sub_balance F_Reward"

definition so_SetAvailableRewardBalance :: "address \<Rightarrow> int \<Rightarrow> statedb \<Rightarrow> statedb" where
  "so_SetAvailableRewardBalance = Set_balance F_AvailableReward"
definition so_AddAvailableRewardBalance :: "address \<Rightarrow> int \<Rightarrow> statedb \<Rightarrow> statedb" where
  "so_AddAvailableRewardBalance = Add_balance F_AvailableReward"
definition so_SubAvailableRewardBalance :: "address \<Rightarrow> int \<Rightarrow> statedb \<Rightarrow> statedb" where
  "so_SubAvailableRewardBalance = Sub_balance F_AvailableReward"

lemmas balance_methods =
  so_SetBalance_def so_AddBalance_def so_SubBalance_def
  so_SetDepositBalance_def so_AddDepositBalance_def so_SubDepositBalance_def
  so_SetChainBalance_def so_AddChainBalance_def so_SubChainBalance_def
  so_SetDelegateBalance_def so_AddDelegateBalance_def so_SubDelegateBalance_def
  so_SetProxiedBalance_def so_AddProxiedBalance_def so_SubProxiedBalance_def
  so_SetDepositProxiedBalance_def so_AddDepositProxiedBalance_def so_SubDepositProxiedBalance_def
  so_SetPendingRefundBalance_def so_AddPendingRefundBalance_def so_SubPendingRefundBalance_def
  so_SetRewardBalance_def so_AddRewardBalance_def so_SubRewardBalance_def
  so_SetAvailableRewardBalance_def so_AddAvailableRewardBalance_def
  so_SubAvailableRewardBalance_def

subsection \<open>The other fields of an object\<close>

definition setNonce :: "address \<Rightarrow> uint64 \<Rightarrow> statedb \<Rightarrow> statedb" where
  "setNonce addr nonce = write_object addr (\<lambda>obj. obj\<lparr>so_data := so_data obj\<lparr>Nonce := nonce\<rparr>\<rparr>)"

definition so_SetNonce :: "address \<Rightarrow> uint64 \<Rightarrow> statedb \<Rightarrow> statedb" where
  "so_SetNonce addr nonce db =
     (case stateObjects db addr of None \<Rightarrow> db
      | Some obj \<Rightarrow> setNonce addr nonce (push (nonceChange addr (Nonce (so_data obj))) db))"

definition setCandidate :: "address \<Rightarrow> bool \<Rightarrow> statedb \<Rightarrow> statedb" where
  "setCandidate addr b = write_object addr (\<lambda>obj. obj\<lparr>so_data := so_data obj\<lparr>Candidate := b\<rparr>\<rparr>)"

definition so_SetCandidate :: "address \<Rightarrow> bool \<Rightarrow> statedb \<Rightarrow> statedb" where
  "so_SetCandidate addr b db =
     (case stateObjects db addr of None \<Rightarrow> db
      | Some obj \<Rightarrow> setCandidate addr b (push (candidateChange addr (Candidate (so_data obj))) db))"

definition setPubkey :: "address \<Rightarrow> string \<Rightarrow> statedb \<Rightarrow> statedb" where
  "setPubkey addr k = write_object addr (\<lambda>obj. obj\<lparr>so_data := so_data obj\<lparr>Pubkey := k\<rparr>\<rparr>)"

definition so_SetPubkey :: "address \<Rightarrow> string \<Rightarrow> statedb \<Rightarrow> statedb" where
  "so_SetPubkey addr k db =
     (case stateObjects db addr of None \<Rightarrow> db
      | Some obj \<Rightarrow> setPubkey addr k (push (pubkeyChange addr (Pubkey (so_data obj))) db))"

definition setCommission :: "address \<Rightarrow> 8 word \<Rightarrow> statedb \<Rightarrow> statedb" where
  "setCommission addr c = write_object addr (\<lambda>obj. obj\<lparr>so_data := so_data obj\<lparr>Commission := c\<rparr>\<rparr>)"

definition so_SetCommission :: "address \<Rightarrow> 8 word \<Rightarrow> statedb \<Rightarrow> statedb" where
  "so_SetCommission addr c db =
     (case stateObjects db addr of None \<Rightarrow> db
      | Some obj \<Rightarrow> setCommission addr c (push (commissionChange addr (Commission (so_data obj))) db))"

definition setBanned :: "address \<Rightarrow> bool \<Rightarrow> statedb \<Rightarrow> statedb" where
  "setBanned addr b = write_object addr (\<lambda>obj. obj\<lparr>so_data := so_data obj\<lparr>IsBanned := b\<rparr>\<rparr>)"

definition so_SetBanned :: "address \<Rightarrow> bool \<Rightarrow> statedb \<Rightarrow> statedb" where
  "so_SetBanned addr b db =
     (case stateObjects db addr of None \<Rightarrow> db
      | Some obj \<Rightarrow> setBanned addr b (push (bannedChange addr (IsBanned (so_data obj))) db))"

definition setBlockTime :: "address \<Rightarrow> int \<Rightarrow> statedb \<Rightarrow> statedb" where
  "setBlockTime addr t = write_object addr (\<lambda>obj. obj\<lparr>so_data := so_data obj\<lparr>BlockTime := t\<rparr>\<rparr>)"

definition so_SetBlockTime :: "address \<Rightarrow> int \<Rightarrow> statedb \<Rightarrow> statedb" where
  "so_SetBlockTime addr t db =
     (case stateObjects db addr of None \<Rightarrow> db
      | Some obj \<Rightarrow> setBlockTime addr t (push (blockTimeChange addr (BlockTime (so_data obj))) db))"

definition setBannedTime :: "address \<Rightarrow> int \<Rightarrow> statedb \<Rightarrow> statedb" where
  "setBannedTime addr t = write_object addr (\<lambda>obj. obj\<lparr>so_data := so_data obj\<lparr>BannedTime := t\<rparr>\<rparr>)"

definition so_SetBannedTime :: "address \<Rightarrow> int \<Rightarrow> statedb \<Rightarrow> statedb" where
  "so_SetBannedTime addr t db =
     (case stateObjects db addr of None \<Rightarrow> db
      | Some obj \<Rightarrow> setBannedTime addr t (push (bannedTimeChange addr (BannedTime (so_data obj))) db))"

subsection \<open>Code, storage and cross-chain transactions\<close>

text \<open>\<open>stateObject.Code\<close>: the cached code, nothing for the empty code hash, or the code database.\<close>

definition code_read :: "statedb \<Rightarrow> state_object \<Rightarrow> bytes option" where
  "code_read db obj =
     (case so_code obj of
        Some c \<Rightarrow> Some c
      | None \<Rightarrow> if CodeHash (so_data obj) = emptyCodeHash then None
                else codeDB db (BytesToHash (CodeHash (so_data obj))))"

definition setCode :: "address \<Rightarrow> hash \<Rightarrow> bytes option \<Rightarrow> statedb \<Rightarrow> statedb" where
  "setCode addr codeHash code =
     write_object addr (\<lambda>obj. obj\<lparr>so_code := code, dirtyCode := True,
                                  so_data := so_data obj\<lparr>CodeHash := codeHash\<rparr>\<rparr>)"

definition so_SetCode :: "address \<Rightarrow> hash \<Rightarrow> bytes option \<Rightarrow> statedb \<Rightarrow> statedb" where
  "so_SetCode addr codeHash code db =
     (case stateObjects db addr of None \<Rightarrow> db
      | Some obj \<Rightarrow>
          (let prevcode = code_read db obj;
               db1 = modify_object addr (\<lambda>obj. obj\<lparr>so_code := prevcode\<rparr>) db
           in setCode addr codeHash code
                (push (codeChange addr prevcode (CodeHash (so_data obj))) db1)))"

text \<open>Reads of the storage fill the cache of original entries.\<close>

definition so_GetCommittedState :: "hash \<Rightarrow> state_object \<Rightarrow> hash \<times> state_object" where
  "so_GetCommittedState key obj =
     (case originStorage obj key of
        Some v \<Rightarrow> (v, obj)
      | None \<Rightarrow>
          (let value = (case Root (so_data obj) key of Some v \<Rightarrow> v | None \<Rightarrow> zero_hash)
           in (value, obj\<lparr>originStorage := (originStorage obj)(key \<mapsto> value)\<rparr>)))"

definition so_GetState :: "hash \<Rightarrow> state_object \<Rightarrow> hash \<times> state_object" where
  "so_GetState key obj =
     (case dirtyStorage obj key of Some v \<Rightarrow> (v, obj) | None \<Rightarrow> so_GetCommittedState key obj)"

definition setState :: "address \<Rightarrow> hash \<Rightarrow> hash \<Rightarrow> statedb \<Rightarrow> statedb" where
  "setState addr key value =
     write_object addr (\<lambda>obj. obj\<lparr>dirtyStorage := (dirtyStorage obj)(key \<mapsto> value)\<rparr>)"

definition so_SetState :: "address \<Rightarrow> hash \<Rightarrow> hash \<Rightarrow> statedb \<Rightarrow> statedb" where
  "so_SetState addr key value db =
     (case stateObjects db addr of None \<Rightarrow> db
      | Some obj \<Rightarrow>
          (let (prevalue, obj1) = so_GetState key obj;
               db1 = modify_object addr (\<lambda>_. obj1) db
           in setState addr key value (push (storageChange addr key prevalue) db1)))"

text \<open>
  The marks of cross-chain transactions.  A stored mark is the transaction hash without
  its leading zero bytes, while the check compares it with the whole hash.
\<close>

definition so_HasTX1 :: "hash \<Rightarrow> state_object \<Rightarrow> bool \<times> state_object" where
  "so_HasTX1 txHash obj =
     (if txHash \<in> dirtyTX1 obj then (True, obj)
      else case TX1Root (so_data obj) txHash of
             None \<Rightarrow> (False, obj)
           | Some content \<Rightarrow>
               if content \<noteq> txHash then (False, obj\<lparr>so_dbErr := True\<rparr>) else (True, obj))"

definition addTX1 :: "address \<Rightarrow> hash \<Rightarrow> statedb \<Rightarrow> statedb" where
  "addTX1 addr txHash = modify_object addr (\<lambda>obj. obj\<lparr>dirtyTX1 := insert txHash (dirtyTX1 obj)\<rparr>)"

definition removeTX1 :: "address \<Rightarrow> hash \<Rightarrow> statedb \<Rightarrow> statedb" where
  "removeTX1 addr txHash = modify_object addr (\<lambda>obj. obj\<lparr>dirtyTX1 := dirtyTX1 obj - {txHash}\<rparr>)"

definition so_AddTX1 :: "address \<Rightarrow> hash \<Rightarrow> statedb \<Rightarrow> statedb" where
  "so_AddTX1 addr txHash db = addTX1 addr txHash (push (addTX1Change addr txHash) db)"

definition so_HasTX3 :: "hash \<Rightarrow> state_object \<Rightarrow> bool \<times> state_object" where
  "so_HasTX3 txHash obj =
     (if txHash \<in> dirtyTX3 obj then (True, obj)
      else case TX3Root (so_data obj) txHash of
             None \<Rightarrow> (False, obj)
           | Some content \<Rightarrow>
               if content \<noteq> txHash then (False, obj\<lparr>so_dbErr := True\<rparr>) else (True, obj))"

definition addTX3 :: "address \<Rightarrow> hash \<Rightarrow> statedb \<Rightarrow> statedb" where
  "addTX3 addr txHash = modify_object addr (\<lambda>obj. obj\<lparr>dirtyTX3 := insert txHash (dirtyTX3 obj)\<rparr>)"

definition removeTX3 :: "address \<Rightarrow> hash \<Rightarrow> statedb \<Rightarrow> statedb" where
  "removeTX3 addr txHash = modify_object addr (\<lambda>obj. obj\<lparr>dirtyTX3 := dirtyTX3 obj - {txHash}\<rparr>)"

definition so_AddTX3 :: "address \<Rightarrow> hash \<Rightarrow> statedb \<Rightarrow> statedb" where
  "so_AddTX3 addr txHash db = addTX3 addr txHash (push (addTX3Change addr txHash) db)"

subsection \<open>Side-chain deposits\<close>

definition setSideChainDepositBalance :: "address \<Rightarrow> string \<Rightarrow> int \<Rightarrow> statedb \<Rightarrow> statedb" where
  "setSideChainDepositBalance addr chainId amount =
     write_object addr (\<lambda>obj. obj\<lparr>so_data := so_data obj\<lparr>SideChainDepositBalance :=
       side_put chainId amount (SideChainDepositBalance (so_data obj))\<rparr>\<rparr>)"

definition ensure_side_entry :: "address \<Rightarrow> string \<Rightarrow> statedb \<Rightarrow> statedb" where
  "ensure_side_entry addr chainId =
     modify_object addr (\<lambda>obj. obj\<lparr>so_data := so_data obj\<lparr>SideChainDepositBalance :=
       side_ensure chainId (SideChainDepositBalance (so_data obj))\<rparr>\<rparr>)"

definition so_SetSideChainDepositBalance ::
  "address \<Rightarrow> string \<Rightarrow> int \<Rightarrow> statedb \<Rightarrow> statedb" where
  "so_SetSideChainDepositBalance addr chainId amount db =
     (case stateObjects db addr of None \<Rightarrow> db
      | Some obj \<Rightarrow>
          (let db1 = ensure_side_entry addr chainId db;
               prev = side_read (side_ensure chainId (SideChainDepositBalance (so_data obj))) chainId
           in setSideChainDepositBalance addr chainId amount
                (push (sideChainDepositBalanceChange addr chainId prev) db1)))"

definition so_AddSideChainDepositBalance ::
  "address \<Rightarrow> string \<Rightarrow> int \<Rightarrow> statedb \<Rightarrow> statedb" where
  "so_AddSideChainDepositBalance addr chainId amount db =
     (case stateObjects db addr of None \<Rightarrow> db
      | Some obj \<Rightarrow>
          if amount = 0 then (if so_empty obj then touch addr db else db)
          else so_SetSideChainDepositBalance addr chainId
                 (side_read (SideChainDepositBalance (so_data obj)) chainId + amount) db)"

definition so_SubSideChainDepositBalance ::
  "address \<Rightarrow> string \<Rightarrow> int \<Rightarrow> statedb \<Rightarrow> statedb" where
  "so_SubSideChainDepositBalance addr chainId amount db =
     (case stateObjects db addr of None \<Rightarrow> db
      | Some obj \<Rightarrow>
          if amount = 0 then db
          else so_SetSideChainDepositBalance addr chainId
                 (side_read (SideChainDepositBalance (so_data obj)) chainId - amount) db)"

subsection \<open>The proxied and reward tries of an object\<close>

text \<open>A miss is cached as well: the key is then present with a nil value.\<close>

definition so_GetAccountProxiedBalance ::
  "address \<Rightarrow> state_object \<Rightarrow> accountProxiedBalance option \<times> state_object" where
  "so_GetAccountProxiedBalance key obj =
     (case map_of (dirtyProxied obj) key of
        Some v \<Rightarrow> (v, obj)
      | None \<Rightarrow>
          (case map_of (originProxied obj) key of
             Some v \<Rightarrow> (v, obj)
           | None \<Rightarrow>
               (let value = map_of (proxiedTrie obj) key
                in (value, obj\<lparr>originProxied := AList.update key value (originProxied obj)\<rparr>))))"

definition setAccountProxiedBalance ::
  "address \<Rightarrow> address \<Rightarrow> accountProxiedBalance option \<Rightarrow> statedb \<Rightarrow> statedb" where
  "setAccountProxiedBalance addr key v =
     write_object addr (\<lambda>obj. obj\<lparr>dirtyProxied := AList.update key v (dirtyProxied obj)\<rparr>)"

definition so_SetAccountProxiedBalance ::
  "address \<Rightarrow> address \<Rightarrow> accountProxiedBalance option \<Rightarrow> statedb \<Rightarrow> statedb" where
  "so_SetAccountProxiedBalance addr key v db =
     (case stateObjects db addr of None \<Rightarrow> db
      | Some obj \<Rightarrow>
          (let (prevalue, obj1) = so_GetAccountProxiedBalance key obj;
               db1 = modify_object addr (\<lambda>_. obj1) db
           in setAccountProxiedBalance addr key v
                (push (accountProxiedBalanceChange addr key prevalue) db1)))"

definition so_IsEmptyTrie :: "state_object \<Rightarrow> bool" where
  "so_IsEmptyTrie obj = (ProxiedRoot (so_data obj) = Some [])"

definition so_GetDelegateRewardBalance ::
  "address \<Rightarrow> state_object \<Rightarrow> int option \<times> state_object" where
  "so_GetDelegateRewardBalance key obj =
     (case map_of (dirtyReward obj) key of
        Some v \<Rightarrow> (v, obj)
      | None \<Rightarrow>
          (case map_of (originReward obj) key of
             Some v \<Rightarrow> (v, obj)
           | None \<Rightarrow>
               (let value = map_of (RewardRoot (so_data obj)) key
                in (value, obj\<lparr>originReward := AList.update key value (originReward obj)\<rparr>))))"

definition setDelegateRewardBalance ::
  "address \<Rightarrow> address \<Rightarrow> int option \<Rightarrow> statedb \<Rightarrow> statedb" where
  "setDelegateRewardBalance addr key v =
     write_object addr (\<lambda>obj. obj\<lparr>dirtyReward := AList.update key v (dirtyReward obj)\<rparr>)"

definition so_SetDelegateRewardBalance ::
  "address \<Rightarrow> address \<Rightarrow> int option \<Rightarrow> statedb \<Rightarrow> statedb" where
  "so_SetDelegateRewardBalance addr key v db =
     (case stateObjects db addr of None \<Rightarrow> db
      | Some obj \<Rightarrow>
          (let (prevalue, obj1) = so_GetDelegateRewardBalance key obj;
               db1 = modify_object addr (\<lambda>_. obj1) db
           in setDelegateRewardBalance addr key v
                (push (delegateRewardBalanceChange addr key prevalue) db1)))"

subsection \<open>Reads of the database\<close>

text \<open>
  A read first fetches the object, which may load it into the live set; a read of an
  absent account gives the default.  Some reads of \<open>statedb_delegate.go\<close> create the
  account instead.
\<close>

definition read_object ::
  "address \<Rightarrow> (state_object \<Rightarrow> 'a) \<Rightarrow> 'a \<Rightarrow> statedb \<Rightarrow> 'a \<times> statedb" where
  "read_object addr f d db =
     (let (obj, db1) = getStateObject addr db
      in (case obj of None \<Rightarrow> d | Some s \<Rightarrow> f s, db1))"

definition read_or_new :: "address \<Rightarrow> (state_object \<Rightarrow> 'a) \<Rightarrow> statedb \<Rightarrow> 'a \<times> statedb" where
  "read_or_new addr f db =
     (let db1 = GetOrNewStateObject addr db
      in (f (case stateObjects db1 addr of Some s \<Rightarrow> s | None \<Rightarrow> newObject addr new_account False), db1))"

text \<open>A read that may also update the caches of the object it reads.\<close>

definition read_cached ::
  "address \<Rightarrow> (state_object \<Rightarrow> 'a \<times> state_object) \<Rightarrow> 'a \<Rightarrow> statedb \<Rightarrow> 'a \<times> statedb" where
  "read_cached addr f d db =
     (let (obj, db1) = getStateObject addr db
      in (case obj of None \<Rightarrow> (d, db1)
          | Some s \<Rightarrow> (let (v, s1) = f s in (v, modify_object addr (\<lambda>_. s1) db1))))"

definition Exist :: "address \<Rightarrow> statedb \<Rightarrow> bool \<times> statedb" where
  "Exist addr = read_object addr (\<lambda>_. True) False"

definition Empty :: "address \<Rightarrow> statedb \<Rightarrow> bool \<times> statedb" where
  "Empty addr = read_object addr so_empty True"

definition GetBalance :: "address \<Rightarrow> statedb \<Rightarrow> int \<times> statedb" where
  "GetBalance addr = read_object addr (\<lambda>s. Balance (so_data s)) 0"

definition GetNonce :: "address \<Rightarrow> statedb \<Rightarrow> uint64 \<times> statedb" where
  "GetNonce addr = read_object addr (\<lambda>s. Nonce (so_data s)) 0"

definition GetCodeHash :: "address \<Rightarrow> statedb \<Rightarrow> hash \<times> statedb" where
  "GetCodeHash addr = read_object addr (\<lambda>s. BytesToHash (CodeHash (so_data s))) zero_hash"

definition HasSuicided :: "address \<Rightarrow> statedb \<Rightarrow> bool \<times> statedb" where
  "HasSuicided addr = read_object addr (\<lambda>s. suicided s) False"

definition GetDepositBalance :: "address \<Rightarrow> statedb \<Rightarrow> int \<times> statedb" where
  "GetDepositBalance addr = read_object addr (\<lambda>s. DepositBalance (so_data s)) 0"

definition GetChainBalance :: "address \<Rightarrow> statedb \<Rightarrow> int \<times> statedb" where
  "GetChainBalance addr = read_object addr (\<lambda>s. ChainBalance (so_data s)) 0"

definition GetDelegateBalance :: "address \<Rightarrow> statedb \<Rightarrow> int \<times> statedb" where
  "GetDelegateBalance addr = read_object addr (\<lambda>s. DelegateBalance (so_data s)) 0"

definition GetTotalProxiedBalance :: "address \<Rightarrow> statedb \<Rightarrow> int \<times> statedb" where
  "GetTotalProxiedBalance addr = read_object addr (\<lambda>s. ProxiedBalance (so_data s)) 0"

definition GetTotalDepositProxiedBalance :: "address \<Rightarrow> statedb \<Rightarrow> int \<times> statedb" where
  "GetTotalDepositProxiedBalance addr = read_object addr (\<lambda>s. DepositProxiedBalance (so_data s)) 0"

definition GetTotalPendingRefundBalance :: "address \<Rightarrow> statedb \<Rightarrow> int \<times> statedb" where
  "GetTotalPendingRefundBalance addr = read_object addr (\<lambda>s. PendingRefundBalance (so_data s)) 0"

definition GetTotalRewardBalance :: "address \<Rightarrow> statedb \<Rightarrow> int \<times> statedb" where
  "GetTotalRewardBalance addr = read_object addr (\<lambda>s. RewardBalance (so_data s)) 0"

definition GetTotalAvailableRewardBalance :: "address \<Rightarrow> statedb \<Rightarrow> int \<times> statedb" where
  "GetTotalAvailableRewardBalance addr = read_object addr (\<lambda>s. AvailableRewardBalance (so_data s)) 0"

definition IsCandidate :: "address \<Rightarrow> statedb \<Rightarrow> bool \<times> statedb" where
  "IsCandidate addr = read_object addr (\<lambda>s. Candidate (so_data s)) False"

definition IsCleanAddress :: "address \<Rightarrow> statedb \<Rightarrow> bool \<times> statedb" where
  "IsCleanAddress addr = read_object addr (\<lambda>s. \<not> Candidate (so_data s) \<and> so_IsEmptyTrie s) True"

definition GetPubkey :: "address \<Rightarrow> statedb \<Rightarrow> string \<times> statedb" where
  "GetPubkey addr = read_object addr (\<lambda>s. Pubkey (so_data s)) ''''"

definition GetCommission :: "address \<Rightarrow> statedb \<Rightarrow> 8 word \<times> statedb" where
  "GetCommission addr = read_object addr (\<lambda>s. Commission (so_data s)) 0"

definition GetBanned :: "address \<Rightarrow> statedb \<Rightarrow> bool \<times> statedb" where
  "GetBanned addr = read_or_new addr (\<lambda>s. IsBanned (so_data s))"

definition GetBannedTime :: "address \<Rightarrow> statedb \<Rightarrow> int \<times> statedb" where
  "GetBannedTime addr = read_or_new addr (\<lambda>s. BannedTime (so_data s))"

definition GetMinedBlocks :: "address \<Rightarrow> statedb \<Rightarrow> int \<times> statedb" where
  "GetMinedBlocks addr = read_or_new addr (\<lambda>s. BlockTime (so_data s))"

definition GetSideChainDepositBalance :: "string \<Rightarrow> address \<Rightarrow> statedb \<Rightarrow> int \<times> statedb" where
  "GetSideChainDepositBalance chainId addr =
     read_object addr (\<lambda>s. side_read (SideChainDepositBalance (so_data s)) chainId) 0"

definition GetCode :: "address \<Rightarrow> statedb \<Rightarrow> bytes option \<times> statedb" where
  "GetCode addr db =
     read_cached addr (\<lambda>s. (code_read db s, s\<lparr>so_code := code_read db s\<rparr>)) None db"

definition GetState :: "address \<Rightarrow> hash \<Rightarrow> statedb \<Rightarrow> hash \<times> statedb" where
  "GetState addr key = read_cached addr (so_GetState key) zero_hash"

definition GetCommittedState :: "address \<Rightarrow> hash \<Rightarrow> statedb \<Rightarrow> hash \<times> statedb" where
  "GetCommittedState addr key = read_cached addr (so_GetCommittedState key) zero_hash"

definition HasTX1 :: "address \<Rightarrow> hash \<Rightarrow> statedb \<Rightarrow> bool \<times> statedb" where
  "HasTX1 addr txHash = read_cached addr (so_HasTX1 txHash) False"

definition HasTX3 :: "address \<Rightarrow> hash \<Rightarrow> statedb \<Rightarrow> bool \<times> statedb" where
  "HasTX3 addr txHash = read_cached addr (so_HasTX3 txHash) False"

text \<open>The reads of one component of a delegator's entry.\<close>

definition apb_field ::
  "(accountProxiedBalance \<Rightarrow> int) \<Rightarrow> address \<Rightarrow> state_object \<Rightarrow> int \<times> state_object" where
  "apb_field g user s =
     (let (apb, s1) = so_GetAccountProxiedBalance user s
      in (case apb of None \<Rightarrow> 0 | Some b \<Rightarrow> g b, s1))"

definition GetProxiedBalanceByUser :: "address \<Rightarrow> address \<Rightarrow> statedb \<Rightarrow> int \<times> statedb" where
  "GetProxiedBalanceByUser addr user = read_cached addr (apb_field apb_ProxiedBalance user) 0"

definition GetDepositProxiedBalanceByUser :: "address \<Rightarrow> address \<Rightarrow> statedb \<Rightarrow> int \<times> statedb" where
  "GetDepositProxiedBalanceByUser addr user =
     read_cached addr (apb_field apb_DepositProxiedBalance user) 0"

definition GetPendingRefundBalanceByUser :: "address \<Rightarrow> address \<Rightarrow> statedb \<Rightarrow> int \<times> statedb" where
  "GetPendingRefundBalanceByUser addr user =
     read_cached addr (apb_field apb_PendingRefundBalance user) 0"

definition GetProxiedAddressNumber :: "address \<Rightarrow> statedb \<Rightarrow> int \<times> statedb" where
  "GetProxiedAddressNumber addr = read_object addr (\<lambda>s. int (length (proxiedTrie s))) 0"

definition GetRewardBalanceByDelegateAddress :: "address \<Rightarrow> address \<Rightarrow> statedb \<Rightarrow> int \<times> statedb" where
  "GetRewardBalanceByDelegateAddress addr deleAddress =
     read_cached addr
       (\<lambda>s. let (r, s1) = so_GetDelegateRewardBalance deleAddress s
            in (case r of None \<Rightarrow> 0 | Some b \<Rightarrow> b, s1)) 0"

subsection \<open>Writes of the database\<close>

definition AddBalance :: "address \<Rightarrow> int \<Rightarrow> statedb \<Rightarrow> statedb" where
  "AddBalance addr x db = so_AddBalance addr x (GetOrNewStateObject addr db)"

definition SubBalance :: "address \<Rightarrow> int \<Rightarrow> statedb \<Rightarrow> statedb" where
  "SubBalance addr x db = so_SubBalance addr x (GetOrNewStateObject addr db)"

definition SetBalance :: "address \<Rightarrow> int \<Rightarrow> statedb \<Rightarrow> statedb" where
  "SetBalance addr x db = so_SetBalance addr x (GetOrNewStateObject addr db)"

definition AddDepositBalance :: "address \<Rightarrow> int \<Rightarrow> statedb \<Rightarrow> statedb" where
  "AddDepositBalance addr x db = so_AddDepositBalance addr x (GetOrNewStateObject addr db)"

definition SubDepositBalance :: "address \<Rightarrow> int \<Rightarrow> statedb \<Rightarrow> statedb" where
  "SubDepositBalance addr x db = so_SubDepositBalance addr x (GetOrNewStateObject addr db)"

definition SetDepositBalance :: "address \<Rightarrow> int \<Rightarrow> statedb \<Rightarrow> statedb" where
  "SetDepositBalance addr x db = so_SetDepositBalance addr x (GetOrNewStateObject addr db)"

definition AddChainBalance :: "address \<Rightarrow> int \<Rightarrow> statedb \<Rightarrow> statedb" where
  "AddChainBalance addr x db = so_AddChainBalance addr x (GetOrNewStateObject addr db)"

definition SubChainBalance :: "address \<Rightarrow> int \<Rightarrow> statedb \<Rightarrow> statedb" where
  "SubChainBalance addr x db = so_SubChainBalance addr x (GetOrNewStateObject addr db)"

definition SetChainBalance :: "address \<Rightarrow> int \<Rightarrow> statedb \<Rightarrow> statedb" where
  "SetChainBalance addr x db = so_SetChainBalance addr x (GetOrNewStateObject addr db)"

definition AddDelegateBalance :: "address \<Rightarrow> int \<Rightarrow> statedb \<Rightarrow> statedb" where
  "AddDelegateBalance addr x db = so_AddDelegateBalance addr x (GetOrNewStateObject addr db)"

definition SubDelegateBalance :: "address \<Rightarrow> int \<Rightarrow> statedb \<Rightarrow> statedb" where
  "SubDelegateBalance addr x db = so_SubDelegateBalance addr x (GetOrNewStateObject addr db)"

definition AddRewardBalance :: "address \<Rightarrow> int \<Rightarrow> statedb \<Rightarrow> statedb" where
  "AddRewardBalance addr x db = so_AddRewardBalance addr x (GetOrNewStateObject addr db)"

definition SubRewardBalance :: "address \<Rightarrow> int \<Rightarrow> statedb \<Rightarrow> statedb" where
  "SubRewardBalance addr x db = so_SubRewardBalance addr x (GetOrNewStateObject addr db)"

definition SetNonce :: "address \<Rightarrow> uint64 \<Rightarrow> statedb \<Rightarrow> statedb" where
  "SetNonce addr x db = so_SetNonce addr x (GetOrNewStateObject addr db)"

definition SetCommission :: "address \<Rightarrow> 8 word \<Rightarrow> statedb \<Rightarrow> statedb" where
  "SetCommission addr x db = so_SetCommission addr x (GetOrNewStateObject addr db)"

definition SetBanned :: "address \<Rightarrow> bool \<Rightarrow> statedb \<Rightarrow> statedb" where
  "SetBanned addr x db = so_SetBanned addr x (GetOrNewStateObject addr db)"

definition SetBannedTime :: "address \<Rightarrow> int \<Rightarrow> statedb \<Rightarrow> statedb" where
  "SetBannedTime addr x db = so_SetBannedTime addr x (GetOrNewStateObject addr db)"

definition SetMinedBlocks :: "address \<Rightarrow> int \<Rightarrow> statedb \<Rightarrow> statedb" where
  "SetMinedBlocks addr x db = so_SetBlockTime addr x (GetOrNewStateObject addr db)"

definition AddAvailableRewardBalance :: "address \<Rightarrow> int \<Rightarrow> statedb \<Rightarrow> statedb" where
  "AddAvailableRewardBalance addr amount db =
     (case getStateObject addr db of (None, db1) \<Rightarrow> db1
      | (Some s, db1) \<Rightarrow> so_AddAvailableRewardBalance addr amount db1)"

definition SubAvailableRewardBalance :: "address \<Rightarrow> int \<Rightarrow> statedb \<Rightarrow> statedb" where
  "SubAvailableRewardBalance addr amount db =
     (case getStateObject addr db of (None, db1) \<Rightarrow> db1
      | (Some s, db1) \<Rightarrow> so_SubAvailableRewardBalance addr amount db1)"

definition ClearCommission :: "address \<Rightarrow> statedb \<Rightarrow> statedb" where
  "ClearCommission addr db = so_SetCommission addr 0 (GetOrNewStateObject addr db)"

definition ApplyForCandidate :: "address \<Rightarrow> string \<Rightarrow> 8 word \<Rightarrow> statedb \<Rightarrow> statedb" where
  "ApplyForCandidate addr pubkey commission db =
     so_SetPubkey addr pubkey (so_SetCommission addr commission
       (so_SetCandidate addr True (GetOrNewStateObject addr db)))"

definition CancelCandidate :: "address \<Rightarrow> bool \<Rightarrow> statedb \<Rightarrow> statedb" where
  "CancelCandidate addr allRefund db =
     (let db1 = so_SetPubkey addr '''' (so_SetCandidate addr False (GetOrNewStateObject addr db))
      in if allRefund then so_SetCommission addr 0 db1 else db1)"

text \<open>\<open>SetCode\<close> hashes the code; the hash function is an argument.\<close>

definition SetCode :: "(bytes \<Rightarrow> hash) \<Rightarrow> address \<Rightarrow> bytes \<Rightarrow> statedb \<Rightarrow> statedb" where
  "SetCode keccak addr code db =
     so_SetCode addr (keccak code) (Some code) (GetOrNewStateObject addr db)"

definition SetState :: "address \<Rightarrow> hash \<Rightarrow> hash \<Rightarrow> statedb \<Rightarrow> statedb" where
  "SetState addr key value db = so_SetState addr key value (GetOrNewStateObject addr db)"

definition AddTX1 :: "address \<Rightarrow> hash \<Rightarrow> statedb \<Rightarrow> statedb" where
  "AddTX1 addr txHash db = so_AddTX1 addr txHash (GetOrNewStateObject addr db)"

definition AddTX3 :: "address \<Rightarrow> hash \<Rightarrow> statedb \<Rightarrow> statedb" where
  "AddTX3 addr txHash db = so_AddTX3 addr txHash (GetOrNewStateObject addr db)"

definition AddSideChainDepositBalance :: "address \<Rightarrow> string \<Rightarrow> int \<Rightarrow> statedb \<Rightarrow> statedb" where
  "AddSideChainDepositBalance addr chainId amount db =
     so_AddSideChainDepositBalance addr chainId amount (GetOrNewStateObject addr db)"

definition SubSideChainDepositBalance :: "address \<Rightarrow> string \<Rightarrow> int \<Rightarrow> statedb \<Rightarrow> statedb" where
  "SubSideChainDepositBalance addr chainId amount db =
     so_SubSideChainDepositBalance addr chainId amount (GetOrNewStateObject addr db)"

definition SetSideChainDepositBalance :: "address \<Rightarrow> string \<Rightarrow> int \<Rightarrow> statedb \<Rightarrow> statedb" where
  "SetSideChainDepositBalance addr chainId amount db =
     so_SetSideChainDepositBalance addr chainId amount (GetOrNewStateObject addr db)"

definition Suicide :: "address \<Rightarrow> statedb \<Rightarrow> bool \<times> statedb" where
  "Suicide addr db =
     (case getStateObject addr db of
        (None, db1) \<Rightarrow> (False, db1)
      | (Some s, db1) \<Rightarrow>
          (True, modify_object addr (\<lambda>obj. obj\<lparr>so_data := so_data obj\<lparr>Balance := 0\<rparr>\<rparr>)
                   (markSuicided addr
                     (push (suicideChange addr (suicided s) (Balance (so_data s))) db1))))"

definition CreateAccount :: "address \<Rightarrow> statedb \<Rightarrow> statedb" where
  "CreateAccount addr db =
     (case createObject addr db of
        (None, db1) \<Rightarrow> db1
      | (Some prev, db1) \<Rightarrow> set_balance F_Balance addr (Balance (so_data prev)) db1)"

text \<open>
  The delegator entries of a candidate: read the entry of the user, copy it (a new one
  when there is none), change one component, store it, then change the total.
\<close>

definition change_apb ::
  "address \<Rightarrow> address \<Rightarrow> (accountProxiedBalance \<Rightarrow> accountProxiedBalance) \<Rightarrow> statedb \<Rightarrow> statedb" where
  "change_apb addr user g db =
     (case stateObjects db addr of None \<Rightarrow> db
      | Some obj \<Rightarrow>
          (let (apb, obj1) = so_GetAccountProxiedBalance user obj;
               dirtyApb = (case apb of None \<Rightarrow> NewAccountProxiedBalance | Some b \<Rightarrow> b)
           in so_SetAccountProxiedBalance addr user (Some (g dirtyApb))
                (modify_object addr (\<lambda>_. obj1) db)))"

definition AddProxiedBalanceByUser :: "address \<Rightarrow> address \<Rightarrow> int \<Rightarrow> statedb \<Rightarrow> statedb" where
  "AddProxiedBalanceByUser addr user amount db =
     so_AddProxiedBalance addr amount
       (change_apb addr user (\<lambda>b. b\<lparr>apb_ProxiedBalance := apb_ProxiedBalance b + amount\<rparr>) (GetOrNewStateObject addr db))"

definition SubProxiedBalanceByUser :: "address \<Rightarrow> address \<Rightarrow> int \<Rightarrow> statedb \<Rightarrow> statedb" where
  "SubProxiedBalanceByUser addr user amount db =
     so_SubProxiedBalance addr amount
       (change_apb addr user (\<lambda>b. b\<lparr>apb_ProxiedBalance := apb_ProxiedBalance b - amount\<rparr>) (GetOrNewStateObject addr db))"

definition AddDepositProxiedBalanceByUser :: "address \<Rightarrow> address \<Rightarrow> int \<Rightarrow> statedb \<Rightarrow> statedb" where
  "AddDepositProxiedBalanceByUser addr user amount db =
     so_AddDepositProxiedBalance addr amount
       (change_apb addr user (\<lambda>b. b\<lparr>apb_DepositProxiedBalance := apb_DepositProxiedBalance b + amount\<rparr>) (GetOrNewStateObject addr db))"

definition SubDepositProxiedBalanceByUser :: "address \<Rightarrow> address \<Rightarrow> int \<Rightarrow> statedb \<Rightarrow> statedb" where
  "SubDepositProxiedBalanceByUser addr user amount db =
     so_SubDepositProxiedBalance addr amount
       (change_apb addr user (\<lambda>b. b\<lparr>apb_DepositProxiedBalance := apb_DepositProxiedBalance b - amount\<rparr>) (GetOrNewStateObject addr db))"

definition AddPendingRefundBalanceByUser :: "address \<Rightarrow> address \<Rightarrow> int \<Rightarrow> statedb \<Rightarrow> statedb" where
  "AddPendingRefundBalanceByUser addr user amount db =
     so_AddPendingRefundBalance addr amount
       (change_apb addr user (\<lambda>b. b\<lparr>apb_PendingRefundBalance := apb_PendingRefundBalance b + amount\<rparr>) (GetOrNewStateObject addr db))"

definition SubPendingRefundBalanceByUser :: "address \<Rightarrow> address \<Rightarrow> int \<Rightarrow> statedb \<Rightarrow> statedb" where
  "SubPendingRefundBalanceByUser addr user amount db =
     so_SubPendingRefundBalance addr amount
       (change_apb addr user (\<lambda>b. b\<lparr>apb_PendingRefundBalance := apb_PendingRefundBalance b - amount\<rparr>) (GetOrNewStateObject addr db))"

definition AddRewardBalanceByDelegateAddress ::
  "address \<Rightarrow> address \<Rightarrow> int \<Rightarrow> statedb \<Rightarrow> statedb" where
  "AddRewardBalanceByDelegateAddress addr deleAddress amount db =
     (let db1 = GetOrNewStateObject addr db in
      case stateObjects db1 addr of None \<Rightarrow> db1
      | Some obj \<Rightarrow>
          (let (r, obj1) = so_GetDelegateRewardBalance deleAddress obj;
               dirtyRewardBalance = (case r of None \<Rightarrow> amount | Some b \<Rightarrow> b + amount)
           in so_AddRewardBalance addr amount
                (so_SetDelegateRewardBalance addr deleAddress (Some dirtyRewardBalance)
                  (modify_object addr (\<lambda>_. obj1) db1))))"

text \<open>Subtracting from an absent reward is an explicit panic.\<close>

definition SubRewardBalanceByDelegateAddress ::
  "address \<Rightarrow> address \<Rightarrow> int \<Rightarrow> statedb \<Rightarrow> statedb option" where
  "SubRewardBalanceByDelegateAddress addr deleAddress amount db =
     (let db1 = GetOrNewStateObject addr db in
      case stateObjects db1 addr of None \<Rightarrow> Some db1
      | Some obj \<Rightarrow>
          (case so_GetDelegateRewardBalance deleAddress obj of
             (None, obj1) \<Rightarrow> None
           | (Some b, obj1) \<Rightarrow>
               Some (so_SubRewardBalance addr amount
                 (so_SetDelegateRewardBalance addr deleAddress (Some (b - amount))
                   (modify_object addr (\<lambda>_. obj1) db1)))))"

subsection \<open>Logs, preimages and the refund counter\<close>

definition AddLog :: "log_entry \<Rightarrow> statedb \<Rightarrow> statedb" where
  "AddLog log db =
     (let db1 = push (addLogChange (thash db)) db;
          log = log\<lparr>log_TxHash := thash db, log_BlockHash := bhash db,
                    log_TxIndex := u64_of_int (txIndex db), log_Index := logSize db\<rparr>;
          old = (case logs db (thash db) of None \<Rightarrow> [] | Some l \<Rightarrow> l)
      in db1\<lparr>logs := (logs db)(thash db \<mapsto> old @ [log]), logSize := logSize db + 1\<rparr>)"

definition AddPreimage :: "hash \<Rightarrow> bytes \<Rightarrow> statedb \<Rightarrow> statedb" where
  "AddPreimage h preimage db =
     (if preimages db h = None
      then (push (addPreimageChange h) db)\<lparr>preimages := (preimages db)(h \<mapsto> preimage)\<rparr>
      else db)"

definition AddRefund :: "uint64 \<Rightarrow> statedb \<Rightarrow> statedb" where
  "AddRefund gas db = (push (refundChange (sdb_refund db)) db)\<lparr>sdb_refund := sdb_refund db + gas\<rparr>"

definition SubRefund :: "uint64 \<Rightarrow> statedb \<Rightarrow> statedb option" where
  "SubRefund gas db =
     (let db1 = push (refundChange (sdb_refund db)) db in
      if gas > sdb_refund db then None else Some (db1\<lparr>sdb_refund := sdb_refund db - gas\<rparr>))"

definition Prepare :: "hash \<Rightarrow> hash \<Rightarrow> int \<Rightarrow> statedb \<Rightarrow> statedb" where
  "Prepare th bh ti db = db\<lparr>thash := th, bhash := bh, txIndex := ti\<rparr>"

subsection \<open>Undoing a journal entry\<close>

text \<open>The undo methods call a setter on what \<open>getStateObject\<close> returns: a panic on nil.\<close>

definition on_object :: "address \<Rightarrow> (statedb \<Rightarrow> statedb) \<Rightarrow> statedb \<Rightarrow> statedb option" where
  "on_object addr f db =
     (case getStateObject addr db of (None, db1) \<Rightarrow> None | (Some s, db1) \<Rightarrow> Some (f db1))"

definition ripemd :: address where
  "ripemd = BytesToAddress [3]"

fun undo :: "journal_entry \<Rightarrow> statedb \<Rightarrow> statedb option" where
  "undo (createObjectChange a) db =
     Some (db\<lparr>stateObjects := (stateObjects db)(a := None),
              stateObjectsDirty := removeAll a (stateObjectsDirty db)\<rparr>)"
| "undo (resetObjectChange prev) db = Some (setStateObject prev db)"
| "undo (suicideChange a prev prevbalance) db =
     (case getStateObject a db of
        (None, db1) \<Rightarrow> Some db1
      | (Some s, db1) \<Rightarrow>
          Some (set_balance F_Balance a prevbalance (modify_object a (\<lambda>s. s\<lparr>suicided := prev\<rparr>) db1)))"
| "undo (touchChange a prev prevDirty) db =
     (if \<not> prev \<and> a \<noteq> ripemd
      then on_object a
             (\<lambda>db. let db1 = modify_object a (\<lambda>s. s\<lparr>touched := prev\<rparr>) db in
                  if \<not> prevDirty
                  then db1\<lparr>stateObjectsDirty := removeAll a (stateObjectsDirty db1)\<rparr> else db1) db
      else Some db)"
| "undo (balanceChange a prev) db = on_object a (set_balance F_Balance a prev) db"
| "undo (depositBalanceChange a prev) db = on_object a (set_balance F_Deposit a prev) db"
| "undo (sideChainDepositBalanceChange a chainId prev) db =
     on_object a (\<lambda>db. setSideChainDepositBalance a chainId prev (ensure_side_entry a chainId db)) db"
| "undo (chainBalanceChange a prev) db = on_object a (set_balance F_Chain a prev) db"
| "undo (delegateBalanceChange a prev) db = on_object a (set_balance F_Delegate a prev) db"
| "undo (proxiedBalanceChange a prev) db = on_object a (set_balance F_Proxied a prev) db"
| "undo (depositProxiedBalanceChange a prev) db = on_object a (set_balance F_DepositProxied a prev) db"
| "undo (pendingRefundBalanceChange a prev) db = on_object a (set_balance F_PendingRefund a prev) db"
| "undo (rewardBalanceChange a prev) db = on_object a (set_balance F_Reward a prev) db"
| "undo (availableRewardBalanceChange a prev) db =
     on_object a (set_balance F_AvailableReward a prev) db"
| "undo (nonceChange a prev) db = on_object a (setNonce a prev) db"
| "undo (codeChange a prevcode prevhash) db =
     on_object a (setCode a (BytesToHash prevhash) prevcode) db"
| "undo (storageChange a key prevalue) db = on_object a (setState a key prevalue) db"
| "undo (addTX1Change a txHash) db = on_object a (removeTX1 a txHash) db"
| "undo (addTX3Change a txHash) db = on_object a (removeTX3 a txHash) db"
| "undo (accountProxiedBalanceChange a key prevalue) db =
     on_object a (setAccountProxiedBalance a key prevalue) db"
| "undo (delegateRewardBalanceChange a key prevalue) db =
     on_object a (setDelegateRewardBalance a key prevalue) db"
| "undo (candidateChange a prev) db = on_object a (setCandidate a prev) db"
| "undo (pubkeyChange a prev) db = on_object a (setPubkey a prev) db"
| "undo (commissionChange a prev) db = on_object a (setCommission a prev) db"
| "undo (bannedChange a prev) db = on_object a (setBanned a prev) db"
| "undo (blockTimeChange a prev) db = on_object a (setBlockTime a prev) db"
| "undo (bannedTimeChange a prev) db = on_object a (setBannedTime a prev) db"
| "undo (refundChange prev) db = Some (db\<lparr>sdb_refund := prev\<rparr>)"
| "undo (addLogChange txhash) db =
     (let l = (case logs db txhash of None \<Rightarrow> [] | Some l \<Rightarrow> l);
          db1 = db\<lparr>logSize := logSize db - 1\<rparr>
      in if length l = 1 then Some (db1\<lparr>logs := (logs db)(txhash := None)\<rparr>)
         else if l = [] then None
         else Some (db1\<lparr>logs := (logs db)(txhash \<mapsto> butlast l)\<rparr>))"
| "undo (addPreimageChange h) db = Some (db\<lparr>preimages := (preimages db)(h := None)\<rparr>)"

subsection \<open>Snapshots\<close>

text \<open>\<open>sort.Search\<close>: the loop of the standard library over the half-open interval.\<close>

function sort_search :: "(nat \<Rightarrow> bool) \<Rightarrow> nat \<Rightarrow> nat \<Rightarrow> nat" where
  "sort_search f i j =
     (if i < j
      then let h = (i + j) div 2 in
           if \<not> f h then sort_search f (h + 1) j else sort_search f i h
      else i)"
  by pat_completeness auto
termination
  by (relation "measure (\<lambda>(f, i, j). j - i)") auto

declare sort_search.simps [simp del]

definition Snapshot :: "statedb \<Rightarrow> int \<times> statedb" where
  "Snapshot db =
     (let rid = nextRevisionId db
      in (rid, db\<lparr>nextRevisionId := rid + 1,
                  validRevisions := validRevisions db @ [(rid, length (journal db))]\<rparr>))"

text \<open>The entries from the given position on are undone, the last one first.\<close>

fun undo_all :: "journal_entry list \<Rightarrow> statedb \<Rightarrow> statedb option" where
  "undo_all [] db = Some db"
| "undo_all (e # es) db = (case undo_all es db of None \<Rightarrow> None | Some db1 \<Rightarrow> undo e db1)"

definition RevertToSnapshot :: "int \<Rightarrow> statedb \<Rightarrow> statedb option" where
  "RevertToSnapshot revid db =
     (let n = length (validRevisions db);
          idx = sort_search (\<lambda>i. fst (validRevisions db ! i) \<ge> revid) 0 n
      in if idx = n \<or> fst (validRevisions db ! idx) \<noteq> revid then None
         else let snapshot = snd (validRevisions db ! idx) in
              case undo_all (drop snapshot (journal db)) db of
                None \<Rightarrow> None
              | Some db1 \<Rightarrow> Some (db1\<lparr>journal := take snapshot (journal db1),
                                     validRevisions := take idx (validRevisions db1)\<rparr>))"

definition clearJournalAndRefund :: "statedb \<Rightarrow> statedb" where
  "clearJournalAndRefund db = db\<lparr>journal := [], validRevisions := [], sdb_refund := 0\<rparr>"

subsection \<open>Flushing the caches of an object\<close>

text \<open>The keys of \<open>dirtyStorage\<close> are independent, so the loop over them is written per key.\<close>

definition updateTrie :: "state_object \<Rightarrow> state_object" where
  "updateTrie obj =
     (let changed = (\<lambda>key. case dirtyStorage obj key of
            None \<Rightarrow> None
          | Some value \<Rightarrow>
              if value = (case originStorage obj key of Some v \<Rightarrow> v | None \<Rightarrow> zero_hash)
              then None else Some value)
      in obj\<lparr>dirtyStorage := Map.empty,
             originStorage := (\<lambda>key. case changed key of Some v \<Rightarrow> Some v | None \<Rightarrow> originStorage obj key),
             so_data := so_data obj\<lparr>Root := (\<lambda>key. case changed key of
                 None \<Rightarrow> Root (so_data obj) key
               | Some v \<Rightarrow> if v = zero_hash then None else Some v)\<rparr>\<rparr>)"

definition updateTX1Trie :: "state_object \<Rightarrow> state_object" where
  "updateTX1Trie obj =
     obj\<lparr>dirtyTX1 := {},
         so_data := so_data obj\<lparr>TX1Root := (\<lambda>tx. if tx \<in> dirtyTX1 obj then Some (trim_zeros tx)
                                                else TX1Root (so_data obj) tx)\<rparr>\<rparr>"

definition updateTX3Trie :: "state_object \<Rightarrow> state_object" where
  "updateTX3Trie obj =
     obj\<lparr>dirtyTX3 := {},
         so_data := so_data obj\<lparr>TX3Root := (\<lambda>tx. if tx \<in> dirtyTX3 obj then Some (trim_zeros tx)
                                                else TX3Root (so_data obj) tx)\<rparr>\<rparr>"

text \<open>
  One iteration of the loop of \<open>updateProxiedTrie\<close> over the dirty entries.  The encoder
  refuses negative integers; its error is dropped, so such an entry is stored as the
  empty value, which deletes it.
\<close>

definition apb_encodes :: "accountProxiedBalance \<Rightarrow> bool" where
  "apb_encodes b \<longleftrightarrow> 0 \<le> apb_ProxiedBalance b \<and> 0 \<le> apb_DepositProxiedBalance b
     \<and> 0 \<le> apb_PendingRefundBalance b"

definition flush_proxied ::
  "address \<times> accountProxiedBalance option \<Rightarrow>
   (address \<times> accountProxiedBalance option) list \<times> proxied_trie \<Rightarrow>
   ((address \<times> accountProxiedBalance option) list \<times> proxied_trie) option" where
  "flush_proxied kv st =
     (let (key, value) = kv; (origin, tr) = st in
      case apb_Equal value (case map_of origin key of Some v \<Rightarrow> v | None \<Rightarrow> None) of
        None \<Rightarrow> None
      | Some True \<Rightarrow> Some (origin, tr)
      | Some False \<Rightarrow>
          (case value of
             None \<Rightarrow> None
           | Some b \<Rightarrow>
               if apb_IsEmpty (Some b) = Some True \<or> \<not> apb_encodes b
               then Some (AList.update key value origin, AList.delete key tr)
               else Some (AList.update key value origin, AList.update key b tr)))"

fun fold_opt :: "('a \<Rightarrow> 's \<Rightarrow> 's option) \<Rightarrow> 'a list \<Rightarrow> 's \<Rightarrow> 's option" where
  "fold_opt f [] s = Some s"
| "fold_opt f (x # xs) s = (case f x s of None \<Rightarrow> None | Some s1 \<Rightarrow> fold_opt f xs s1)"

definition updateProxiedTrie :: "state_object \<Rightarrow> state_object option" where
  "updateProxiedTrie obj =
     (case fold_opt flush_proxied (dirtyProxied obj) (originProxied obj, proxiedTrie obj) of
        None \<Rightarrow> None
      | Some (origin, tr) \<Rightarrow>
          Some (obj\<lparr>dirtyProxied := [], originProxied := origin,
                    so_data := so_data obj\<lparr>ProxiedRoot := Some tr\<rparr>\<rparr>))"

definition flush_reward ::
  "address \<times> int option \<Rightarrow> (address \<times> int option) list \<times> reward_trie \<Rightarrow>
   ((address \<times> int option) list \<times> reward_trie) option" where
  "flush_reward kv st =
     (let (key, value) = kv; (origin, tr) = st;
          old = (case map_of origin key of Some v \<Rightarrow> v | None \<Rightarrow> None) in
      case value of
        None \<Rightarrow> None
      | Some x \<Rightarrow>
          if old = Some x then Some (origin, tr)
          else if x \<le> 0 then Some (AList.update key value origin, AList.delete key tr)
          else Some (AList.update key value origin, AList.update key x tr))"

definition updateRewardTrie :: "state_object \<Rightarrow> state_object option" where
  "updateRewardTrie obj =
     (case fold_opt flush_reward (dirtyReward obj) (originReward obj, RewardRoot (so_data obj)) of
        None \<Rightarrow> None
      | Some (origin, tr) \<Rightarrow>
          Some (obj\<lparr>dirtyReward := [], originReward := origin,
                    so_data := so_data obj\<lparr>RewardRoot := tr\<rparr>\<rparr>))"

text \<open>The account encoder panics on a negative integer.\<close>

definition account_encodes :: "account \<Rightarrow> bool" where
  "account_encodes d \<longleftrightarrow>
     0 \<le> Balance d \<and> 0 \<le> DepositBalance d \<and> (\<forall>(c, b) \<in> set (SideChainDepositBalance d). 0 \<le> b)
     \<and> 0 \<le> ChainBalance d \<and> 0 \<le> DelegateBalance d \<and> 0 \<le> ProxiedBalance d
     \<and> 0 \<le> DepositProxiedBalance d \<and> 0 \<le> PendingRefundBalance d \<and> 0 \<le> BlockTime d
     \<and> 0 \<le> BannedTime d \<and> 0 \<le> RewardBalance d \<and> 0 \<le> AvailableRewardBalance d"

definition updateStateObject :: "state_object \<Rightarrow> statedb \<Rightarrow> statedb option" where
  "updateStateObject obj db =
     (if account_encodes (so_data obj)
      then Some (db\<lparr>trie := (trie db)(so_address obj \<mapsto> so_data obj)\<rparr>) else None)"

definition deleteStateObject :: "state_object \<Rightarrow> statedb \<Rightarrow> statedb" where
  "deleteStateObject obj db =
     (setStateObject (obj\<lparr>deleted := True\<rparr>) db)\<lparr>trie := (trie db)(so_address obj := None)\<rparr>"

text \<open>The five root updates that \<open>Finalise\<close> applies to a surviving object.\<close>

definition update_roots :: "state_object \<Rightarrow> state_object option" where
  "update_roots obj =
     (case updateProxiedTrie (updateTX3Trie (updateTX1Trie (updateTrie obj))) of
        None \<Rightarrow> None | Some obj1 \<Rightarrow> updateRewardTrie obj1)"

subsection \<open>The address sets kept beside the accounts\<close>

definition GetDelegateAddressRefundSet :: "statedb \<Rightarrow> address set \<times> statedb" where
  "GetDelegateAddressRefundSet db =
     (if delegateRefundSet db \<noteq> {} then (delegateRefundSet db, db)
      else (trieRefundSet db, db\<lparr>delegateRefundSet := trieRefundSet db\<rparr>))"

definition MarkDelegateAddressRefund :: "address \<Rightarrow> statedb \<Rightarrow> statedb" where
  "MarkDelegateAddressRefund addr db =
     (let (s, db1) = GetDelegateAddressRefundSet db in
      if addr \<in> s then db1
      else db1\<lparr>delegateRefundSet := insert addr (delegateRefundSet db1), delegateRefundSetDirty := True\<rparr>)"

definition commitDelegateRefundSet :: "statedb \<Rightarrow> statedb" where
  "commitDelegateRefundSet db = db\<lparr>trieRefundSet := delegateRefundSet db\<rparr>"

definition ClearDelegateRefundSet :: "statedb \<Rightarrow> statedb" where
  "ClearDelegateRefundSet db =
     db\<lparr>trieRefundSet := {}, delegateRefundSet := {}, delegateRefundSetDirty := False\<rparr>"

definition GetRewardSet :: "statedb \<Rightarrow> address set \<times> statedb" where
  "GetRewardSet db =
     (if rewardSet db \<noteq> {} then (rewardSet db, db)
      else (trieRewardSet db, db\<lparr>rewardSet := trieRewardSet db\<rparr>))"

definition MarkAddressReward :: "address \<Rightarrow> statedb \<Rightarrow> statedb" where
  "MarkAddressReward addr db =
     (let (s, db1) = GetRewardSet db in
      if addr \<in> s then db1
      else db1\<lparr>rewardSet := insert addr (rewardSet db1), rewardSetDirty := True\<rparr>)"

definition commitRewardSet :: "statedb \<Rightarrow> statedb" where
  "commitRewardSet db = db\<lparr>trieRewardSet := rewardSet db\<rparr>"

definition ClearRewardSetByAddress :: "address \<Rightarrow> statedb \<Rightarrow> statedb" where
  "ClearRewardSetByAddress addr db = db\<lparr>rewardSet := rewardSet db - {addr}, rewardSetDirty := True\<rparr>"

definition GetCandidateSet :: "statedb \<Rightarrow> address set \<times> statedb" where
  "GetCandidateSet db =
     (if candidateSet db \<noteq> {} then (candidateSet db, db)
      else (trieCandidateSet db, db\<lparr>candidateSet := trieCandidateSet db\<rparr>))"

definition MarkAddressCandidate :: "address \<Rightarrow> statedb \<Rightarrow> statedb" where
  "MarkAddressCandidate addr db =
     (let (s, db1) = GetCandidateSet db in
      if addr \<in> s then db1
      else db1\<lparr>candidateSet := insert addr (candidateSet db1), candidateSetDirty := True\<rparr>)"

definition ClearCandidateSetByAddress :: "address \<Rightarrow> statedb \<Rightarrow> statedb" where
  "ClearCandidateSetByAddress addr db =
     db\<lparr>candidateSet := candidateSet db - {addr}, candidateSetDirty := True\<rparr>"

definition commitCandidateSet :: "statedb \<Rightarrow> statedb" where
  "commitCandidateSet db = db\<lparr>trieCandidateSet := candidateSet db\<rparr>"

definition GetBannedSet :: "statedb \<Rightarrow> address set \<times> statedb" where
  "GetBannedSet db =
     (if bannedSet db \<noteq> {} then (bannedSet db, db)
      else (trieBannedSet db, db\<lparr>bannedSet := trieBannedSet db\<rparr>))"

definition MarkAddressBanned :: "address \<Rightarrow> statedb \<Rightarrow> statedb" where
  "MarkAddressBanned addr db =
     (let (s, db1) = GetBannedSet db in
      if addr \<in> s then db1
      else db1\<lparr>bannedSet := insert addr (bannedSet db1), bannedSetDirty := True\<rparr>)"

definition ClearBannedSetByAddress :: "address \<Rightarrow> statedb \<Rightarrow> statedb" where
  "ClearBannedSetByAddress addr db = db\<lparr>bannedSet := bannedSet db - {addr}, bannedSetDirty := True\<rparr>"

definition commitBannedSet :: "statedb \<Rightarrow> statedb" where
  "commitBannedSet db = db\<lparr>trieBannedSet := bannedSet db\<rparr>"

definition SetSideChainRewardPerBlock :: "int \<Rightarrow> statedb \<Rightarrow> statedb" where
  "SetSideChainRewardPerBlock r db =
     db\<lparr>sideChainRewardPerBlock := Some r, sideChainRewardPerBlockDirty := True\<rparr>"

definition GetSideChainRewardPerBlock :: "statedb \<Rightarrow> int \<times> statedb" where
  "GetSideChainRewardPerBlock db =
     (case sideChainRewardPerBlock db of
        Some r \<Rightarrow> (r, db)
      | None \<Rightarrow> (case trieRewardPerBlock db of
           None \<Rightarrow> (0, db) | Some r \<Rightarrow> (r, db\<lparr>sideChainRewardPerBlock := Some r\<rparr>)))"

text \<open>The encoder of a single negative integer fails, which is a panic here.\<close>

definition commitSideChainRewardPerBlock :: "statedb \<Rightarrow> statedb option" where
  "commitSideChainRewardPerBlock db =
     (case sideChainRewardPerBlock db of
        Some r \<Rightarrow> if r < 0 then None else Some (db\<lparr>trieRewardPerBlock := Some r\<rparr>)
      | None \<Rightarrow> Some (db\<lparr>trieRewardPerBlock := Some 0\<rparr>))"

subsection \<open>Finalising, committing and copying\<close>

definition finalise_object :: "bool \<Rightarrow> address \<Rightarrow> statedb \<Rightarrow> statedb option" where
  "finalise_object deleteEmptyObjects addr db =
     (case stateObjects db addr of
        None \<Rightarrow> None
      | Some obj \<Rightarrow>
          if suicided obj \<or> (deleteEmptyObjects \<and> so_empty obj)
          then Some (deleteStateObject obj db)
          else (case update_roots obj of
                  None \<Rightarrow> None
                | Some obj1 \<Rightarrow> updateStateObject obj1 (setStateObject obj1 db)))"

definition commit_sets :: "statedb \<Rightarrow> statedb option" where
  "commit_sets db =
     (let db1 = (if delegateRefundSetDirty db then commitDelegateRefundSet db else db);
          db2 = (if rewardSetDirty db1 then commitRewardSet db1 else db1);
          db3 = (if candidateSetDirty db2 then commitCandidateSet db2 else db2);
          db4 = (if bannedSetDirty db3 then commitBannedSet db3 else db3)
      in if sideChainRewardPerBlockDirty db4 then commitSideChainRewardPerBlock db4 else Some db4)"

definition Finalise :: "bool \<Rightarrow> statedb \<Rightarrow> statedb option" where
  "Finalise deleteEmptyObjects db =
     (case fold_opt (finalise_object deleteEmptyObjects) (stateObjectsDirty db) db of
        None \<Rightarrow> None
      | Some db1 \<Rightarrow> map_option clearJournalAndRefund (commit_sets db1))"

text \<open>
  \<open>Commit\<close> visits every live object; the order of Go's map iteration is the argument
  \<open>order\<close>.  The second component of the state is the error flag: once an object has a
  memoised error, the method returns it and the rest is skipped.
\<close>

definition commit_object :: "bool \<Rightarrow> address \<Rightarrow> bool \<times> statedb \<Rightarrow> (bool \<times> statedb) option" where
  "commit_object deleteEmptyObjects addr st =
     (case st of (True, db) \<Rightarrow> Some (True, db)
      | (False, db) \<Rightarrow>
          (case stateObjects db addr of
             None \<Rightarrow> Some (False, db)
           | Some obj \<Rightarrow>
               (let isDirty = addr \<in> set (stateObjectsDirty db);
                    undirty = (\<lambda>db. db\<lparr>stateObjectsDirty := removeAll addr (stateObjectsDirty db)\<rparr>) in
                if suicided obj \<or> (isDirty \<and> deleteEmptyObjects \<and> so_empty obj)
                then Some (False, undirty (deleteStateObject obj db))
                else if isDirty
                then (let (obj1, db1) =
                        (case so_code obj of
                           Some c \<Rightarrow> if dirtyCode obj
                             then (obj\<lparr>dirtyCode := False\<rparr>,
                                   db\<lparr>codeDB := (codeDB db)(BytesToHash (CodeHash (so_data obj)) \<mapsto> c)\<rparr>)
                             else (obj, db)
                         | None \<Rightarrow> (obj, db))
                      in if so_dbErr obj1
                         then Some (True, setStateObject (updateTrie obj1) db1)
                         else (case update_roots obj1 of
                                 None \<Rightarrow> None
                               | Some obj2 \<Rightarrow>
                                   map_option (\<lambda>db2. (False, undirty db2))
                                     (updateStateObject obj2 (setStateObject obj2 db1))))
                else Some (False, undirty db))))"

definition clear_set_flags :: "statedb \<Rightarrow> statedb" where
  "clear_set_flags db =
     db\<lparr>delegateRefundSetDirty := False, rewardSetDirty := False, candidateSetDirty := False,
        bannedSetDirty := False, sideChainRewardPerBlockDirty := False\<rparr>"

definition Commit :: "address list \<Rightarrow> bool \<Rightarrow> statedb \<Rightarrow> (bool \<times> statedb) option" where
  "Commit order deleteEmptyObjects db =
     (case fold_opt (commit_object deleteEmptyObjects) order (False, db) of
        None \<Rightarrow> None
      | Some (True, db1) \<Rightarrow> Some (True, clearJournalAndRefund db1)
      | Some (False, db1) \<Rightarrow>
          map_option (\<lambda>db2. (False, clearJournalAndRefund (clear_set_flags db2))) (commit_sets db1))"

text \<open>
  Copying.  \<open>Proxied.Copy\<close> dereferences every cached entry and \<open>Reward.Copy\<close> copies
  every cached integer: a cached miss is a panic.
\<close>

definition copyable :: "state_object \<Rightarrow> bool" where
  "copyable obj \<longleftrightarrow>
     None \<notin> snd ` set (dirtyProxied obj) \<and> None \<notin> snd ` set (originProxied obj)
     \<and> None \<notin> snd ` set (dirtyReward obj) \<and> None \<notin> snd ` set (originReward obj)"

definition deepCopy :: "state_object \<Rightarrow> state_object option" where
  "deepCopy obj =
     (if copyable obj
      then Some ((newObject (so_address obj) (so_data obj) True)
             \<lparr>so_code := so_code obj, dirtyStorage := dirtyStorage obj,
              originStorage := originStorage obj, suicided := suicided obj,
              dirtyCode := dirtyCode obj, deleted := deleted obj,
              dirtyTX1 := dirtyTX1 obj, dirtyTX3 := dirtyTX3 obj,
              dirtyProxied := dirtyProxied obj, originProxied := originProxied obj,
              dirtyReward := dirtyReward obj, originReward := originReward obj\<rparr>)
      else None)"

definition copy_object :: "statedb \<Rightarrow> address \<Rightarrow> statedb \<Rightarrow> statedb option" where
  "copy_object self addr state =
     (case stateObjects self addr of
        None \<Rightarrow> None
      | Some obj \<Rightarrow>
          (case deepCopy obj of
             None \<Rightarrow> None
           | Some cpy \<Rightarrow>
               Some (state\<lparr>stateObjects := (stateObjects state)(addr \<mapsto> cpy),
                           stateObjectsDirty := List.insert addr (stateObjectsDirty state)\<rparr>)))"

definition Copy :: "statedb \<Rightarrow> statedb option" where
  "Copy self =
     fold_opt (copy_object self) (stateObjectsDirty self)
       ((NewStateDB (trie_of self))
          \<lparr>delegateRefundSet := delegateRefundSet self,
           delegateRefundSetDirty := delegateRefundSetDirty self,
           rewardSet := rewardSet self, rewardSetDirty := rewardSetDirty self,
           candidateSet := candidateSet self, candidateSetDirty := candidateSetDirty self,
           bannedSet := bannedSet self, bannedSetDirty := bannedSetDirty self,
           sideChainRewardPerBlock := sideChainRewardPerBlock self,
           sideChainRewardPerBlockDirty := sideChainRewardPerBlockDirty self,
           sdb_refund := sdb_refund self, logs := logs self, logSize := logSize self,
           preimages := preimages self\<rparr>)"

subsection \<open>Iterating over the delegators of a candidate\<close>

text \<open>
  \<open>ForEachProxied\<close> walks the stored entries in the order of the hashed keys, and prefers the
  dirty value of a key as it is at that moment.  The argument \<open>order\<close> stands for the trie iterator
  together with the recovery of the keys: it gives, for the entries of the trie, the pairs of
  recovered address and stored value that the loop sees.  \<open>GetKey\<close> yields the zero address for a
  hashed key whose preimage is missing, so without further hypotheses the pairs are arbitrary; that
  every key is recovered is the hypothesis \<open>runtime_ok\<close> of the theorems about these loops.
  The callback works on the database and on a value of its own.
\<close>

definition for_each_step ::
  "address \<Rightarrow> (address \<Rightarrow> accountProxiedBalance \<Rightarrow> 'x \<times> statedb \<Rightarrow> 'x \<times> statedb) \<Rightarrow>
   address \<times> accountProxiedBalance \<Rightarrow> 'x \<times> statedb \<Rightarrow> ('x \<times> statedb) option" where
  "for_each_step addr cb kv st =
     (let (key, stored) = kv; db = snd st in
      case stateObjects db addr of
        None \<Rightarrow> None
      | Some so \<Rightarrow>
          (case map_of (dirtyProxied so) key of
             Some None \<Rightarrow> None
           | Some (Some value) \<Rightarrow> Some (cb key value st)
           | None \<Rightarrow> Some (cb key stored st)))"

definition ForEachProxied ::
  "(proxied_trie \<Rightarrow> proxied_trie) \<Rightarrow> address \<Rightarrow>
   (address \<Rightarrow> accountProxiedBalance \<Rightarrow> 'x \<times> statedb \<Rightarrow> 'x \<times> statedb) \<Rightarrow>
   'x \<times> statedb \<Rightarrow> ('x \<times> statedb) option" where
  "ForEachProxied order addr cb st =
     (case getStateObject addr (snd st) of
        (None, db1) \<Rightarrow> Some (fst st, db1)
      | (Some so, db1) \<Rightarrow> fold_opt (for_each_step addr cb) (order (proxiedTrie so)) (fst st, db1))"

end
