(* ===== verification/StateViews.thy ===== *)
theory StateViews
  imports StateDB
begin

section \<open>What can be read of the state database\<close>

text \<open>
  What a client can read of the database is its \<^emph>\<open>view\<close>: for every address the
  account with its storage, code, delegator entries and rewards, plus the refund counter,
  the logs and the preimages.  Caches, dirty marks and the journal are not part of it.
  The journal is shown to be an undo log of the view: every entry's \<open>undo\<close> acts on the
  view as a function of the view alone (a refinement) and keeps the database well formed.
\<close>

subsection \<open>The view\<close>

record account_view =
  v_data :: account
  v_side :: "string \<Rightarrow> int"
  v_code :: "bytes option"
  v_suicided :: bool
  v_state :: "hash \<Rightarrow> hash"
  v_committed :: "hash \<Rightarrow> hash"
  v_tx1 :: "hash set"
  v_tx3 :: "hash set"
  v_proxied :: "address \<Rightarrow> accountProxiedBalance option"
  v_reward :: "address \<Rightarrow> int option"

text \<open>Side-chain deposits and code hashes are observed through their getters only.\<close>

definition plain_data :: "account \<Rightarrow> account" where
  "plain_data d = d\<lparr>SideChainDepositBalance := [], CodeHash := BytesToHash (CodeHash d)\<rparr>"

definition code_of :: "(hash \<rightharpoonup> bytes) \<Rightarrow> state_object \<Rightarrow> bytes option" where
  "code_of cdb obj =
     (case so_code obj of
        Some c \<Rightarrow> Some c
      | None \<Rightarrow> if CodeHash (so_data obj) = emptyCodeHash then None
                else cdb (BytesToHash (CodeHash (so_data obj))))"

definition obs :: "(hash \<rightharpoonup> bytes) \<Rightarrow> state_object \<Rightarrow> account_view" where
  "obs cdb s =
     \<lparr>v_data = plain_data (so_data s), v_side = side_read (SideChainDepositBalance (so_data s)),
      v_code = code_of cdb s, v_suicided = suicided s,
      v_state = state_read s, v_committed = committed_read s,
      v_tx1 = dirtyTX1 s, v_tx3 = dirtyTX3 s,
      v_proxied = proxied_read s, v_reward = reward_read s\<rparr>"

text \<open>The object that \<open>getStateObject\<close> returns.\<close>

definition peek :: "statedb \<Rightarrow> address \<Rightarrow> state_object option" where
  "peek db addr =
     (case stateObjects db addr of
        Some obj \<Rightarrow> if deleted obj then None else Some obj
      | None \<Rightarrow> map_option (\<lambda>d. newObject addr d True) (trie db addr))"

record state_view =
  accounts :: "address \<rightharpoonup> account_view"
  v_trie :: "address \<rightharpoonup> account"
  v_codeDB :: "hash \<rightharpoonup> bytes"
  v_refund :: uint64
  v_logs :: "hash \<rightharpoonup> log_entry list"
  v_logSize :: uint64
  v_preimages :: "hash \<rightharpoonup> bytes"

definition view :: "statedb \<Rightarrow> state_view" where
  "view db =
     \<lparr>accounts = (\<lambda>a. map_option (obs (codeDB db)) (peek db a)), v_trie = trie db,
      v_codeDB = codeDB db, v_refund = sdb_refund db, v_logs = logs db, v_logSize = logSize db,
      v_preimages = preimages db\<rparr>"

lemma code_read_eq: "code_read db s = code_of (codeDB db) s"
  by (simp add: code_read_def code_of_def split: option.split)

subsection \<open>Loading and writing an object\<close>

definition load :: "address \<Rightarrow> statedb \<Rightarrow> statedb" where
  "load addr db = snd (getStateObject addr db)"

lemma getStateObject_eq: "getStateObject addr db = (peek db addr, load addr db)"
  by (auto simp: getStateObject_def peek_def load_def Let_def split: option.split)

lemma so_address_newObject [simp]: "so_address (newObject a d b) = a"
  and so_data_newObject [simp]: "so_data (newObject a d b) = d"
  and deleted_newObject [simp]: "deleted (newObject a d b) = False"
  by (simp_all add: newObject_def)

lemma load_cases:
  obtains "load addr db = db"
  | d where "stateObjects db addr = None" "trie db addr = Some d"
      "load addr db = db\<lparr>stateObjects := (stateObjects db)(addr \<mapsto> newObject addr d True)\<rparr>"
  unfolding load_def getStateObject_def setStateObject_def
  by (cases "stateObjects db addr"; cases "trie db addr") (simp_all add: Let_def)

text \<open>Databases that differ only in the live objects, the dirty marks and the journal.\<close>

definition same_rest :: "statedb \<Rightarrow> statedb \<Rightarrow> bool" where
  "same_rest db db' \<longleftrightarrow>
     trie db' = trie db \<and> codeDB db' = codeDB db \<and> sdb_refund db' = sdb_refund db \<and>
     logs db' = logs db \<and> logSize db' = logSize db \<and> preimages db' = preimages db \<and>
     validRevisions db' = validRevisions db \<and> nextRevisionId db' = nextRevisionId db"

lemma same_rest_refl [simp]: "same_rest db db"
  by (simp add: same_rest_def)

lemma same_rest_trans: "same_rest a b \<Longrightarrow> same_rest b c \<Longrightarrow> same_rest a c"
  by (simp add: same_rest_def)

lemma same_rest_push [simp]: "same_rest db (push e db)"
  by (simp add: same_rest_def push_def)

lemma same_rest_load [simp]: "same_rest db (load addr db)"
  by (rule load_cases [of addr db]) (simp_all add: same_rest_def)

lemma same_rest_write [simp]: "same_rest db (write_object addr f db)"
  by (simp add: same_rest_def write_object_def MarkStateObjectDirty_def Let_def split: option.split)

lemma same_rest_modify [simp]: "same_rest db (modify_object addr f db)"
  by (simp add: same_rest_def modify_object_def split: option.split)

lemma journal_load [simp]: "journal (load addr db) = journal db"
  by (rule load_cases [of addr db]) simp_all

lemma journal_write [simp]: "journal (write_object addr f db) = journal db"
  by (simp add: write_object_def MarkStateObjectDirty_def Let_def split: option.split)

lemma journal_modify [simp]: "journal (modify_object addr f db) = journal db"
  by (simp add: modify_object_def split: option.split)

lemma journal_push [simp]: "journal (push e db) = journal db @ [e]"
  by (simp add: push_def)

lemma stateObjects_push [simp]: "stateObjects (push e db) = stateObjects db"
  by (simp add: push_def)

lemma stateObjects_write:
  "stateObjects (write_object addr f db) =
     (case stateObjects db addr of None \<Rightarrow> stateObjects db
      | Some obj \<Rightarrow> (stateObjects db)(addr \<mapsto> (f obj)\<lparr>onDirty := False\<rparr>))"
  by (simp add: write_object_def MarkStateObjectDirty_def Let_def split: option.split)

lemma stateObjects_modify:
  "stateObjects (modify_object addr f db) =
     (case stateObjects db addr of None \<Rightarrow> stateObjects db
      | Some obj \<Rightarrow> (stateObjects db)(addr \<mapsto> f obj))"
  by (simp add: modify_object_def split: option.split)

lemma peek_load [simp]: "peek (load addr db) = peek db"
  by (rule load_cases [of addr db]) (auto simp: peek_def fun_eq_iff split: option.split)

lemma live_load: "peek db addr = Some s \<Longrightarrow> stateObjects (load addr db) addr = Some s"
  by (auto simp: peek_def load_def getStateObject_def setStateObject_def Let_def
      split: option.splits if_splits)

lemma peek_not_deleted: "peek db addr = Some s \<Longrightarrow> \<not> deleted s"
  by (auto simp: peek_def split: option.splits if_splits)

lemma peek_live: "stateObjects db addr = Some s \<Longrightarrow> \<not> deleted s \<Longrightarrow> peek db addr = Some s"
  by (simp add: peek_def)

lemma peek_upd:
  "stateObjects db' = (stateObjects db)(addr \<mapsto> s) \<Longrightarrow> \<not> deleted s \<Longrightarrow> trie db' = trie db \<Longrightarrow>
   peek db' = (peek db)(addr \<mapsto> s)"
  by (auto simp: peek_def fun_eq_iff split: option.split)

lemma view_eqI:
  "same_rest db db' \<Longrightarrow> (\<And>a. map_option (obs (codeDB db)) (peek db' a) = map_option (obs (codeDB db)) (peek db a)) \<Longrightarrow>
   view db' = view db"
  by (simp add: view_def same_rest_def)

lemma view_load [simp]: "view (load addr db) = view db"
  by (rule view_eqI) simp_all

lemma view_push [simp]: "view (push e db) = view db"
  by (rule view_eqI) (simp, simp add: peek_def push_def cong: option.case_cong)

text \<open>Updating one account of a view.\<close>

definition upd_view :: "address \<Rightarrow> (account_view \<Rightarrow> account_view) \<Rightarrow> state_view \<Rightarrow> state_view" where
  "upd_view addr g v = v\<lparr>accounts := (accounts v)(addr := map_option g (accounts v addr))\<rparr>"

lemma accounts_view: "accounts (view db) a = map_option (obs (codeDB db)) (peek db a)"
  by (simp add: view_def)

lemma view_rest [simp]:
  "v_trie (view db) = trie db" "v_codeDB (view db) = codeDB db" "v_refund (view db) = sdb_refund db"
  "v_logs (view db) = logs db" "v_logSize (view db) = logSize db"
  "v_preimages (view db) = preimages db"
  by (simp_all add: view_def)

lemma view_upd_live:
  assumes "stateObjects db addr = Some s" "\<not> deleted s"
    and "stateObjects db' = (stateObjects db)(addr \<mapsto> s')" "\<not> deleted s'"
    and "same_rest db db'" and "obs (codeDB db) s' = g (obs (codeDB db) s)"
  shows "view db' = upd_view addr g (view db)"
proof -
  have "trie db' = trie db"
    using assms(5) by (simp add: same_rest_def)
  then have "peek db' = (peek db)(addr \<mapsto> s')"
    by (rule peek_upd [OF assms(3,4)])
  moreover have "peek db addr = Some s"
    by (rule peek_live [OF assms(1,2)])
  ultimately show ?thesis
    using assms(5,6) by (auto simp: view_def upd_view_def same_rest_def)
qed

lemma obs_onDirty [simp]: "obs cdb (s\<lparr>onDirty := b\<rparr>) = obs cdb s"
  by (simp add: obs_def code_of_def state_read_def committed_read_def proxied_read_def
      reward_read_def proxiedTrie_def fun_eq_iff cong: option.case_cong)

lemma view_write:
  assumes "stateObjects db addr = Some s" "\<not> deleted s" "\<not> deleted (f s)"
    and "obs (codeDB db) (f s) = g (obs (codeDB db) s)"
  shows "view (write_object addr f db) = upd_view addr g (view db)"
  by (rule view_upd_live [OF assms(1,2), where s' = "(f s)\<lparr>onDirty := False\<rparr>"])
    (simp_all add: assms stateObjects_write)

lemma view_modify:
  assumes "stateObjects db addr = Some s" "\<not> deleted s" "\<not> deleted (f s)"
    and "obs (codeDB db) (f s) = g (obs (codeDB db) s)"
  shows "view (modify_object addr f db) = upd_view addr g (view db)"
  by (rule view_upd_live [OF assms(1,2), where s' = "f s"])
    (simp_all add: assms stateObjects_modify)

subsection \<open>Undoing on the view\<close>

definition on_view ::
  "address \<Rightarrow> (account_view \<Rightarrow> account_view) \<Rightarrow> state_view \<Rightarrow> state_view option" where
  "on_view addr g v =
     (case accounts v addr of None \<Rightarrow> None | Some av \<Rightarrow> Some (upd_view addr g v))"

definition field_view :: "balance_field \<Rightarrow> int \<Rightarrow> account_view \<Rightarrow> account_view" where
  "field_view f x av = av\<lparr>v_data := put_field f x (v_data av)\<rparr>"

text \<open>The entry's effect, as a function of the view.\<close>

fun undo_view :: "journal_entry \<Rightarrow> state_view \<Rightarrow> state_view option" where
  "undo_view (createObjectChange a) v =
     Some (v\<lparr>accounts := (accounts v)
        (a := map_option (\<lambda>d. obs (v_codeDB v) (newObject a d True)) (v_trie v a))\<rparr>)"
| "undo_view (resetObjectChange prev) v =
     Some (v\<lparr>accounts := (accounts v)(so_address prev \<mapsto> obs (v_codeDB v) prev)\<rparr>)"
| "undo_view (suicideChange a prev prevbalance) v =
     Some (upd_view a (\<lambda>av. field_view F_Balance prevbalance (av\<lparr>v_suicided := prev\<rparr>)) v)"
| "undo_view (touchChange a prev prevDirty) v =
     (if \<not> prev \<and> a \<noteq> ripemd then on_view a (\<lambda>av. av) v else Some v)"
| "undo_view (balanceChange a prev) v = on_view a (field_view F_Balance prev) v"
| "undo_view (depositBalanceChange a prev) v = on_view a (field_view F_Deposit prev) v"
| "undo_view (sideChainDepositBalanceChange a chainId prev) v =
     on_view a (\<lambda>av. av\<lparr>v_side := (v_side av)(chainId := prev)\<rparr>) v"
| "undo_view (chainBalanceChange a prev) v = on_view a (field_view F_Chain prev) v"
| "undo_view (delegateBalanceChange a prev) v = on_view a (field_view F_Delegate prev) v"
| "undo_view (proxiedBalanceChange a prev) v = on_view a (field_view F_Proxied prev) v"
| "undo_view (depositProxiedBalanceChange a prev) v = on_view a (field_view F_DepositProxied prev) v"
| "undo_view (pendingRefundBalanceChange a prev) v = on_view a (field_view F_PendingRefund prev) v"
| "undo_view (rewardBalanceChange a prev) v = on_view a (field_view F_Reward prev) v"
| "undo_view (availableRewardBalanceChange a prev) v =
     on_view a (field_view F_AvailableReward prev) v"
| "undo_view (nonceChange a prev) v =
     on_view a (\<lambda>av. av\<lparr>v_data := v_data av\<lparr>Nonce := prev\<rparr>\<rparr>) v"
| "undo_view (codeChange a prevcode prevhash) v =
     on_view a (\<lambda>av. av\<lparr>v_data := v_data av\<lparr>CodeHash := BytesToHash prevhash\<rparr>,
       v_code := (case prevcode of Some c \<Rightarrow> Some c
                  | None \<Rightarrow> if BytesToHash prevhash = emptyCodeHash then None
                            else v_codeDB v (BytesToHash prevhash))\<rparr>) v"
| "undo_view (storageChange a key prevalue) v =
     on_view a (\<lambda>av. av\<lparr>v_state := (v_state av)(key := prevalue)\<rparr>) v"
| "undo_view (addTX1Change a h) v = on_view a (\<lambda>av. av\<lparr>v_tx1 := v_tx1 av - {h}\<rparr>) v"
| "undo_view (addTX3Change a h) v = on_view a (\<lambda>av. av\<lparr>v_tx3 := v_tx3 av - {h}\<rparr>) v"
| "undo_view (accountProxiedBalanceChange a key prevalue) v =
     on_view a (\<lambda>av. av\<lparr>v_proxied := (v_proxied av)(key := prevalue)\<rparr>) v"
| "undo_view (delegateRewardBalanceChange a key prevalue) v =
     on_view a (\<lambda>av. av\<lparr>v_reward := (v_reward av)(key := prevalue)\<rparr>) v"
| "undo_view (candidateChange a prev) v =
     on_view a (\<lambda>av. av\<lparr>v_data := v_data av\<lparr>Candidate := prev\<rparr>\<rparr>) v"
| "undo_view (pubkeyChange a prev) v =
     on_view a (\<lambda>av. av\<lparr>v_data := v_data av\<lparr>Pubkey := prev\<rparr>\<rparr>) v"
| "undo_view (commissionChange a prev) v =
     on_view a (\<lambda>av. av\<lparr>v_data := v_data av\<lparr>Commission := prev\<rparr>\<rparr>) v"
| "undo_view (bannedChange a prev) v =
     on_view a (\<lambda>av. av\<lparr>v_data := v_data av\<lparr>IsBanned := prev\<rparr>\<rparr>) v"
| "undo_view (blockTimeChange a prev) v =
     on_view a (\<lambda>av. av\<lparr>v_data := v_data av\<lparr>BlockTime := prev\<rparr>\<rparr>) v"
| "undo_view (bannedTimeChange a prev) v =
     on_view a (\<lambda>av. av\<lparr>v_data := v_data av\<lparr>BannedTime := prev\<rparr>\<rparr>) v"
| "undo_view (refundChange prev) v = Some (v\<lparr>v_refund := prev\<rparr>)"
| "undo_view (addLogChange txhash) v =
     (let l = (case v_logs v txhash of None \<Rightarrow> [] | Some l \<Rightarrow> l);
          v1 = v\<lparr>v_logSize := v_logSize v - 1\<rparr>
      in if length l = 1 then Some (v1\<lparr>v_logs := (v_logs v)(txhash := None)\<rparr>)
         else if l = [] then None
         else Some (v1\<lparr>v_logs := (v_logs v)(txhash \<mapsto> butlast l)\<rparr>))"
| "undo_view (addPreimageChange h) v = Some (v\<lparr>v_preimages := (v_preimages v)(h := None)\<rparr>)"

text \<open>A setter of an object as a function of what is observed of it.\<close>

definition tracks :: "(state_object \<Rightarrow> state_object) \<Rightarrow> (account_view \<Rightarrow> account_view) \<Rightarrow>
    (hash \<rightharpoonup> bytes) \<Rightarrow> bool" where
  "tracks f g cdb \<longleftrightarrow> (\<forall>s. deleted (f s) = deleted s \<and> so_address (f s) = so_address s
     \<and> obs cdb (f s) = g (obs cdb s))"

lemma tracksI:
  "(\<And>s. deleted (f s) = deleted s) \<Longrightarrow> (\<And>s. so_address (f s) = so_address s) \<Longrightarrow>
   (\<And>s. obs cdb (f s) = g (obs cdb s)) \<Longrightarrow> tracks f g cdb"
  by (simp add: tracks_def)

lemma tracksD:
  assumes "tracks f g cdb"
  shows "deleted (f s) = deleted s" "so_address (f s) = so_address s" "obs cdb (f s) = g (obs cdb s)"
  using assms by (simp_all add: tracks_def)

lemmas obs_simps = obs_def code_of_def state_read_def committed_read_def proxied_read_def
  reward_read_def proxiedTrie_def fun_eq_iff

lemma plain_put_field [simp]: "plain_data (put_field f x d) = put_field f x (plain_data d)"
  by (cases f) (simp_all add: plain_data_def)

lemma plain_data_upd [simp]:
  "plain_data (d\<lparr>Nonce := n\<rparr>) = (plain_data d)\<lparr>Nonce := n\<rparr>"
  "plain_data (d\<lparr>Candidate := b\<rparr>) = (plain_data d)\<lparr>Candidate := b\<rparr>"
  "plain_data (d\<lparr>Pubkey := k\<rparr>) = (plain_data d)\<lparr>Pubkey := k\<rparr>"
  "plain_data (d\<lparr>Commission := c\<rparr>) = (plain_data d)\<lparr>Commission := c\<rparr>"
  "plain_data (d\<lparr>IsBanned := b\<rparr>) = (plain_data d)\<lparr>IsBanned := b\<rparr>"
  "plain_data (d\<lparr>BlockTime := t\<rparr>) = (plain_data d)\<lparr>BlockTime := t\<rparr>"
  "plain_data (d\<lparr>BannedTime := t\<rparr>) = (plain_data d)\<lparr>BannedTime := t\<rparr>"
  "plain_data (d\<lparr>CodeHash := h\<rparr>) = (plain_data d)\<lparr>CodeHash := BytesToHash h\<rparr>"
  "plain_data (d\<lparr>SideChainDepositBalance := xs\<rparr>) = plain_data d"
  by (simp_all add: plain_data_def)

text \<open>A change of the account data that leaves the roots, the code hash and the side-chain list alone.\<close>

lemma obs_data:
  assumes "Root d = Root (so_data s)" "ProxiedRoot d = ProxiedRoot (so_data s)"
    and "RewardRoot d = RewardRoot (so_data s)" "CodeHash d = CodeHash (so_data s)"
    and "SideChainDepositBalance d = SideChainDepositBalance (so_data s)"
  shows "obs cdb (s\<lparr>so_data := d\<rparr>) = (obs cdb s)\<lparr>v_data := plain_data d\<rparr>"
  using assms by (simp add: obs_simps cong: option.case_cong)

lemma tracks_field:
  "tracks (\<lambda>s. s\<lparr>so_data := put_field f x (so_data s)\<rparr>) (field_view f x) cdb"
  by (rule tracksI) (simp_all add: obs_data field_view_def, simp add: obs_def)

lemma tracks_data:
  "tracks (\<lambda>s. s\<lparr>so_data := so_data s\<lparr>Nonce := n\<rparr>\<rparr>) (\<lambda>av. av\<lparr>v_data := v_data av\<lparr>Nonce := n\<rparr>\<rparr>) cdb"
  "tracks (\<lambda>s. s\<lparr>so_data := so_data s\<lparr>Candidate := b\<rparr>\<rparr>) (\<lambda>av. av\<lparr>v_data := v_data av\<lparr>Candidate := b\<rparr>\<rparr>) cdb"
  "tracks (\<lambda>s. s\<lparr>so_data := so_data s\<lparr>Pubkey := k\<rparr>\<rparr>) (\<lambda>av. av\<lparr>v_data := v_data av\<lparr>Pubkey := k\<rparr>\<rparr>) cdb"
  "tracks (\<lambda>s. s\<lparr>so_data := so_data s\<lparr>Commission := c\<rparr>\<rparr>) (\<lambda>av. av\<lparr>v_data := v_data av\<lparr>Commission := c\<rparr>\<rparr>) cdb"
  "tracks (\<lambda>s. s\<lparr>so_data := so_data s\<lparr>IsBanned := b\<rparr>\<rparr>) (\<lambda>av. av\<lparr>v_data := v_data av\<lparr>IsBanned := b\<rparr>\<rparr>) cdb"
  "tracks (\<lambda>s. s\<lparr>so_data := so_data s\<lparr>BlockTime := t\<rparr>\<rparr>) (\<lambda>av. av\<lparr>v_data := v_data av\<lparr>BlockTime := t\<rparr>\<rparr>) cdb"
  "tracks (\<lambda>s. s\<lparr>so_data := so_data s\<lparr>BannedTime := t\<rparr>\<rparr>) (\<lambda>av. av\<lparr>v_data := v_data av\<lparr>BannedTime := t\<rparr>\<rparr>) cdb"
  by (rule tracksI; simp add: obs_data; simp add: obs_def)+

lemma tracks_code:
  "tracks (\<lambda>s. s\<lparr>so_code := c, dirtyCode := True, so_data := so_data s\<lparr>CodeHash := h\<rparr>\<rparr>)
     (\<lambda>av. av\<lparr>v_data := v_data av\<lparr>CodeHash := BytesToHash h\<rparr>,
        v_code := (case c of Some c \<Rightarrow> Some c
                   | None \<Rightarrow> if h = emptyCodeHash then None else cdb (BytesToHash h))\<rparr>) cdb"
  by (rule tracksI) (simp_all add: obs_simps cong: option.case_cong)

lemma tracks_state:
  "tracks (\<lambda>s. s\<lparr>dirtyStorage := (dirtyStorage s)(key \<mapsto> value)\<rparr>)
     (\<lambda>av. av\<lparr>v_state := (v_state av)(key := value)\<rparr>) cdb"
  by (rule tracksI) (simp_all add: obs_simps cong: option.case_cong)

lemma tracks_tx:
  "tracks (\<lambda>s. s\<lparr>dirtyTX1 := F (dirtyTX1 s)\<rparr>) (\<lambda>av. av\<lparr>v_tx1 := F (v_tx1 av)\<rparr>) cdb"
  "tracks (\<lambda>s. s\<lparr>dirtyTX3 := F (dirtyTX3 s)\<rparr>) (\<lambda>av. av\<lparr>v_tx3 := F (v_tx3 av)\<rparr>) cdb"
  by (rule tracksI; simp add: obs_simps cong: option.case_cong)+

lemma tracks_proxied:
  "tracks (\<lambda>s. s\<lparr>dirtyProxied := AList.update key v (dirtyProxied s)\<rparr>)
     (\<lambda>av. av\<lparr>v_proxied := (v_proxied av)(key := v)\<rparr>) cdb"
  by (rule tracksI) (simp_all add: obs_simps update_conv cong: option.case_cong)

lemma tracks_reward:
  "tracks (\<lambda>s. s\<lparr>dirtyReward := AList.update key v (dirtyReward s)\<rparr>)
     (\<lambda>av. av\<lparr>v_reward := (v_reward av)(key := v)\<rparr>) cdb"
  by (rule tracksI) (simp_all add: obs_simps update_conv cong: option.case_cong)

lemma tracks_flags:
  "tracks (\<lambda>s. s\<lparr>suicided := b\<rparr>) (\<lambda>av. av\<lparr>v_suicided := b\<rparr>) cdb"
  "tracks (\<lambda>s. s\<lparr>touched := b\<rparr>) (\<lambda>av. av) cdb"
  by (rule tracksI; simp add: obs_simps cong: option.case_cong)+

lemma tracks_side_ensure:
  "tracks (\<lambda>s. s\<lparr>so_data := so_data s\<lparr>SideChainDepositBalance :=
       side_ensure c (SideChainDepositBalance (so_data s))\<rparr>\<rparr>) (\<lambda>av. av) cdb"
  by (rule tracksI) (simp_all add: obs_simps cong: option.case_cong)

lemma tracks_side_put:
  "tracks (\<lambda>s. s\<lparr>so_data := so_data s\<lparr>SideChainDepositBalance :=
       side_put c x (side_ensure c (SideChainDepositBalance (so_data s)))\<rparr>\<rparr>)
     (\<lambda>av. av\<lparr>v_side := (v_side av)(c := x)\<rparr>) cdb"
  by (rule tracksI) (simp_all add: obs_simps side_read_put cong: option.case_cong)

lemma tracks_comp: "tracks f g cdb \<Longrightarrow> tracks f' g' cdb \<Longrightarrow> tracks (\<lambda>s. f' (f s)) (\<lambda>av. g' (g av)) cdb"
  by (simp add: tracks_def)

lemma upd_view_upd_view [simp]: "upd_view a g (upd_view a f v) = upd_view a (\<lambda>av. g (f av)) v"
  by (simp add: upd_view_def option.map_comp comp_def)

lemma upd_view_id [simp]: "upd_view a (\<lambda>av. av) v = v"
  by (simp add: upd_view_def option.map_ident)

lemma upd_view_rest [simp]:
  "v_trie (upd_view a g v) = v_trie v" "v_codeDB (upd_view a g v) = v_codeDB v"
  by (simp_all add: upd_view_def)

lemma accounts_upd_view [simp]: "accounts (upd_view a g v) a = map_option g (accounts v a)"
  by (simp add: upd_view_def)

lemma upd_view_cong: "(\<And>av. accounts v a = Some av \<Longrightarrow> f av = g av) \<Longrightarrow> upd_view a f v = upd_view a g v"
  by (cases "accounts v a") (simp_all add: upd_view_def)

lemma on_view_Some: "accounts v a = Some av \<Longrightarrow> on_view a g v = Some (upd_view a g v)"
  by (simp add: on_view_def)

lemma on_view_restores:
  assumes "accounts v a = Some av" "h (g av) = av"
  shows "on_view a h (upd_view a g v) = Some v"
proof -
  have "upd_view a (\<lambda>x. h (g x)) v = upd_view a (\<lambda>x. x) v"
    by (rule upd_view_cong) (use assms in simp)
  then show ?thesis
    by (simp add: on_view_def assms(1))
qed

lemma view_write_tracks:
  "stateObjects db a = Some s \<Longrightarrow> \<not> deleted s \<Longrightarrow> tracks f g (codeDB db) \<Longrightarrow>
   view (write_object a f db) = upd_view a g (view db)"
  by (rule view_write) (simp_all add: tracksD)

lemma view_modify_tracks:
  "stateObjects db a = Some s \<Longrightarrow> \<not> deleted s \<Longrightarrow> tracks f g (codeDB db) \<Longrightarrow>
   view (modify_object a f db) = upd_view a g (view db)"
  by (rule view_modify) (simp_all add: tracksD)

lemma view_modify_write:
  assumes "stateObjects db a = Some s" "\<not> deleted s" "tracks (\<lambda>s. f (f0 s)) g (codeDB db)"
  shows "view (write_object a f (modify_object a f0 db)) = upd_view a g (view db)"
  using assms(1,2)
proof (rule view_upd_live [where s' = "(f (f0 s))\<lparr>onDirty := False\<rparr>"])
  show "same_rest db (write_object a f (modify_object a f0 db))"
    by (rule same_rest_trans [OF same_rest_modify same_rest_write])
qed (use tracksD [OF assms(3), of s] in \<open>simp_all add: assms stateObjects_write stateObjects_modify\<close>)

lemma codeDB_load [simp]: "codeDB (load a db) = codeDB db"
  using same_rest_load [of db a] by (simp add: same_rest_def)

text \<open>An undo that runs a setter on the fetched object, seen on the view.\<close>

lemma on_object_view:
  assumes "\<And>d s. stateObjects d a = Some s \<Longrightarrow> \<not> deleted s \<Longrightarrow> codeDB d = codeDB db \<Longrightarrow>
             view (F d) = upd_view a g (view d)"
  shows "map_option view (on_object a F db) = on_view a g (view db)"
proof (cases "peek db a")
  case None
  then show ?thesis
    by (simp add: on_object_def getStateObject_eq on_view_def accounts_view)
next
  case (Some s)
  then have "view (F (load a db)) = upd_view a g (view (load a db))"
    by (intro assms [of _ s]) (simp_all add: live_load peek_not_deleted)
  with Some show ?thesis
    by (simp add: on_object_def getStateObject_eq on_view_def accounts_view)
qed

lemmas on_object_write = on_object_view [OF view_write_tracks]
lemmas on_object_modify = on_object_view [OF view_modify_tracks]

lemma undo_field_change: "undo (field_change f a x) db = on_object a (set_balance f a x) db"
  by (cases f) simp_all

lemma undo_view_field_change: "undo_view (field_change f a x) v = on_view a (field_view f x) v"
  by (cases f) simp_all

lemma on_object_set_balance:
  "map_option view (on_object a (set_balance f a x) db) = on_view a (field_view f x) (view db)"
  unfolding set_balance_def by (rule on_object_write) (simp_all add: tracks_field)

text \<open>The previous object in a reset entry is one that was live.\<close>

definition entry_ok :: "journal_entry \<Rightarrow> bool" where
  "entry_ok e \<longleftrightarrow> (case e of resetObjectChange p \<Rightarrow> \<not> deleted p | _ \<Rightarrow> True)"

lemma view_create_undo:
  "view (db\<lparr>stateObjects := (stateObjects db)(a := None)\<rparr>) =
   (view db)\<lparr>accounts := (accounts (view db))
      (a := map_option (\<lambda>d. obs (codeDB db) (newObject a d True)) (trie db a))\<rparr>"
  by (auto simp: view_def peek_def fun_eq_iff option.map_comp comp_def split: option.split)

lemma view_set_object:
  "\<not> deleted p \<Longrightarrow>
   view (setStateObject p db) =
     (view db)\<lparr>accounts := (accounts (view db))(so_address p \<mapsto> obs (codeDB db) p)\<rparr>"
  by (auto simp: view_def peek_def setStateObject_def fun_eq_iff split: option.split)

lemma view_dirty [simp]: "view (db\<lparr>stateObjectsDirty := ds\<rparr>) = view db"
  by (rule view_eqI) (simp_all add: same_rest_def peek_def cong: option.case_cong)

lemma undo_refines_suicide:
  "map_option view (undo (suicideChange a prev bal) db) = undo_view (suicideChange a prev bal) (view db)"
proof (cases "peek db a")
  case None
  then show ?thesis
    by (simp add: getStateObject_eq upd_view_def accounts_view fun_upd_idem)
next
  case (Some s)
  have "tracks (\<lambda>s. s\<lparr>suicided := prev, so_data := put_field F_Balance bal (so_data s)\<rparr>)
          (\<lambda>av. field_view F_Balance bal (av\<lparr>v_suicided := prev\<rparr>)) (codeDB db)"
    using tracks_comp [OF tracks_flags(1) [of prev] tracks_field [of F_Balance bal]] by simp
  then have "view (set_balance F_Balance a bal (modify_object a (\<lambda>s. s\<lparr>suicided := prev\<rparr>) (load a db)))
      = upd_view a (\<lambda>av. field_view F_Balance bal (av\<lparr>v_suicided := prev\<rparr>)) (view (load a db))"
    unfolding set_balance_def
    by (intro view_modify_write [of _ _ s]) (simp_all add: Some live_load peek_not_deleted [OF Some])
  with Some show ?thesis
    by (simp add: getStateObject_eq)
qed

lemma undo_refines_touch:
  "map_option view (undo (touchChange a prev pd) db) = undo_view (touchChange a prev pd) (view db)"
proof -
  have "map_option view (on_object a
             (\<lambda>db. let db1 = modify_object a (\<lambda>s. s\<lparr>touched := prev\<rparr>) db in
                  if \<not> pd then db1\<lparr>stateObjectsDirty := removeAll a (stateObjectsDirty db1)\<rparr> else db1) db)
      = on_view a (\<lambda>av. av) (view db)"
    by (rule on_object_view)
      (simp add: Let_def view_modify_tracks [OF _ _ tracks_flags(2)] split: if_split)
  then show ?thesis
    by (cases prev) simp_all
qed

lemma undo_refines_side:
  "map_option view (undo (sideChainDepositBalanceChange a c x) db)
     = undo_view (sideChainDepositBalanceChange a c x) (view db)"
proof -
  have "map_option view (on_object a
           (\<lambda>db. setSideChainDepositBalance a c x (ensure_side_entry a c db)) db)
      = on_view a (\<lambda>av. av\<lparr>v_side := (v_side av)(c := x)\<rparr>) (view db)"
    unfolding setSideChainDepositBalance_def ensure_side_entry_def
    by (rule on_object_view, rule view_modify_write) (simp_all add: tracks_side_put)
  then show ?thesis
    by simp
qed

lemma undo_refines_log:
  "map_option view (undo (addLogChange h) db) = undo_view (addLogChange h) (view db)"
  by (simp add: Let_def view_def peek_def fun_eq_iff cong: option.case_cong)

lemma undo_refines:
  assumes "entry_ok e"
  shows "map_option view (undo e db) = undo_view e (view db)"
proof (cases e)
  case (createObjectChange a)
  then show ?thesis by (simp add: view_create_undo)
next
  case (resetObjectChange p)
  then show ?thesis using assms by (simp add: view_set_object entry_ok_def)
next
  case (suicideChange a prev bal)
  then show ?thesis by (simp only: undo_refines_suicide)
next
  case (touchChange a prev pd)
  then show ?thesis by (simp only: undo_refines_touch)
next
  case (sideChainDepositBalanceChange a c x)
  then show ?thesis by (simp only: undo_refines_side)
next
  case (addLogChange h)
  then show ?thesis by (simp only: undo_refines_log)
next
  case (codeChange a c h)
  show ?thesis
    unfolding codeChange undo.simps undo_view.simps setCode_def view_rest
    by (rule on_object_write, assumption, assumption, erule ssubst)
      (rule tracks_code [where c = c and h = "BytesToHash h" and cdb = "codeDB db",
          unfolded BytesToHash_idem])
next
  case (storageChange a k v)
  then show ?thesis by (simp add: setState_def on_object_write tracks_state)
next
  case (addTX1Change a h)
  then show ?thesis
    using on_object_modify [OF _ _ tracks_tx(1) [of "\<lambda>X. X - {h}"], of a db] by (simp add: removeTX1_def)
next
  case (addTX3Change a h)
  then show ?thesis
    using on_object_modify [OF _ _ tracks_tx(2) [of "\<lambda>X. X - {h}"], of a db] by (simp add: removeTX3_def)
next
  case (accountProxiedBalanceChange a k v)
  then show ?thesis by (simp add: setAccountProxiedBalance_def on_object_write tracks_proxied)
next
  case (delegateRewardBalanceChange a k v)
  then show ?thesis by (simp add: setDelegateRewardBalance_def on_object_write tracks_reward)
next
  case (refundChange x)
  then show ?thesis by (simp add: view_def peek_def fun_eq_iff cong: option.case_cong)
next
  case (addPreimageChange h)
  then show ?thesis by (simp add: view_def peek_def fun_eq_iff cong: option.case_cong)
qed (simp_all add: on_object_set_balance on_object_write tracks_data setNonce_def setCandidate_def
       setPubkey_def setCommission_def setBanned_def setBlockTime_def setBannedTime_def)

subsection \<open>Undo logs\<close>

text \<open>
  The interface of a log of undo entries: undoing an entry acts on what is observed of
  the state as a function of the observation, and leaves the log itself alone.
\<close>

fun undo_seq :: "('e \<Rightarrow> 's \<Rightarrow> 's option) \<Rightarrow> 'e list \<Rightarrow> 's \<Rightarrow> 's option" where
  "undo_seq u [] s = Some s"
| "undo_seq u (e # es) s = (case undo_seq u es s of None \<Rightarrow> None | Some s1 \<Rightarrow> u e s1)"

lemma undo_seq_append:
  "undo_seq u (xs @ ys) s = (case undo_seq u ys s of None \<Rightarrow> None | Some t \<Rightarrow> undo_seq u xs t)"
  by (induction xs) (auto split: option.splits)

locale undo_log =
  fixes entries :: "'s \<Rightarrow> 'e list"
    and look :: "'s \<Rightarrow> 'v"
    and undo1 :: "'e \<Rightarrow> 's \<Rightarrow> 's option"
    and undo1_look :: "'e \<Rightarrow> 'v \<Rightarrow> 'v option"
    and ok :: "'e \<Rightarrow> bool"
    and inv :: "'s \<Rightarrow> bool"
  assumes undo1_refines: "ok e \<Longrightarrow> map_option look (undo1 e s) = undo1_look e (look s)"
    and undo1_entries: "undo1 e s = Some t \<Longrightarrow> entries t = entries s"
    and undo1_inv: "ok e \<Longrightarrow> inv s \<Longrightarrow> undo1 e s = Some t \<Longrightarrow> inv t"
begin

lemma undo_seq_refines:
  "list_all ok es \<Longrightarrow> map_option look (undo_seq undo1 es s) = undo_seq undo1_look es (look s)"
proof (induction es)
  case (Cons e es)
  then have IH: "map_option look (undo_seq undo1 es s) = undo_seq undo1_look es (look s)"
    and "ok e" by simp_all
  then show ?case
    by (cases "undo_seq undo1 es s") (simp_all add: undo1_refines flip: IH)
qed simp

lemma undo_seq_entries: "undo_seq undo1 es s = Some t \<Longrightarrow> entries t = entries s"
proof (induction es arbitrary: t)
  case (Cons e es)
  then obtain u where "undo_seq undo1 es s = Some u" "undo1 e u = Some t"
    by (auto split: option.splits)
  with Cons.IH show ?case
    by (metis undo1_entries)
qed simp

lemma undo_seq_inv: "list_all ok es \<Longrightarrow> inv s \<Longrightarrow> undo_seq undo1 es s = Some t \<Longrightarrow> inv t"
proof (induction es arbitrary: t)
  case (Cons e es)
  then obtain u where "undo_seq undo1 es s = Some u" "undo1 e u = Some t"
    by (auto split: option.splits)
  with Cons show ?case
    by (auto intro: undo1_inv [of e u t])
qed simp

text \<open>Entries whose undoing gives the observation back can be undone on the state itself.\<close>

lemma undo_seq_restores:
  assumes "list_all ok es" "undo_seq undo1_look es (look t) = Some v"
  obtains u where "undo_seq undo1 es t = Some u" "look u = v"
  using undo_seq_refines [OF assms(1), of t] assms(2) by auto

end

subsection \<open>Well-formed databases\<close>

definition objects_ok :: "statedb \<Rightarrow> bool" where
  "objects_ok db \<longleftrightarrow> (\<forall>a s. stateObjects db a = Some s \<longrightarrow>
     so_address s = a \<and> (deleted s \<longrightarrow> trie db a = None))"

definition wf_db :: "statedb \<Rightarrow> bool" where
  "wf_db db \<longleftrightarrow> objects_ok db \<and> (\<forall>h. logs db h \<noteq> Some []) \<and> list_all entry_ok (journal db)"

lemma objects_okD:
  "objects_ok db \<Longrightarrow> stateObjects db a = Some s \<Longrightarrow> so_address s = a"
  "objects_ok db \<Longrightarrow> stateObjects db a = Some s \<Longrightarrow> deleted s \<Longrightarrow> trie db a = None"
  by (simp_all add: objects_ok_def)

lemma objects_ok_upd:
  assumes "objects_ok db" "stateObjects db' = (stateObjects db)(a \<mapsto> s)" "trie db' = trie db"
    and "so_address s = a" "deleted s \<Longrightarrow> trie db a = None"
  shows "objects_ok db'"
  using assms by (simp add: objects_ok_def)

lemma objects_ok_write:
  assumes "objects_ok db" "\<And>s. deleted (f s) = deleted s" "\<And>s. so_address (f s) = so_address s"
  shows "objects_ok (write_object a f db)" "objects_ok (modify_object a f db)"
  using assms same_rest_write [of db a f] same_rest_modify [of db a f]
  by (auto simp: objects_ok_def stateObjects_write stateObjects_modify same_rest_def
      split: option.splits if_splits)

lemma wf_write:
  assumes "wf_db db" "\<And>s. deleted (f s) = deleted s" "\<And>s. so_address (f s) = so_address s"
  shows "wf_db (write_object a f db)" "wf_db (modify_object a f db)"
  using assms objects_ok_write [of db f a] same_rest_write [of db a f] same_rest_modify [of db a f]
  by (simp_all add: wf_db_def same_rest_def)

lemma wf_tracks:
  "wf_db db \<Longrightarrow> tracks f g cdb \<Longrightarrow> wf_db (write_object a f db)"
  "wf_db db \<Longrightarrow> tracks f g cdb \<Longrightarrow> wf_db (modify_object a f db)"
  by (simp_all add: wf_write tracksD)

lemma wf_load [simp]: "wf_db db \<Longrightarrow> wf_db (load a db)"
  by (rule load_cases [of a db]) (auto simp: wf_db_def objects_ok_def)

lemma wf_push: "wf_db db \<Longrightarrow> entry_ok e \<Longrightarrow> wf_db (push e db)"
  by (simp add: wf_db_def objects_ok_def push_def)

lemma wf_peek_address: "wf_db db \<Longrightarrow> peek db a = Some s \<Longrightarrow> so_address s = a"
  by (auto simp: peek_def wf_db_def objects_ok_def split: option.splits if_splits)

lemma wf_peek_None: "wf_db db \<Longrightarrow> peek db a = None \<Longrightarrow> trie db a = None"
  by (auto simp: peek_def wf_db_def objects_ok_def split: option.splits if_splits)

lemma wf_set_object:
  "wf_db db \<Longrightarrow> \<not> deleted s \<Longrightarrow> wf_db (setStateObject s db)"
  by (auto simp: wf_db_def setStateObject_def intro: objects_ok_upd)

lemma wf_dirty [simp]: "wf_db (db\<lparr>stateObjectsDirty := ds\<rparr>) = wf_db db"
  by (simp add: wf_db_def objects_ok_def)

lemma wf_on_object:
  "wf_db db \<Longrightarrow> (\<And>d. wf_db d \<Longrightarrow> wf_db (F d)) \<Longrightarrow> on_object a F db = Some db' \<Longrightarrow> wf_db db'"
  by (auto simp: on_object_def getStateObject_eq split: option.splits)

lemma wf_set_balance: "wf_db db \<Longrightarrow> wf_db (set_balance f a x db)"
  by (simp add: set_balance_def wf_write)

lemmas setters = setNonce_def setCandidate_def setPubkey_def setCommission_def setBanned_def
  setBlockTime_def setBannedTime_def setCode_def setState_def removeTX1_def removeTX3_def
  setAccountProxiedBalance_def setDelegateRewardBalance_def setSideChainDepositBalance_def
  ensure_side_entry_def set_balance_def markSuicided_def addTX1_def addTX3_def

lemma wf_undo:
  assumes ok: "entry_ok e" and wf: "wf_db db" and u: "undo e db = Some db'"
  shows "wf_db db'"
proof (cases e)
  case (createObjectChange a)
  with u wf show ?thesis
    by (auto simp: wf_db_def objects_ok_def split: if_splits)
next
  case (resetObjectChange p)
  with u wf ok show ?thesis
    by (auto simp: wf_set_object entry_ok_def)
next
  case (suicideChange a prev bal)
  with u wf show ?thesis
    by (auto simp: getStateObject_eq wf_set_balance wf_write split: option.splits)
next
  case (touchChange a prev pd)
  with u wf show ?thesis
    by (auto simp: Let_def wf_write elim!: wf_on_object [rotated 2] split: if_splits)
next
  case (addLogChange h)
  with u wf show ?thesis
    by (auto simp: wf_db_def objects_ok_def Let_def split: if_splits option.splits)
      (metis Suc_eq_plus1 Suc_length_conv append_butlast_last_id append_self_conv2 length_append
        list.size(3) list.size(4) add_0)
next
  case (refundChange x)
  with u wf show ?thesis
    by (auto simp: wf_db_def objects_ok_def)
next
  case (addPreimageChange h)
  with u wf show ?thesis
    by (auto simp: wf_db_def objects_ok_def)
qed (use u wf in \<open>auto simp: setters wf_write elim!: wf_on_object [rotated 2]\<close>)

lemma journal_set_object [simp]: "journal (setStateObject s db) = journal db"
  by (simp add: setStateObject_def)

lemma on_object_journal:
  "(\<And>d. journal (F d) = journal d) \<Longrightarrow> on_object a F db = Some db' \<Longrightarrow> journal db' = journal db"
  by (auto simp: on_object_def getStateObject_eq split: option.splits)

lemma journal_undo: "undo e db = Some db' \<Longrightarrow> journal db' = journal db"
  by (cases e) (auto simp: setters getStateObject_eq Let_def elim!: on_object_journal [rotated]
      split: option.splits if_splits)

interpretation jlog: undo_log journal view undo undo_view entry_ok wf_db
  by unfold_locales (auto simp: undo_refines journal_undo intro: wf_undo)

lemma undo_all_eq: "undo_all es db = undo_seq undo es db"
  by (induction es) simp_all

end
