(* ===== verification/StateSnapshots.thy ===== *)
theory StateSnapshots
  imports StateViews
begin

section \<open>Snapshots of the state database\<close>

text \<open>
  Every operation of the database appends journal entries whose undoing gives the old
  view back, so \<open>RevertToSnapshot\<close> restores the view whatever happened since the
  snapshot, nested snapshots included, and never panics.
\<close>

subsection \<open>Operations that journal what they change\<close>

text \<open>A step after which undoing the new entries gives the old view back.\<close>

definition journaled :: "statedb \<Rightarrow> statedb \<Rightarrow> bool" where
  "journaled db db' \<longleftrightarrow>
     wf_db db' \<and> validRevisions db' = validRevisions db \<and> nextRevisionId db' = nextRevisionId db \<and>
     (\<exists>es. journal db' = journal db @ es \<and> list_all entry_ok es \<and>
        undo_seq undo_view es (view db') = Some (view db))"

lemma journaled_wf: "journaled db db' \<Longrightarrow> wf_db db'"
  by (simp add: journaled_def)

lemma journaled_trans: "journaled a b \<Longrightarrow> journaled b c \<Longrightarrow> journaled a c"
proof -
  assume ab: "journaled a b" and bc: "journaled b c"
  obtain xs where xs: "journal b = journal a @ xs" "list_all entry_ok xs"
      "undo_seq undo_view xs (view b) = Some (view a)"
    using ab by (auto simp: journaled_def)
  obtain ys where ys: "journal c = journal b @ ys" "list_all entry_ok ys"
      "undo_seq undo_view ys (view c) = Some (view b)"
    using bc by (auto simp: journaled_def)
  have "undo_seq undo_view (xs @ ys) (view c) = Some (view a)"
    by (simp add: undo_seq_append xs(3) ys(3))
  with ab bc xs(1,2) ys(1,2) show ?thesis
    by (auto simp: journaled_def)
qed

lemma journaled_silent:
  "wf_db db' \<Longrightarrow> view db' = view db \<Longrightarrow> journal db' = journal db \<Longrightarrow>
   validRevisions db' = validRevisions db \<Longrightarrow> nextRevisionId db' = nextRevisionId db \<Longrightarrow>
   journaled db db'"
  by (auto simp: journaled_def intro: exI [of _ "[]"])

lemma journaled_refl: "wf_db db \<Longrightarrow> journaled db db"
  by (rule journaled_silent) simp_all

lemma journaled_one:
  "wf_db db' \<Longrightarrow> journal db' = journal db @ [e] \<Longrightarrow> entry_ok e \<Longrightarrow>
   undo_view e (view db') = Some (view db) \<Longrightarrow>
   validRevisions db' = validRevisions db \<Longrightarrow> nextRevisionId db' = nextRevisionId db \<Longrightarrow>
   journaled db db'"
  by (auto simp: journaled_def intro: exI [of _ "[e]"])

lemma same_restD:
  assumes "same_rest db db'"
  shows "trie db' = trie db" "codeDB db' = codeDB db"
    "validRevisions db' = validRevisions db" "nextRevisionId db' = nextRevisionId db"
  using assms by (simp_all add: same_rest_def)

lemma journaled_load: "wf_db db \<Longrightarrow> journaled db (load a db)"
  by (rule journaled_silent) (simp_all add: same_restD [OF same_rest_load])

definition live :: "address \<Rightarrow> statedb \<Rightarrow> bool" where
  "live a db \<longleftrightarrow> (\<exists>s. stateObjects db a = Some s \<and> \<not> deleted s)"

lemma live_push [simp]: "live a (push e db) = live a db"
  by (simp add: live_def)

lemma live_write: "live a db \<Longrightarrow> (\<And>s. deleted (f s) = deleted s) \<Longrightarrow>
  live a (write_object a f db) \<and> live a (modify_object a f db)"
  by (auto simp: live_def stateObjects_write stateObjects_modify)

lemma codeDB_push [simp]: "codeDB (push e db) = codeDB db"
  by (simp add: push_def)

text \<open>The shape of most setters: journal the old value, then write.\<close>

lemma journaled_write:
  assumes wf: "wf_db db" and s: "stateObjects db a = Some s" "\<not> deleted s"
    and tr: "tracks f g (codeDB db)" and e: "entry_ok e"
    and undo: "undo_view e (upd_view a g (view db)) = Some (view db)"
  shows "journaled db (write_object a f (push e db))"
proof (rule journaled_one)
  show "wf_db (write_object a f (push e db))"
    by (rule wf_tracks(1) [OF wf_push [OF wf e] tr])
  have "view (write_object a f (push e db)) = upd_view a g (view (push e db))"
    by (rule view_write_tracks [where s = s]) (simp_all add: s tr)
  then show "undo_view e (view (write_object a f (push e db))) = Some (view db)"
    by (simp add: undo)
qed (simp_all add: e same_restD [OF same_rest_write] same_restD [OF same_rest_push])

lemma journaled_write_on:
  assumes wf: "wf_db db" and s: "stateObjects db a = Some s" "\<not> deleted s"
    and tr: "tracks f g (codeDB db)" and e: "entry_ok e"
    and ev: "\<And>v. v_codeDB v = codeDB db \<Longrightarrow> undo_view e v = on_view a h v"
    and gh: "h (g (obs (codeDB db) s)) = obs (codeDB db) s"
  shows "journaled db (write_object a f (push e db))"
proof (rule journaled_write [OF wf s tr e])
  have "accounts (view db) a = Some (obs (codeDB db) s)"
    by (simp add: accounts_view peek_live s)
  then have "on_view a h (upd_view a g (view db)) = Some (view db)"
    using gh by (rule on_view_restores)
  then show "undo_view e (upd_view a g (view db)) = Some (view db)"
    by (simp add: ev)
qed

lemma journaled_modify_silent:
  assumes wf: "wf_db db" and s: "stateObjects db a = Some s" "\<not> deleted s"
    and s': "deleted s' = deleted s" "so_address s' = so_address s"
      "obs (codeDB db) s' = obs (codeDB db) s"
  shows "journaled db (modify_object a (\<lambda>_. s') db)"
proof (rule journaled_silent)
  have "view (modify_object a (\<lambda>_. s') db) = upd_view a (\<lambda>av. av) (view db)"
    by (rule view_modify [OF s]) (simp_all add: s' s(2))
  then show "view (modify_object a (\<lambda>_. s') db) = view db"
    by simp
  have ok: "objects_ok db"
    using wf by (simp add: wf_db_def)
  have "stateObjects (modify_object a (\<lambda>_. s') db) = (stateObjects db)(a \<mapsto> s')"
    by (simp add: stateObjects_modify s(1))
  from objects_ok_upd [OF ok this] have "objects_ok (modify_object a (\<lambda>_. s') db)"
    using objects_okD(1) [OF ok s(1)] s(2)
    by (simp add: s'(1,2) same_restD [OF same_rest_modify])
  then show "wf_db (modify_object a (\<lambda>_. s') db)"
    using wf same_rest_modify [of db a "\<lambda>_. s'"] by (simp add: wf_db_def same_rest_def)
qed (simp_all add: same_restD [OF same_rest_modify])

lemma get_field_plain [simp]: "get_field f (plain_data d) = get_field f d"
  by (cases f) (simp_all add: plain_data_def)

lemma put_get_plain [simp]: "put_field f (get_field f d) (plain_data d) = plain_data d"
  by (metis get_field_plain put_get_field)

lemma entry_ok_simps [simp]:
  "entry_ok (field_change f a x)" "entry_ok (createObjectChange a)" "entry_ok (suicideChange a b x)"
  "entry_ok (sideChainDepositBalanceChange a c x)" "entry_ok (nonceChange a n)"
  "entry_ok (storageChange a k h)" "entry_ok (addTX1Change a h)" "entry_ok (addTX3Change a h)"
  "entry_ok (accountProxiedBalanceChange a k v)" "entry_ok (delegateRewardBalanceChange a k r)"
  "entry_ok (candidateChange a b)" "entry_ok (pubkeyChange a p)" "entry_ok (commissionChange a m)"
  "entry_ok (bannedChange a b)" "entry_ok (blockTimeChange a x)" "entry_ok (bannedTimeChange a x)"
  "entry_ok (codeChange a oc h)" "entry_ok (refundChange n)" "entry_ok (addLogChange h)"
  "entry_ok (addPreimageChange h)" "entry_ok (touchChange a b b')"
  "entry_ok (resetObjectChange s) = (\<not> deleted s)"
  by (cases f) (simp_all add: entry_ok_def)

lemma journaled_Set_balance:
  assumes "wf_db db" "live a db"
  shows "journaled db (Set_balance f a x db)" "live a (Set_balance f a x db)"
proof -
  obtain s where s: "stateObjects db a = Some s" "\<not> deleted s"
    using assms(2) by (auto simp: live_def)
  show "journaled db (Set_balance f a x db)"
    unfolding Set_balance_def set_balance_def s(1) option.case
    by (rule journaled_write_on [OF assms(1) s tracks_field,
          where h = "field_view f (get_field f (so_data s))"])
      (simp_all add: undo_view_field_change field_view_def obs_def)
  show "live a (Set_balance f a x db)"
    using live_write [of a "push (field_change f a (get_field f (so_data s))) db"] assms(2)
    by (simp add: Set_balance_def set_balance_def s)
qed

lemma journaled_touch:
  assumes "wf_db db" "live a db"
  shows "journaled db (touch a db)" "live a (touch a db)"
proof -
  obtain s where s: "stateObjects db a = Some s" "\<not> deleted s"
    using assms(2) by (auto simp: live_def)
  show "journaled db (touch a db)"
    unfolding touch_def s(1) option.case
  proof (rule journaled_write [OF assms(1) s tracks_flags(2)])
    show "undo_view (touchChange a (touched s) (\<not> onDirty s)) (upd_view a (\<lambda>av. av) (view db)) = Some (view db)"
      by (simp add: on_view_Some accounts_view peek_live s)
  qed simp
  show "live a (touch a db)"
    using live_write [of a "push (touchChange a (touched s) (\<not> onDirty s)) db"] assms(2)
    by (simp add: touch_def s)
qed

lemma journaled_Add_balance:
  assumes "wf_db db" "live a db"
  shows "journaled db (Add_balance f a x db)" "live a (Add_balance f a x db)"
  using assms journaled_Set_balance [OF assms] journaled_touch [OF assms]
  by (auto simp: Add_balance_def live_def journaled_refl split: option.split)

lemma journaled_Sub_balance:
  assumes "wf_db db" "live a db"
  shows "journaled db (Sub_balance f a x db)" "live a (Sub_balance f a x db)"
  using assms journaled_Set_balance [OF assms]
  by (auto simp: Sub_balance_def live_def journaled_refl split: option.split)

lemma liveE:
  assumes "live a db"
  obtains s where "stateObjects db a = Some s" "\<not> deleted s"
  using assms by (auto simp: live_def)

lemma journaled_SetNonce:
  assumes "wf_db db" "live a db"
  shows "journaled db (so_SetNonce a x db)" "live a (so_SetNonce a x db)"
proof -
  obtain s where s: "stateObjects db a = Some s" "\<not> deleted s"
    using assms(2) by (rule liveE)
  show "journaled db (so_SetNonce a x db)"
    unfolding so_SetNonce_def setNonce_def s(1) option.case
    by (rule journaled_write_on [OF assms(1) s tracks_data(1),
          where h = "\<lambda>av. av\<lparr>v_data := v_data av\<lparr>Nonce := Nonce (so_data s)\<rparr>\<rparr>"])
      (simp_all add: obs_def plain_data_def)
  show "live a (so_SetNonce a x db)"
    using live_write [of a "push (nonceChange a (Nonce (so_data s))) db"] assms(2)
    by (simp add: so_SetNonce_def setNonce_def s)
qed

lemma journaled_SetCandidate:
  assumes "wf_db db" "live a db"
  shows "journaled db (so_SetCandidate a x db)" "live a (so_SetCandidate a x db)"
proof -
  obtain s where s: "stateObjects db a = Some s" "\<not> deleted s"
    using assms(2) by (rule liveE)
  show "journaled db (so_SetCandidate a x db)"
    unfolding so_SetCandidate_def setCandidate_def s(1) option.case
    by (rule journaled_write_on [OF assms(1) s tracks_data(2),
          where h = "\<lambda>av. av\<lparr>v_data := v_data av\<lparr>Candidate := Candidate (so_data s)\<rparr>\<rparr>"])
      (simp_all add: obs_def plain_data_def)
  show "live a (so_SetCandidate a x db)"
    using live_write [of a "push (candidateChange a (Candidate (so_data s))) db"] assms(2)
    by (simp add: so_SetCandidate_def setCandidate_def s)
qed

lemma journaled_SetPubkey:
  assumes "wf_db db" "live a db"
  shows "journaled db (so_SetPubkey a x db)" "live a (so_SetPubkey a x db)"
proof -
  obtain s where s: "stateObjects db a = Some s" "\<not> deleted s"
    using assms(2) by (rule liveE)
  show "journaled db (so_SetPubkey a x db)"
    unfolding so_SetPubkey_def setPubkey_def s(1) option.case
    by (rule journaled_write_on [OF assms(1) s tracks_data(3),
          where h = "\<lambda>av. av\<lparr>v_data := v_data av\<lparr>Pubkey := Pubkey (so_data s)\<rparr>\<rparr>"])
      (simp_all add: obs_def plain_data_def)
  show "live a (so_SetPubkey a x db)"
    using live_write [of a "push (pubkeyChange a (Pubkey (so_data s))) db"] assms(2)
    by (simp add: so_SetPubkey_def setPubkey_def s)
qed

lemma journaled_SetCommission:
  assumes "wf_db db" "live a db"
  shows "journaled db (so_SetCommission a x db)" "live a (so_SetCommission a x db)"
proof -
  obtain s where s: "stateObjects db a = Some s" "\<not> deleted s"
    using assms(2) by (rule liveE)
  show "journaled db (so_SetCommission a x db)"
    unfolding so_SetCommission_def setCommission_def s(1) option.case
    by (rule journaled_write_on [OF assms(1) s tracks_data(4),
          where h = "\<lambda>av. av\<lparr>v_data := v_data av\<lparr>Commission := Commission (so_data s)\<rparr>\<rparr>"])
      (simp_all add: obs_def plain_data_def)
  show "live a (so_SetCommission a x db)"
    using live_write [of a "push (commissionChange a (Commission (so_data s))) db"] assms(2)
    by (simp add: so_SetCommission_def setCommission_def s)
qed

lemma journaled_SetBanned:
  assumes "wf_db db" "live a db"
  shows "journaled db (so_SetBanned a x db)" "live a (so_SetBanned a x db)"
proof -
  obtain s where s: "stateObjects db a = Some s" "\<not> deleted s"
    using assms(2) by (rule liveE)
  show "journaled db (so_SetBanned a x db)"
    unfolding so_SetBanned_def setBanned_def s(1) option.case
    by (rule journaled_write_on [OF assms(1) s tracks_data(5),
          where h = "\<lambda>av. av\<lparr>v_data := v_data av\<lparr>IsBanned := IsBanned (so_data s)\<rparr>\<rparr>"])
      (simp_all add: obs_def plain_data_def)
  show "live a (so_SetBanned a x db)"
    using live_write [of a "push (bannedChange a (IsBanned (so_data s))) db"] assms(2)
    by (simp add: so_SetBanned_def setBanned_def s)
qed

lemma journaled_SetBlockTime:
  assumes "wf_db db" "live a db"
  shows "journaled db (so_SetBlockTime a x db)" "live a (so_SetBlockTime a x db)"
proof -
  obtain s where s: "stateObjects db a = Some s" "\<not> deleted s"
    using assms(2) by (rule liveE)
  show "journaled db (so_SetBlockTime a x db)"
    unfolding so_SetBlockTime_def setBlockTime_def s(1) option.case
    by (rule journaled_write_on [OF assms(1) s tracks_data(6),
          where h = "\<lambda>av. av\<lparr>v_data := v_data av\<lparr>BlockTime := BlockTime (so_data s)\<rparr>\<rparr>"])
      (simp_all add: obs_def plain_data_def)
  show "live a (so_SetBlockTime a x db)"
    using live_write [of a "push (blockTimeChange a (BlockTime (so_data s))) db"] assms(2)
    by (simp add: so_SetBlockTime_def setBlockTime_def s)
qed

lemma journaled_SetBannedTime:
  assumes "wf_db db" "live a db"
  shows "journaled db (so_SetBannedTime a x db)" "live a (so_SetBannedTime a x db)"
proof -
  obtain s where s: "stateObjects db a = Some s" "\<not> deleted s"
    using assms(2) by (rule liveE)
  show "journaled db (so_SetBannedTime a x db)"
    unfolding so_SetBannedTime_def setBannedTime_def s(1) option.case
    by (rule journaled_write_on [OF assms(1) s tracks_data(7),
          where h = "\<lambda>av. av\<lparr>v_data := v_data av\<lparr>BannedTime := BannedTime (so_data s)\<rparr>\<rparr>"])
      (simp_all add: obs_def plain_data_def)
  show "live a (so_SetBannedTime a x db)"
    using live_write [of a "push (bannedTimeChange a (BannedTime (so_data s))) db"] assms(2)
    by (simp add: so_SetBannedTime_def setBannedTime_def s)
qed

text \<open>The caching reads observe what they return and change nothing else.\<close>

lemma obs_cached_state:
  "so_GetState k s = (state_read s k, snd (so_GetState k s))"
  "obs cdb (snd (so_GetState k s)) = obs cdb s"
  "deleted (snd (so_GetState k s)) = deleted s"
  "so_address (snd (so_GetState k s)) = so_address s"
  by (auto simp: so_GetState_def so_GetCommittedState_def Let_def obs_simps
      split: option.split cong: option.case_cong)

lemma obs_cached_committed:
  "so_GetCommittedState k s = (committed_read s k, snd (so_GetCommittedState k s))"
  "obs cdb (snd (so_GetCommittedState k s)) = obs cdb s"
  "deleted (snd (so_GetCommittedState k s)) = deleted s"
  "so_address (snd (so_GetCommittedState k s)) = so_address s"
  by (auto simp: so_GetCommittedState_def Let_def obs_simps
      split: option.split cong: option.case_cong)

lemma obs_cached_proxied:
  "so_GetAccountProxiedBalance k s = (proxied_read s k, snd (so_GetAccountProxiedBalance k s))"
  "obs cdb (snd (so_GetAccountProxiedBalance k s)) = obs cdb s"
  "deleted (snd (so_GetAccountProxiedBalance k s)) = deleted s"
  "so_address (snd (so_GetAccountProxiedBalance k s)) = so_address s"
  by (auto simp: so_GetAccountProxiedBalance_def Let_def obs_simps update_conv
      split: option.split cong: option.case_cong)

lemma obs_cached_reward:
  "so_GetDelegateRewardBalance k s = (reward_read s k, snd (so_GetDelegateRewardBalance k s))"
  "obs cdb (snd (so_GetDelegateRewardBalance k s)) = obs cdb s"
  "deleted (snd (so_GetDelegateRewardBalance k s)) = deleted s"
  "so_address (snd (so_GetDelegateRewardBalance k s)) = so_address s"
  by (auto simp: so_GetDelegateRewardBalance_def Let_def obs_simps update_conv
      split: option.split cong: option.case_cong)

lemma obs_cached_code:
  "obs cdb (s\<lparr>so_code := code_of cdb s\<rparr>) = obs cdb s"
  by (auto simp: obs_simps split: option.split cong: option.case_cong)

lemma modify_live:
  assumes "stateObjects db a = Some s" "\<not> deleted s" "deleted s' = deleted s"
  shows "stateObjects (modify_object a (\<lambda>_. s') db) a = Some s'" "live a (modify_object a (\<lambda>_. s') db)"
    "codeDB (modify_object a (\<lambda>_. s') db) = codeDB db"
  using assms by (simp_all add: stateObjects_modify live_def same_restD [OF same_rest_modify])

text \<open>A setter that first fills a read cache.\<close>

lemma journaled_cached_write:
  assumes wf: "wf_db db" and s: "stateObjects db a = Some s" "\<not> deleted s"
    and s': "deleted s' = deleted s" "so_address s' = so_address s"
      "obs (codeDB db) s' = obs (codeDB db) s"
    and tr: "tracks f g (codeDB db)" and e: "entry_ok e"
    and ev: "\<And>v. v_codeDB v = codeDB db \<Longrightarrow> undo_view e v = on_view a h v"
    and gh: "h (g (obs (codeDB db) s)) = obs (codeDB db) s"
  shows "journaled db (write_object a f (push e (modify_object a (\<lambda>_. s') db)))"
    "live a (write_object a f (push e (modify_object a (\<lambda>_. s') db)))"
proof -
  let ?d = "modify_object a (\<lambda>_. s') db"
  have d: "journaled db ?d"
    by (rule journaled_modify_silent [OF wf s s'])
  have l: "stateObjects ?d a = Some s'" "live a ?d" "codeDB ?d = codeDB db"
    by (rule modify_live [OF s s'(1)])+
  have "journaled ?d (write_object a f (push e ?d))"
    by (rule journaled_write_on [OF journaled_wf [OF d] l(1), where h = h and g = g])
      (simp_all add: s(2) s' l(3) tr e ev gh)
  with d show "journaled db (write_object a f (push e ?d))"
    by (rule journaled_trans)
  show "live a (write_object a f (push e ?d))"
    using live_write [of a "push e ?d" f] l(2) tracksD(1) [OF tr] by simp
qed

lemma journaled_SetState:
  assumes "wf_db db" "live a db"
  shows "journaled db (so_SetState a k x db)" "live a (so_SetState a k x db)"
proof -
  obtain s where s: "stateObjects db a = Some s" "\<not> deleted s"
    using assms(2) by (rule liveE)
  have eq: "so_SetState a k x db =
      write_object a (\<lambda>obj. obj\<lparr>dirtyStorage := (dirtyStorage obj)(k \<mapsto> x)\<rparr>)
        (push (storageChange a k (state_read s k)) (modify_object a (\<lambda>_. snd (so_GetState k s)) db))"
    unfolding so_SetState_def setState_def s(1) option.case
    by (subst obs_cached_state(1)) simp
  show "journaled db (so_SetState a k x db)" "live a (so_SetState a k x db)"
    unfolding eq
    by (rule journaled_cached_write [OF assms(1) s obs_cached_state(3,4,2) tracks_state,
          where h = "\<lambda>av. av\<lparr>v_state := (v_state av)(k := state_read s k)\<rparr>"];
        simp add: obs_def)+
qed

lemma journaled_SetCode:
  assumes "wf_db db" "live a db"
  shows "journaled db (so_SetCode a h c db)" "live a (so_SetCode a h c db)"
proof -
  obtain s where s: "stateObjects db a = Some s" "\<not> deleted s"
    using assms(2) by (rule liveE)
  let ?p = "code_of (codeDB db) s" and ?q = "BytesToHash (CodeHash (so_data s))"
  have eq: "so_SetCode a h c db =
      write_object a (\<lambda>obj. obj\<lparr>so_code := c, dirtyCode := True, so_data := so_data obj\<lparr>CodeHash := h\<rparr>\<rparr>)
        (push (codeChange a ?p (CodeHash (so_data s)))
          (modify_object a (\<lambda>_. s\<lparr>so_code := ?p\<rparr>) db))"
    by (simp add: so_SetCode_def setCode_def s code_read_eq modify_object_def Let_def)
  let ?h = "\<lambda>av. av\<lparr>v_data := v_data av\<lparr>CodeHash := ?q\<rparr>,
      v_code := (case ?p of Some c \<Rightarrow> Some c | None \<Rightarrow> if ?q = emptyCodeHash then None
                 else codeDB db ?q)\<rparr>"
  have p: "(case ?p of Some c \<Rightarrow> Some c | None \<Rightarrow> if ?q = emptyCodeHash then None else codeDB db ?q) = ?p"
    by (auto simp: code_of_def BytesToHash_id split: option.split)
  have ev: "v_codeDB v = codeDB db \<Longrightarrow>
      undo_view (codeChange a ?p (CodeHash (so_data s))) v = on_view a ?h v" for v
    by (simp only: undo_view.simps)
  have gh: "?h (av\<lparr>v_data := v_data av\<lparr>CodeHash := hh\<rparr>, v_code := cc\<rparr>) = av"
    if "av = obs (codeDB db) s" for av hh cc
    unfolding p by (simp add: that obs_def plain_data_def)
  note jw = journaled_cached_write [OF assms(1) s _ _ obs_cached_code tracks_code, where h = ?h]
  show "journaled db (so_SetCode a h c db)" "live a (so_SetCode a h c db)"
    unfolding eq by ((rule jw, simp, simp, simp, erule ev, rule gh, rule refl)+)
qed

lemma journaled_SetAccountProxied:
  assumes "wf_db db" "live a db"
  shows "journaled db (so_SetAccountProxiedBalance a k x db)"
    "live a (so_SetAccountProxiedBalance a k x db)"
proof -
  obtain s where s: "stateObjects db a = Some s" "\<not> deleted s"
    using assms(2) by (rule liveE)
  have eq: "so_SetAccountProxiedBalance a k x db =
      write_object a (\<lambda>obj. obj\<lparr>dirtyProxied := AList.update k x (dirtyProxied obj)\<rparr>)
        (push (accountProxiedBalanceChange a k (proxied_read s k))
          (modify_object a (\<lambda>_. snd (so_GetAccountProxiedBalance k s)) db))"
    unfolding so_SetAccountProxiedBalance_def setAccountProxiedBalance_def s(1) option.case
    by (subst obs_cached_proxied(1)) simp
  show "journaled db (so_SetAccountProxiedBalance a k x db)"
    "live a (so_SetAccountProxiedBalance a k x db)"
    unfolding eq
    by (rule journaled_cached_write [OF assms(1) s obs_cached_proxied(3,4,2) tracks_proxied,
          where h = "\<lambda>av. av\<lparr>v_proxied := (v_proxied av)(k := proxied_read s k)\<rparr>"];
        simp add: obs_def)+
qed

lemma journaled_SetDelegateReward:
  assumes "wf_db db" "live a db"
  shows "journaled db (so_SetDelegateRewardBalance a k x db)"
    "live a (so_SetDelegateRewardBalance a k x db)"
proof -
  obtain s where s: "stateObjects db a = Some s" "\<not> deleted s"
    using assms(2) by (rule liveE)
  have eq: "so_SetDelegateRewardBalance a k x db =
      write_object a (\<lambda>obj. obj\<lparr>dirtyReward := AList.update k x (dirtyReward obj)\<rparr>)
        (push (delegateRewardBalanceChange a k (reward_read s k))
          (modify_object a (\<lambda>_. snd (so_GetDelegateRewardBalance k s)) db))"
    unfolding so_SetDelegateRewardBalance_def setDelegateRewardBalance_def s(1) option.case
    by (subst obs_cached_reward(1)) simp
  show "journaled db (so_SetDelegateRewardBalance a k x db)"
    "live a (so_SetDelegateRewardBalance a k x db)"
    unfolding eq
    by (rule journaled_cached_write [OF assms(1) s obs_cached_reward(3,4,2) tracks_reward,
          where h = "\<lambda>av. av\<lparr>v_reward := (v_reward av)(k := reward_read s k)\<rparr>"];
        simp add: obs_def)+
qed

lemma push_modify: "push e (modify_object a f db) = modify_object a f (push e db)"
  by (simp add: push_def modify_object_def split: option.split)

lemma journaled_SetSide:
  assumes "wf_db db" "live a db"
  shows "journaled db (so_SetSideChainDepositBalance a c x db)"
    "live a (so_SetSideChainDepositBalance a c x db)"
proof -
  obtain s where s: "stateObjects db a = Some s" "\<not> deleted s"
    using assms(2) by (rule liveE)
  let ?e = "sideChainDepositBalanceChange a c (side_read (SideChainDepositBalance (so_data s)) c)"
  let ?ens = "\<lambda>obj. obj\<lparr>so_data := so_data obj\<lparr>SideChainDepositBalance :=
       side_ensure c (SideChainDepositBalance (so_data obj))\<rparr>\<rparr>"
  let ?put = "\<lambda>obj. obj\<lparr>so_data := so_data obj\<lparr>SideChainDepositBalance :=
       side_put c x (SideChainDepositBalance (so_data obj))\<rparr>\<rparr>"
  let ?d = "write_object a ?put (modify_object a ?ens (push ?e db))"
  have eq: "so_SetSideChainDepositBalance a c x db = ?d"
    by (simp add: so_SetSideChainDepositBalance_def setSideChainDepositBalance_def
        ensure_side_entry_def s push_modify)
  have "view ?d = upd_view a (\<lambda>av. av\<lparr>v_side := (v_side av)(c := x)\<rparr>) (view (push ?e db))"
    by (rule view_modify_write [of _ _ s]) (simp_all add: s tracks_side_put)
  moreover have "on_view a (\<lambda>av. av\<lparr>v_side := (v_side av)(c := side_read (SideChainDepositBalance (so_data s)) c)\<rparr>)
      (upd_view a (\<lambda>av. av\<lparr>v_side := (v_side av)(c := x)\<rparr>) (view db)) = Some (view db)"
    by (rule on_view_restores [of _ _ "obs (codeDB db) s"])
      (simp_all add: accounts_view peek_live s obs_def)
  ultimately have "undo_view ?e (view ?d) = Some (view db)"
    by simp
  then show "journaled db (so_SetSideChainDepositBalance a c x db)"
    unfolding eq
    by (intro journaled_one [where e = ?e])
      (simp_all add: wf_write wf_push assms same_restD [OF same_rest_write]
        same_restD [OF same_rest_modify] same_restD [OF same_rest_push])
  show "live a (so_SetSideChainDepositBalance a c x db)"
    unfolding eq using s by (simp add: live_def stateObjects_write stateObjects_modify)
qed

lemma journaled_AddSide:
  assumes "wf_db db" "live a db"
  shows "journaled db (so_AddSideChainDepositBalance a c x db)"
    "journaled db (so_SubSideChainDepositBalance a c x db)"
  using assms journaled_SetSide [OF assms] journaled_touch [OF assms]
  by (auto simp: so_AddSideChainDepositBalance_def so_SubSideChainDepositBalance_def live_def
      journaled_refl split: option.split)

text \<open>A cross-chain mark is undone by removing it: the mark must not have been set already.\<close>

lemma journaled_AddTX:
  assumes "wf_db db" and s: "stateObjects db a = Some s" "\<not> deleted s"
  shows "h \<notin> dirtyTX1 s \<Longrightarrow> journaled db (so_AddTX1 a h db)"
    "h \<notin> dirtyTX3 s \<Longrightarrow> journaled db (so_AddTX3 a h db)"
proof -
  have m: "accounts (view db) a = Some (obs (codeDB db) s)"
    by (simp add: accounts_view peek_live s)
  have v: "view (so_AddTX1 a h db) = upd_view a (\<lambda>av. av\<lparr>v_tx1 := insert h (v_tx1 av)\<rparr>) (view (push (addTX1Change a h) db))"
    "view (so_AddTX3 a h db) = upd_view a (\<lambda>av. av\<lparr>v_tx3 := insert h (v_tx3 av)\<rparr>) (view (push (addTX3Change a h) db))"
    unfolding so_AddTX1_def so_AddTX3_def addTX1_def addTX3_def
    by (rule view_modify_tracks [where s = s]; simp add: s tracks_tx)+
  show "h \<notin> dirtyTX1 s \<Longrightarrow> journaled db (so_AddTX1 a h db)"
  proof (rule journaled_one [where e = "addTX1Change a h"])
    assume "h \<notin> dirtyTX1 s"
    then show "undo_view (addTX1Change a h) (view (so_AddTX1 a h db)) = Some (view db)"
      unfolding v undo_view.simps view_push by (intro on_view_restores [OF m]) (simp add: obs_def)
  qed (simp_all add: so_AddTX1_def addTX1_def wf_write wf_push assms(1)
      same_restD [OF same_rest_modify] same_restD [OF same_rest_push])
  show "h \<notin> dirtyTX3 s \<Longrightarrow> journaled db (so_AddTX3 a h db)"
  proof (rule journaled_one [where e = "addTX3Change a h"])
    assume "h \<notin> dirtyTX3 s"
    then show "undo_view (addTX3Change a h) (view (so_AddTX3 a h db)) = Some (view db)"
      unfolding v undo_view.simps view_push by (intro on_view_restores [OF m]) (simp add: obs_def)
  qed (simp_all add: so_AddTX3_def addTX3_def wf_write wf_push assms(1)
      same_restD [OF same_rest_modify] same_restD [OF same_rest_push])
qed

subsection \<open>Creating and destroying objects\<close>

lemma createObject_eq:
  "createObject a db =
     (peek db a,
      setStateObject (newObject a new_account False)
        (push (case peek db a of None \<Rightarrow> createObjectChange a | Some p \<Rightarrow> resetObjectChange p)
          (MarkStateObjectDirty a (load a db))))"
  by (simp add: createObject_def getStateObject_eq Let_def)

lemma mark_dirty_simps [simp]:
  "view (MarkStateObjectDirty a db) = view db" "wf_db (MarkStateObjectDirty a db) = wf_db db"
  "journal (MarkStateObjectDirty a db) = journal db" "codeDB (MarkStateObjectDirty a db) = codeDB db"
  "validRevisions (MarkStateObjectDirty a db) = validRevisions db"
  "nextRevisionId (MarkStateObjectDirty a db) = nextRevisionId db"
  by (simp_all add: MarkStateObjectDirty_def)

lemma set_object_rest [simp]:
  "validRevisions (setStateObject s db) = validRevisions db"
  "nextRevisionId (setStateObject s db) = nextRevisionId db"
  "codeDB (setStateObject s db) = codeDB db"
  by (simp_all add: setStateObject_def)

text \<open>The entry of a creation restores the account whatever was written to it since.\<close>

lemma undo_create:
  assumes "wf_db db"
    and e: "e = (case peek db a of None \<Rightarrow> createObjectChange a | Some p \<Rightarrow> resetObjectChange p)"
    and v: "v = (view db)\<lparr>accounts := (accounts (view db))(a \<mapsto> av)\<rparr>"
  shows "undo_view e v = Some (view db)" "entry_ok e"
proof -
  show "undo_view e v = Some (view db)"
  proof (cases "peek db a")
    case None
    then have "accounts (view db) a = None" "trie db a = None"
      using wf_peek_None [OF assms(1)] by (simp_all add: accounts_view)
    with None show ?thesis
      by (simp add: e v fun_upd_idem)
  next
    case (Some p)
    then have "accounts (view db) a = Some (obs (codeDB db) p)" "so_address p = a"
      using wf_peek_address [OF assms(1)] by (simp_all add: accounts_view)
    with Some show ?thesis
      by (simp add: e v fun_upd_idem)
  qed
  show "entry_ok e"
    using peek_not_deleted [of db a] by (simp add: e split: option.split)
qed

lemma view_createObject:
  "view (snd (createObject a db)) =
     (view db)\<lparr>accounts := (accounts (view db))
        (a \<mapsto> obs (codeDB db) (newObject a new_account False))\<rparr>"
  by (simp add: createObject_eq view_set_object same_restD [OF same_rest_push])

lemma wf_createObject: "wf_db db \<Longrightarrow> wf_db (snd (createObject a db))"
  by (auto simp: createObject_eq intro!: wf_set_object wf_push undo_create(2) [of db _ a])

lemma journal_createObject:
  "journal (snd (createObject a db)) = journal db @
     [case peek db a of None \<Rightarrow> createObjectChange a | Some p \<Rightarrow> resetObjectChange p]"
  "validRevisions (snd (createObject a db)) = validRevisions db"
  "nextRevisionId (snd (createObject a db)) = nextRevisionId db"
  by (simp_all add: createObject_eq same_restD [OF same_rest_push] same_restD [OF same_rest_load])

lemma journaled_createObject:
  assumes "wf_db db"
  shows "journaled db (snd (createObject a db))" "live a (snd (createObject a db))"
proof -
  note u = undo_create [OF assms refl view_createObject]
  show "journaled db (snd (createObject a db))"
    by (rule journaled_one [OF wf_createObject [OF assms] journal_createObject(1) u(2,1)
          journal_createObject(2,3)])
  show "live a (snd (createObject a db))"
    by (simp add: createObject_eq live_def setStateObject_def)
qed

lemma journaled_GetOrNew:
  assumes "wf_db db"
  shows "journaled db (GetOrNewStateObject a db)" "live a (GetOrNewStateObject a db)"
proof -
  have "journaled db (GetOrNewStateObject a db) \<and> live a (GetOrNewStateObject a db)"
  proof (cases "peek db a")
    case None
    then have eq: "GetOrNewStateObject a db = snd (createObject a (load a db))"
      by (simp add: GetOrNewStateObject_def getStateObject_eq)
    have "journaled db (load a db)" "wf_db (load a db)"
      by (simp_all add: journaled_load assms)
    with journaled_createObject [of "load a db" a] show ?thesis
      unfolding eq by (auto intro: journaled_trans)
  next
    case (Some s)
    then have eq: "GetOrNewStateObject a db = load a db"
      using peek_not_deleted [OF Some] by (simp add: GetOrNewStateObject_def getStateObject_eq)
    with Some show ?thesis
      using live_load [OF Some] peek_not_deleted [OF Some]
      by (auto simp: journaled_load assms live_def)
  qed
  then show "journaled db (GetOrNewStateObject a db)" "live a (GetOrNewStateObject a db)"
    by simp_all
qed

lemma journaled_CreateAccount:
  assumes "wf_db db"
  shows "journaled db (CreateAccount a db)"
proof (cases "peek db a")
  case None
  then have "CreateAccount a db = snd (createObject a db)"
    by (simp add: CreateAccount_def createObject_eq)
  then show ?thesis
    by (simp add: journaled_createObject assms)
next
  case (Some prev)
  let ?d = "snd (createObject a db)"
  let ?b = "Balance (so_data prev)"
  have eq: "CreateAccount a db = set_balance F_Balance a ?b ?d"
    by (simp add: CreateAccount_def createObject_eq Some)
  have c: "codeDB ?d = codeDB db"
    by (simp add: createObject_eq same_restD [OF same_rest_push])
  have live: "stateObjects ?d a = Some (newObject a new_account False)"
    by (simp add: createObject_eq setStateObject_def)
  have "view (set_balance F_Balance a ?b ?d) = upd_view a (field_view F_Balance ?b) (view ?d)"
    unfolding set_balance_def
    by (rule view_write_tracks [OF live _ tracks_field]) simp
  also have "\<dots> = (view db)\<lparr>accounts := (accounts (view db))
      (a \<mapsto> field_view F_Balance ?b (obs (codeDB db) (newObject a new_account False)))\<rparr>"
    by (simp add: view_createObject upd_view_def)
  finally have v: "view (set_balance F_Balance a ?b ?d) = \<dots>" .
  note u = undo_create [OF assms refl v]
  have "journal (set_balance F_Balance a ?b ?d) = journal db @
      [case peek db a of None \<Rightarrow> createObjectChange a | Some p \<Rightarrow> resetObjectChange p]"
    by (simp add: set_balance_def journal_createObject)
  from journaled_one [OF wf_set_balance [OF wf_createObject [OF assms]] this u(2,1)] show ?thesis
    unfolding eq by (simp add: set_balance_def same_restD [OF same_rest_write] journal_createObject)
qed

lemma journaled_Suicide:
  assumes "wf_db db"
  shows "journaled db (snd (Suicide a db))"
proof (cases "peek db a")
  case None
  then show ?thesis
    by (simp add: Suicide_def getStateObject_eq journaled_load assms)
next
  case (Some s)
  let ?e = "suicideChange a (suicided s) (Balance (so_data s))"
  let ?d = "load a db"
  let ?w = "write_object a (\<lambda>obj. obj\<lparr>suicided := True\<rparr>) (push ?e ?d)"
  let ?r = "modify_object a (\<lambda>obj. obj\<lparr>so_data := so_data obj\<lparr>Balance := 0\<rparr>\<rparr>) ?w"
  have s: "stateObjects ?d a = Some s" "\<not> deleted s"
    by (simp_all add: live_load Some peek_not_deleted [OF Some])
  have eq: "snd (Suicide a db) = ?r"
    by (simp add: Suicide_def getStateObject_eq Some markSuicided_def)
  have t: "tracks (\<lambda>obj. obj\<lparr>so_data := so_data obj\<lparr>Balance := 0\<rparr>\<rparr>) (field_view F_Balance 0) cdb" for cdb
    using tracks_field [of F_Balance 0 cdb] by simp
  have "view ?w = upd_view a (\<lambda>av. av\<lparr>v_suicided := True\<rparr>) (view (push ?e ?d))"
    by (rule view_write_tracks [where s = s]) (simp_all add: s tracks_flags)
  moreover have "view ?r = upd_view a (field_view F_Balance 0) (view ?w)"
    by (rule view_modify_tracks [where s = "s\<lparr>suicided := True, onDirty := False\<rparr>"])
      (simp_all add: s t stateObjects_write)
  ultimately have v: "view ?r = upd_view a (\<lambda>av. field_view F_Balance 0 (av\<lparr>v_suicided := True\<rparr>)) (view db)"
    by simp
  have "upd_view a (\<lambda>av. field_view F_Balance (Balance (so_data s))
          ((field_view F_Balance 0 (av\<lparr>v_suicided := True\<rparr>))\<lparr>v_suicided := suicided s\<rparr>)) (view db)
        = upd_view a (\<lambda>av. av) (view db)"
    by (rule upd_view_cong)
      (use Some in \<open>auto simp: accounts_view field_view_def obs_def plain_data_def\<close>)
  then have "undo_view ?e (view ?r) = Some (view db)"
    unfolding v by simp
  then show ?thesis
    unfolding eq
    by (intro journaled_one [where e = ?e])
      (simp_all add: wf_write wf_push assms same_restD [OF same_rest_modify]
        same_restD [OF same_rest_write] same_restD [OF same_rest_push] same_restD [OF same_rest_load])
qed

subsection \<open>The public operations\<close>

lemma journaled_new:
  assumes "wf_db db" "\<And>d. wf_db d \<Longrightarrow> live a d \<Longrightarrow> journaled d (F d)"
  shows "journaled db (F (GetOrNewStateObject a db))"
proof (rule journaled_trans)
  show j: "journaled db (GetOrNewStateObject a db)"
    by (rule journaled_GetOrNew [OF assms(1)])
  show "journaled (GetOrNewStateObject a db) (F (GetOrNewStateObject a db))"
    by (rule assms(2) [OF journaled_wf [OF j] journaled_GetOrNew(2) [OF assms(1)]])
qed

lemma journaled_then:
  "journaled db d \<Longrightarrow> live a d \<Longrightarrow> (\<And>x. wf_db x \<Longrightarrow> live a x \<Longrightarrow> journaled x (F x)) \<Longrightarrow> journaled db (F d)"
  by (rule journaled_trans) (auto dest: journaled_wf)

lemma journaled_read_cached:
  assumes wf: "wf_db db"
    and f: "\<And>s. deleted (snd (f s)) = deleted s" "\<And>s. so_address (snd (f s)) = so_address s"
      "\<And>s. obs (codeDB db) (snd (f s)) = obs (codeDB db) s"
  shows "journaled db (snd (read_cached a f d db))"
proof (cases "peek db a")
  case None
  then show ?thesis
    by (simp add: read_cached_def getStateObject_eq journaled_load wf)
next
  case (Some s)
  have "journaled (load a db) (modify_object a (\<lambda>_. snd (f s)) (load a db))"
    by (rule journaled_modify_silent [where s = s])
      (simp_all add: wf live_load Some peek_not_deleted [OF Some] f)
  then have "journaled db (modify_object a (\<lambda>_. snd (f s)) (load a db))"
    by (rule journaled_trans [OF journaled_load [OF wf]])
  with Some show ?thesis
    by (cases "f s") (simp add: read_cached_def getStateObject_eq)
qed

lemma journaled_change_apb:
  assumes "wf_db db" "live a db"
  shows "journaled db (change_apb a u g db)" "live a (change_apb a u g db)"
proof -
  obtain s where s: "stateObjects db a = Some s" "\<not> deleted s"
    using assms(2) by (rule liveE)
  let ?d = "modify_object a (\<lambda>_. snd (so_GetAccountProxiedBalance u s)) db"
  have d: "journaled db ?d" "live a ?d"
    by (rule journaled_modify_silent [OF assms(1) s obs_cached_proxied(3,4,2)],
        rule modify_live(2) [OF s obs_cached_proxied(3)])
  have eq: "change_apb a u g db = so_SetAccountProxiedBalance a u
      (Some (g (case proxied_read s u of None \<Rightarrow> NewAccountProxiedBalance | Some b \<Rightarrow> b))) ?d"
    unfolding change_apb_def s(1) option.case by (subst obs_cached_proxied(1)) simp
  show "journaled db (change_apb a u g db)" "live a (change_apb a u g db)"
    unfolding eq using journaled_SetAccountProxied [OF journaled_wf [OF d(1)] d(2)]
    by (auto intro: journaled_trans [OF d(1)])
qed

lemma journaled_reward_entry:
  assumes "wf_db db" and s: "stateObjects db a = Some s" "\<not> deleted s"
  shows "journaled db (so_SetDelegateRewardBalance a k x
      (modify_object a (\<lambda>_. snd (so_GetDelegateRewardBalance k s)) db))" (is "journaled db ?r")
    and "live a (so_SetDelegateRewardBalance a k x
      (modify_object a (\<lambda>_. snd (so_GetDelegateRewardBalance k s)) db))"
proof -
  let ?d = "modify_object a (\<lambda>_. snd (so_GetDelegateRewardBalance k s)) db"
  have d: "journaled db ?d" "live a ?d"
    by (rule journaled_modify_silent [OF assms(1) s obs_cached_reward(3,4,2)],
        rule modify_live(2) [OF s obs_cached_reward(3)])
  show "journaled db ?r" "live a ?r"
    using journaled_SetDelegateReward [OF journaled_wf [OF d(1)] d(2)]
    by (auto intro: journaled_trans [OF d(1)])
qed

lemma journaled_AddReward:
  assumes "wf_db db"
  shows "journaled db (AddRewardBalanceByDelegateAddress a k x db)"
  unfolding AddRewardBalanceByDelegateAddress_def Let_def
proof (rule journaled_new [OF assms])
  fix d assume "wf_db d" "live a d"
  obtain s where s: "stateObjects d a = Some s" "\<not> deleted s"
    by (rule liveE [OF \<open>live a d\<close>])
  note r = journaled_reward_entry [OF \<open>wf_db d\<close> s, of k]
  show "journaled d (case stateObjects d a of None \<Rightarrow> d | Some obj \<Rightarrow>
      case so_GetDelegateRewardBalance k obj of (r, obj1) \<Rightarrow>
        so_AddRewardBalance a x (so_SetDelegateRewardBalance a k
          (Some (case r of None \<Rightarrow> x | Some b \<Rightarrow> b + x)) (modify_object a (\<lambda>_. obj1) d)))"
    unfolding s(1) option.case so_AddRewardBalance_def
    by (subst obs_cached_reward(1)) (auto intro!: journaled_then [OF r] journaled_Add_balance)
qed

lemma journaled_SubReward:
  assumes "wf_db db" "SubRewardBalanceByDelegateAddress a k x db = Some db'"
  shows "journaled db db'"
proof -
  let ?d = "GetOrNewStateObject a db"
  have d: "journaled db ?d" "live a ?d"
    by (simp_all add: journaled_GetOrNew assms(1))
  obtain s where s: "stateObjects ?d a = Some s" "\<not> deleted s"
    by (rule liveE [OF d(2)])
  note r = journaled_reward_entry [OF journaled_wf [OF d(1)] s, of k]
  obtain b where "db' = so_SubRewardBalance a x (so_SetDelegateRewardBalance a k (Some (b - x))
      (modify_object a (\<lambda>_. snd (so_GetDelegateRewardBalance k s)) ?d))"
    using assms(2) s(1)
    by (auto simp: SubRewardBalanceByDelegateAddress_def Let_def split: option.splits prod.splits)
  then have "journaled ?d db'"
    unfolding so_SubRewardBalance_def by (auto intro!: journaled_then [OF r] journaled_Sub_balance)
  with d(1) show ?thesis
    by (rule journaled_trans)
qed

lemma wf_rest:
  assumes "wf_db db" "stateObjects db' = stateObjects db" "trie db' = trie db"
    and "\<And>h. logs db' h \<noteq> Some []" "list_all entry_ok (journal db')"
  shows "wf_db db'"
  using assms by (simp add: wf_db_def objects_ok_def)

lemma journaled_AddLog: "wf_db db \<Longrightarrow> journaled db (AddLog l db)"
  by (rule journaled_one [where e = "addLogChange (thash db)"])
    (auto simp: AddLog_def Let_def push_def view_def peek_def fun_eq_iff wf_db_def objects_ok_def
      split: option.split cong: option.case_cong)

lemma journaled_AddPreimage: "wf_db db \<Longrightarrow> journaled db (AddPreimage h x db)"
  by (cases "preimages db h")
    (auto simp: AddPreimage_def push_def view_def peek_def fun_eq_iff wf_db_def objects_ok_def
      journaled_refl intro!: journaled_one [where e = "addPreimageChange h"] cong: option.case_cong)

lemma journaled_AddRefund: "wf_db db \<Longrightarrow> journaled db (AddRefund g db)"
  by (rule journaled_one [where e = "refundChange (sdb_refund db)"])
    (auto simp: AddRefund_def push_def view_def peek_def fun_eq_iff wf_db_def objects_ok_def
      cong: option.case_cong)

lemma journaled_SubRefund: "wf_db db \<Longrightarrow> SubRefund g db = Some db' \<Longrightarrow> journaled db db'"
  by (rule journaled_one [where e = "refundChange (sdb_refund db)"])
    (auto simp: SubRefund_def push_def view_def peek_def fun_eq_iff wf_db_def objects_ok_def
      split: if_splits cong: option.case_cong)

subsection \<open>Runs of the database\<close>

text \<open>
  The total operations of the database, reads included: a plain getter only fetches the
  object.
\<close>

inductive api_op :: "(statedb \<Rightarrow> statedb) \<Rightarrow> bool" where
  "api_op (AddBalance a x)"
| "api_op (SubBalance a x)"
| "api_op (SetBalance a x)"
| "api_op (AddDepositBalance a x)"
| "api_op (SubDepositBalance a x)"
| "api_op (SetDepositBalance a x)"
| "api_op (AddChainBalance a x)"
| "api_op (SubChainBalance a x)"
| "api_op (SetChainBalance a x)"
| "api_op (AddDelegateBalance a x)"
| "api_op (SubDelegateBalance a x)"
| "api_op (AddRewardBalance a x)"
| "api_op (SubRewardBalance a x)"
| "api_op (AddAvailableRewardBalance a x)"
| "api_op (SubAvailableRewardBalance a x)"
| "api_op (SetNonce a x)"
| "api_op (SetCommission a x)"
| "api_op (SetBanned a x)"
| "api_op (SetBannedTime a x)"
| "api_op (SetMinedBlocks a x)"
| "api_op (AddProxiedBalanceByUser a k x)"
| "api_op (SubProxiedBalanceByUser a k x)"
| "api_op (AddDepositProxiedBalanceByUser a k x)"
| "api_op (SubDepositProxiedBalanceByUser a k x)"
| "api_op (AddPendingRefundBalanceByUser a k x)"
| "api_op (SubPendingRefundBalanceByUser a k x)"
| "api_op (AddRewardBalanceByDelegateAddress a k x)"
| "api_op (SetState a k x)"
| "api_op (AddSideChainDepositBalance a k x)"
| "api_op (SubSideChainDepositBalance a k x)"
| "api_op (SetSideChainDepositBalance a k x)"
| "api_op (ApplyForCandidate a k x)"
| "api_op (CancelCandidate a b)"
| "api_op (ClearCommission a)"
| "api_op (SetCode keccak a x)"
| "api_op (CreateAccount a)"
| "api_op (AddLog l)"
| "api_op (AddPreimage h x)"
| "api_op (AddRefund g)"
| "api_op (Prepare h h2 i)"
| "api_op (MarkDelegateAddressRefund a)"
| "api_op (MarkAddressReward a)"
| "api_op (MarkAddressCandidate a)"
| "api_op (MarkAddressBanned a)"
| "api_op (ClearCandidateSetByAddress a)"
| "api_op (ClearBannedSetByAddress a)"
| "api_op (ClearRewardSetByAddress a)"
| "api_op (\<lambda>db. snd (getStateObject a db))"
| "api_op (\<lambda>db. snd (Suicide a db))"
| "api_op (\<lambda>db. snd (GetBanned a db))"
| "api_op (\<lambda>db. snd (GetBannedTime a db))"
| "api_op (\<lambda>db. snd (GetMinedBlocks a db))"
| "api_op (\<lambda>db. snd (GetCode a db))"
| "api_op (\<lambda>db. snd (GetState a k db))"
| "api_op (\<lambda>db. snd (GetCommittedState a k db))"
| "api_op (\<lambda>db. snd (HasTX1 a k db))"
| "api_op (\<lambda>db. snd (HasTX3 a k db))"
| "api_op (\<lambda>db. snd (GetProxiedBalanceByUser a k db))"
| "api_op (\<lambda>db. snd (GetDepositProxiedBalanceByUser a k db))"
| "api_op (\<lambda>db. snd (GetPendingRefundBalanceByUser a k db))"
| "api_op (\<lambda>db. snd (GetRewardBalanceByDelegateAddress a k db))"

text \<open>
  What can happen to a database between a snapshot and its revert.  Cross-chain marks are
  only added after the code has checked that they are absent; inner reverts go back to
  snapshots taken on the way.
\<close>

inductive evolves :: "statedb \<Rightarrow> statedb \<Rightarrow> bool" for base where
  start: "evolves base base"
| op: "evolves base db \<Longrightarrow> api_op f \<Longrightarrow> evolves base (f db)"
| tx1: "evolves base db \<Longrightarrow> \<not> fst (HasTX1 a h db) \<Longrightarrow> evolves base (AddTX1 a h db)"
| tx3: "evolves base db \<Longrightarrow> \<not> fst (HasTX3 a h db) \<Longrightarrow> evolves base (AddTX3 a h db)"
| sub_refund: "evolves base db \<Longrightarrow> SubRefund g db = Some db' \<Longrightarrow> evolves base db'"
| sub_reward: "evolves base db \<Longrightarrow> SubRewardBalanceByDelegateAddress a k x db = Some db' \<Longrightarrow>
    evolves base db'"
| snapshot: "evolves base db \<Longrightarrow> evolves base (snd (Snapshot db))"
| revert: "evolves base db \<Longrightarrow> nextRevisionId base \<le> rid \<Longrightarrow> RevertToSnapshot rid db = Some db' \<Longrightarrow>
    evolves base db'"

lemma journaled_sets:
  assumes "wf_db db" "stateObjects db' = stateObjects db" "same_rest db db'" "journal db' = journal db"
  shows "journaled db db'"
proof (rule journaled_silent)
  show "view db' = view db"
    using assms(2,3) by (intro view_eqI) (simp_all add: peek_def same_restD [OF assms(3)] cong: option.case_cong)
  show "wf_db db'"
    using assms by (auto simp: same_rest_def wf_db_def objects_ok_def)
qed (simp_all add: assms same_restD [OF assms(3)])

lemma journaled_getStateObject: "wf_db db \<Longrightarrow> journaled db (snd (getStateObject a db))"
  by (simp add: getStateObject_eq journaled_load)

lemma journaled_available:
  assumes "wf_db db"
  shows "journaled db (AddAvailableRewardBalance a x db)"
    "journaled db (SubAvailableRewardBalance a x db)"
proof -
  have "journaled db (load a db)" "wf_db (load a db)"
    by (simp_all add: journaled_load assms)
  moreover have "live a (load a db)" if "peek db a = Some s" for s
    using live_load [OF that] peek_not_deleted [OF that] by (simp add: live_def)
  ultimately show "journaled db (AddAvailableRewardBalance a x db)"
    "journaled db (SubAvailableRewardBalance a x db)"
    by (auto simp: AddAvailableRewardBalance_def SubAvailableRewardBalance_def getStateObject_eq
        so_AddAvailableRewardBalance_def so_SubAvailableRewardBalance_def
        intro: journaled_trans journaled_Add_balance journaled_Sub_balance split: option.split)
qed

lemma journaled_candidacy:
  assumes "wf_db db"
  shows "journaled db (ApplyForCandidate a k x db)" "journaled db (CancelCandidate a b db)"
proof -
  let ?d = "GetOrNewStateObject a db"
  have d: "journaled db ?d" "live a ?d"
    by (simp_all add: journaled_GetOrNew assms)
  have c: "journaled db (so_SetCandidate a y ?d)" "live a (so_SetCandidate a y ?d)" for y
    using journaled_SetCandidate [OF journaled_wf [OF d(1)] d(2)]
    by (auto intro: journaled_trans [OF d(1)])
  have m: "journaled db (so_SetCommission a z (so_SetCandidate a y ?d))"
      "live a (so_SetCommission a z (so_SetCandidate a y ?d))" for y z
    using journaled_SetCommission [OF journaled_wf [OF c(1)] c(2)]
    by (auto intro: journaled_trans [OF c(1)])
  have p: "journaled db (so_SetPubkey a z (so_SetCandidate a y ?d))"
      "live a (so_SetPubkey a z (so_SetCandidate a y ?d))" for y z
    using journaled_SetPubkey [OF journaled_wf [OF c(1)] c(2)]
    by (auto intro: journaled_trans [OF c(1)])
  show "journaled db (ApplyForCandidate a k x db)"
    unfolding ApplyForCandidate_def by (rule journaled_then [OF m]) (rule journaled_SetPubkey)
  show "journaled db (CancelCandidate a b db)"
    unfolding CancelCandidate_def Let_def
    by (auto intro: p journaled_then [OF p] journaled_SetCommission)
qed

lemma journaled_by_user:
  assumes "wf_db db" and so_add: "\<And>d. wf_db d \<Longrightarrow> live a d \<Longrightarrow> journaled d (so_add d)"
  shows "journaled db (so_add (change_apb a u g (GetOrNewStateObject a db)))"
proof -
  have d: "journaled db (GetOrNewStateObject a db)" "live a (GetOrNewStateObject a db)"
    by (simp_all add: journaled_GetOrNew assms)
  have "journaled db (change_apb a u g (GetOrNewStateObject a db))"
    "live a (change_apb a u g (GetOrNewStateObject a db))"
    using journaled_change_apb [OF journaled_wf [OF d(1)] d(2)] by (auto intro: journaled_trans [OF d(1)])
  from journaled_then [OF this so_add] show ?thesis .
qed

lemmas user_ops = AddProxiedBalanceByUser_def SubProxiedBalanceByUser_def
  AddDepositProxiedBalanceByUser_def SubDepositProxiedBalanceByUser_def
  AddPendingRefundBalanceByUser_def SubPendingRefundBalanceByUser_def

lemmas account_ops = AddBalance_def SubBalance_def SetBalance_def AddDepositBalance_def
  SubDepositBalance_def SetDepositBalance_def AddChainBalance_def SubChainBalance_def
  SetChainBalance_def AddDelegateBalance_def SubDelegateBalance_def AddRewardBalance_def
  SubRewardBalance_def SetNonce_def SetCommission_def SetBanned_def SetBannedTime_def
  SetMinedBlocks_def ClearCommission_def SetCode_def SetState_def
  AddSideChainDepositBalance_def SubSideChainDepositBalance_def SetSideChainDepositBalance_def

lemmas set_ops = MarkDelegateAddressRefund_def MarkAddressReward_def MarkAddressCandidate_def
  MarkAddressBanned_def ClearCandidateSetByAddress_def ClearBannedSetByAddress_def
  ClearRewardSetByAddress_def GetDelegateAddressRefundSet_def GetRewardSet_def GetCandidateSet_def
  GetBannedSet_def Prepare_def

lemmas cached_reads = GetState_def GetCommittedState_def HasTX1_def HasTX3_def
  GetProxiedBalanceByUser_def GetDepositProxiedBalanceByUser_def GetPendingRefundBalanceByUser_def
  GetRewardBalanceByDelegateAddress_def

lemma obs_cached_apb:
  "obs cdb (snd (apb_field g u s)) = obs cdb s" "deleted (snd (apb_field g u s)) = deleted s"
  "so_address (snd (apb_field g u s)) = so_address s"
  using obs_cached_proxied [where k = u and s = s] by (auto simp: apb_field_def split: prod.split)

lemma obs_cached_tx:
  "obs cdb (snd (so_HasTX1 h s)) = obs cdb s" "deleted (snd (so_HasTX1 h s)) = deleted s"
  "so_address (snd (so_HasTX1 h s)) = so_address s"
  "obs cdb (snd (so_HasTX3 h s)) = obs cdb s" "deleted (snd (so_HasTX3 h s)) = deleted s"
  "so_address (snd (so_HasTX3 h s)) = so_address s"
  by (auto simp: so_HasTX1_def so_HasTX3_def obs_simps split: option.split cong: option.case_cong)

lemmas journaled_setters = journaled_Set_balance(1) journaled_Add_balance(1) journaled_Sub_balance(1)
  journaled_SetNonce(1) journaled_SetCommission(1) journaled_SetBanned(1) journaled_SetBlockTime(1)
  journaled_SetBannedTime(1) journaled_SetCode(1) journaled_SetState(1) journaled_SetSide(1)
  journaled_AddSide

lemma journaled_account_op:
  assumes "wf_db db"
  shows "journaled db (AddBalance a x db)" "journaled db (SubBalance a x db)"
    "journaled db (SetBalance a x db)" "journaled db (AddDepositBalance a x db)"
    "journaled db (SubDepositBalance a x db)" "journaled db (SetDepositBalance a x db)"
    "journaled db (AddChainBalance a x db)" "journaled db (SubChainBalance a x db)"
    "journaled db (SetChainBalance a x db)" "journaled db (AddDelegateBalance a x db)"
    "journaled db (SubDelegateBalance a x db)" "journaled db (AddRewardBalance a x db)"
    "journaled db (SubRewardBalance a x db)" "journaled db (SetNonce a n db)"
    "journaled db (SetCommission a c db)" "journaled db (SetBanned a b db)"
    "journaled db (SetBannedTime a x db)" "journaled db (SetMinedBlocks a x db)"
    "journaled db (ClearCommission a db)" "journaled db (SetCode keccak a code db)"
    "journaled db (SetState a k h db)" "journaled db (AddSideChainDepositBalance a ch x db)"
    "journaled db (SubSideChainDepositBalance a ch x db)"
    "journaled db (SetSideChainDepositBalance a ch x db)"
  unfolding account_ops balance_methods
  by (rule journaled_new [OF assms], erule (1) journaled_setters)+

lemma journaled_user_op:
  assumes "wf_db db"
  shows "journaled db (AddProxiedBalanceByUser a u x db)" "journaled db (SubProxiedBalanceByUser a u x db)"
    "journaled db (AddDepositProxiedBalanceByUser a u x db)"
    "journaled db (SubDepositProxiedBalanceByUser a u x db)"
    "journaled db (AddPendingRefundBalanceByUser a u x db)"
    "journaled db (SubPendingRefundBalanceByUser a u x db)"
  unfolding user_ops balance_methods
  by (rule journaled_by_user [OF assms], erule (1) journaled_setters)+

lemma journaled_set_op:
  assumes "wf_db db"
  shows "journaled db (Prepare h1 h2 i db)" "journaled db (MarkDelegateAddressRefund a db)"
    "journaled db (MarkAddressReward a db)" "journaled db (MarkAddressCandidate a db)"
    "journaled db (MarkAddressBanned a db)" "journaled db (ClearCandidateSetByAddress a db)"
    "journaled db (ClearBannedSetByAddress a db)" "journaled db (ClearRewardSetByAddress a db)"
  by (rule journaled_sets [OF assms]; simp add: set_ops same_rest_def)+

lemmas obs_cached = obs_cached_state(2-4) obs_cached_committed(2-4) obs_cached_reward(2-4)
  obs_cached_tx obs_cached_apb obs_cached_code

lemma journaled_read:
  assumes "wf_db db"
  shows "journaled db (snd (GetState a k db))" "journaled db (snd (GetCommittedState a k db))"
    "journaled db (snd (HasTX1 a k db))" "journaled db (snd (HasTX3 a k db))"
    "journaled db (snd (GetProxiedBalanceByUser a k db))"
    "journaled db (snd (GetDepositProxiedBalanceByUser a k db))"
    "journaled db (snd (GetPendingRefundBalanceByUser a k db))"
    "journaled db (snd (GetRewardBalanceByDelegateAddress a k db))"
    "journaled db (snd (GetCode a db))"
  unfolding cached_reads GetCode_def
  by (rule journaled_read_cached [OF assms]; simp add: obs_cached code_read_eq split_beta Let_def)+

lemma journaled_read_or_new: "wf_db db \<Longrightarrow> journaled db (snd (read_or_new a f db))"
  by (simp add: read_or_new_def Let_def journaled_GetOrNew)

lemma journaled_api: "api_op f \<Longrightarrow> wf_db db \<Longrightarrow> journaled db (f db)"
  by (erule api_op.cases)
    (simp_all only: journaled_account_op journaled_user_op journaled_set_op journaled_read
      journaled_available journaled_candidacy journaled_AddReward journaled_CreateAccount
      journaled_AddLog journaled_AddPreimage journaled_AddRefund journaled_Suicide
      journaled_getStateObject journaled_read_or_new GetBanned_def GetBannedTime_def GetMinedBlocks_def)

lemma journaled_AddTX_checked:
  assumes "wf_db db"
  shows "\<not> fst (HasTX1 a h db) \<Longrightarrow> journaled db (AddTX1 a h db)"
    "\<not> fst (HasTX3 a h db) \<Longrightarrow> journaled db (AddTX3 a h db)"
proof -
  let ?d = "GetOrNewStateObject a db"
  have d: "journaled db ?d" "live a ?d"
    by (simp_all add: journaled_GetOrNew assms)
  obtain s where s: "stateObjects ?d a = Some s" "\<not> deleted s"
    by (rule liveE [OF d(2)])
  have none: "s = newObject a new_account False" if "peek db a = None"
    using s that by (simp add: GetOrNewStateObject_def getStateObject_eq createObject_eq setStateObject_def)
  have some: "s = s'" if "peek db a = Some s'" for s'
    using s that peek_not_deleted [OF that] live_load [OF that]
    by (simp add: GetOrNewStateObject_def getStateObject_eq)
  have "h \<notin> dirtyTX1 s" if "\<not> fst (HasTX1 a h db)"
    using that none some
    by (cases "peek db a")
      (auto simp: HasTX1_def read_cached_def getStateObject_eq so_HasTX1_def newObject_def split: prod.splits)
  then show "\<not> fst (HasTX1 a h db) \<Longrightarrow> journaled db (AddTX1 a h db)"
    unfolding AddTX1_def by (auto intro: journaled_trans [OF d(1)] journaled_AddTX [OF journaled_wf [OF d(1)] s])
  have "h \<notin> dirtyTX3 s" if "\<not> fst (HasTX3 a h db)"
    using that none some
    by (cases "peek db a")
      (auto simp: HasTX3_def read_cached_def getStateObject_eq so_HasTX3_def newObject_def split: prod.splits)
  then show "\<not> fst (HasTX3 a h db) \<Longrightarrow> journaled db (AddTX3 a h db)"
    unfolding AddTX3_def by (auto intro: journaled_trans [OF d(1)] journaled_AddTX [OF journaled_wf [OF d(1)] s])
qed

subsection \<open>Finding a revision\<close>

text \<open>On a predicate that stays true once true, \<open>sort.Search\<close> finds the first index.\<close>

definition upward :: "(nat \<Rightarrow> bool) \<Rightarrow> nat \<Rightarrow> bool" where
  "upward f j \<longleftrightarrow> (\<forall>m n. f m \<longrightarrow> m \<le> n \<longrightarrow> n < j \<longrightarrow> f n)"

definition first_true :: "(nat \<Rightarrow> bool) \<Rightarrow> nat \<Rightarrow> nat \<Rightarrow> nat \<Rightarrow> bool" where
  "first_true f i j r \<longleftrightarrow> i \<le> r \<and> r \<le> j \<and> (\<forall>k. i \<le> k \<longrightarrow> k < r \<longrightarrow> \<not> f k) \<and> (r < j \<longrightarrow> f r)"

lemma first_true_upper:
  assumes r: "first_true f (h + 1) j r" and up: "upward f j" and h: "\<not> f h" "h < j" "i \<le> h"
  shows "first_true f i j r"
proof -
  have "\<not> f k" if "k < r" for k
  proof (cases "k \<le> h")
    case True
    then show ?thesis using up h by (auto simp: upward_def)
  next
    case False
    then show ?thesis using r that by (simp add: first_true_def)
  qed
  with r h(3) show ?thesis by (simp add: first_true_def)
qed

lemma first_true_lower:
  assumes "first_true f i h r" "f h" "h < j"
  shows "first_true f i j r"
proof -
  have "f r"
    using assms by (cases "r = h") (auto simp: first_true_def)
  with assms show ?thesis by (simp add: first_true_def)
qed

lemma sort_search_steps:
  "\<not> i < j \<Longrightarrow> sort_search f i j = i"
  "i < j \<Longrightarrow> \<not> f ((i + j) div 2) \<Longrightarrow> sort_search f i j = sort_search f ((i + j) div 2 + 1) j"
  "i < j \<Longrightarrow> f ((i + j) div 2) \<Longrightarrow> sort_search f i j = sort_search f i ((i + j) div 2)"
  by (subst sort_search.simps, simp add: Let_def)+

lemma sort_search_least: "upward f j \<Longrightarrow> i \<le> j \<Longrightarrow> first_true f i j (sort_search f i j)"
proof (induction f i j rule: sort_search.induct)
  case (1 f i j)
  let ?h = "(i + j) div 2"
  show ?case
  proof (cases "i < j")
    case False
    with 1(4) show ?thesis by (simp add: sort_search_steps(1) first_true_def)
  next
    case True
    then have h: "i \<le> ?h" "?h < j" by simp_all
    show ?thesis
    proof (cases "f ?h")
      case False
      have "first_true f (?h + 1) j (sort_search f (?h + 1) j)"
        by (rule 1(1) [OF True refl False 1(3)]) (use h in simp)
      then show ?thesis
        unfolding sort_search_steps(2) [of i j f, OF True False]
        by (rule first_true_upper [OF _ 1(3) False h(2,1)])
    next
      case fh: True
      have up: "upward f ?h"
        using 1(3) h(2) unfolding upward_def by (meson less_trans)
      have "first_true f i ?h (sort_search f i ?h)"
        by (rule 1(2) [OF True refl _ up h(1)]) (use fh in simp)
      then show ?thesis
        unfolding sort_search_steps(3) [of i j f, OF True fh]
        by (rule first_true_lower [where f = f, OF _ fh h(2)])
    qed
  qed
qed

definition revs_ok :: "statedb \<Rightarrow> bool" where
  "revs_ok db \<longleftrightarrow>
     sorted_wrt (\<lambda>x y. fst x < fst y \<and> snd x \<le> snd y) (validRevisions db) \<and>
     (\<forall>(i, j) \<in> set (validRevisions db). i < nextRevisionId db \<and> j \<le> length (journal db))"

lemma search_revision:
  fixes rs :: "(int \<times> nat) list"
  assumes "sorted_wrt (\<lambda>x y. fst x < fst y \<and> snd x \<le> snd y) rs" "k < length rs"
  shows "sort_search (\<lambda>i. fst (rs ! i) \<ge> fst (rs ! k)) 0 (length rs) = k"
proof -
  let ?f = "\<lambda>i. fst (rs ! i) \<ge> fst (rs ! k)"
  let ?r = "sort_search ?f 0 (length rs)"
  have lt: "fst (rs ! m) < fst (rs ! n)" if "m < n" "n < length rs" for m n
    using assms(1) that by (auto simp: sorted_wrt_iff_nth_less)
  have "upward ?f (length rs)"
    unfolding upward_def
  proof (intro allI impI)
    fix m n assume "?f m" "m \<le> n" "n < length rs"
    then show "?f n" using lt [of m n] by (cases "m = n") auto
  qed
  then have r: "?r \<le> length rs" "\<forall>i. i < ?r \<longrightarrow> \<not> ?f i" "?r < length rs \<longrightarrow> ?f ?r"
    using sort_search_least [of ?f "length rs" 0] by (simp_all add: first_true_def)
  have "\<not> k < ?r"
    using r(2) by auto
  then have "?r < length rs"
    using assms(2) by simp
  then have "?f ?r"
    using r(3) by blast
  then have "\<not> ?r < k"
    using lt [of ?r k] assms(2) by auto
  with \<open>\<not> k < ?r\<close> show ?thesis by simp
qed

lemma RevertToSnapshot_at:
  assumes "revs_ok db" "k < length (validRevisions db)" "validRevisions db ! k = (rid, j)"
  shows "RevertToSnapshot rid db =
    (case undo_seq undo (drop j (journal db)) db of None \<Rightarrow> None
     | Some db1 \<Rightarrow> Some (db1\<lparr>journal := take j (journal db1),
                            validRevisions := take k (validRevisions db1)\<rparr>))"
proof -
  have "sort_search (\<lambda>i. rid \<le> fst (validRevisions db ! i)) 0 (length (validRevisions db)) = k"
    using search_revision [of "validRevisions db" k] assms by (simp add: revs_ok_def)
  then show ?thesis
    using assms by (simp add: RevertToSnapshot_def Let_def undo_all_eq cong: option.case_cong)
qed

lemma RevertToSnapshot_Some:
  assumes "revs_ok db" "RevertToSnapshot rid db = Some db'"
  obtains k j db1 where "k < length (validRevisions db)" "validRevisions db ! k = (rid, j)"
    "undo_seq undo (drop j (journal db)) db = Some db1"
    "db' = db1\<lparr>journal := take j (journal db1), validRevisions := take k (validRevisions db1)\<rparr>"
proof -
  let ?n = "length (validRevisions db)"
  let ?k = "sort_search (\<lambda>i. rid \<le> fst (validRevisions db ! i)) 0 ?n"
  have found: "?k \<noteq> ?n" "fst (validRevisions db ! ?k) = rid"
    using assms(2) by (auto simp: RevertToSnapshot_def Let_def split: if_splits)
  have lt: "fst (validRevisions db ! m) < fst (validRevisions db ! n)" if "m < n" "n < ?n" for m n
    using assms(1) that by (auto simp: revs_ok_def sorted_wrt_iff_nth_less)
  have "upward (\<lambda>i. rid \<le> fst (validRevisions db ! i)) ?n"
    unfolding upward_def
  proof (intro allI impI)
    fix m n assume "rid \<le> fst (validRevisions db ! m)" "m \<le> n" "n < ?n"
    then show "rid \<le> fst (validRevisions db ! n)" using lt [of m n] by (cases "m = n") auto
  qed
  from sort_search_least [OF this, of 0] have "?k \<le> ?n"
    by (simp add: first_true_def)
  then have k: "?k < ?n" using found(1) by simp
  obtain j where j: "validRevisions db ! ?k = (rid, j)"
    using found(2) by (cases "validRevisions db ! ?k") simp
  from assms(2) RevertToSnapshot_at [OF assms(1) k j] show ?thesis
    by (auto split: option.splits intro: that [OF k j])
qed

lemma on_object_rest:
  "(\<And>d. same_rest d (F d)) \<Longrightarrow> on_object a F db = Some db' \<Longrightarrow> same_rest db db'"
  by (auto simp: on_object_def getStateObject_eq split: option.splits
      intro: same_rest_trans [OF same_rest_load])

lemma undo_revisions:
  "undo e db = Some db' \<Longrightarrow> validRevisions db' = validRevisions db \<and> nextRevisionId db' = nextRevisionId db"
  by (cases e)
    (auto simp: setters getStateObject_eq Let_def same_restD [OF same_rest_write]
      same_restD [OF same_rest_modify] same_restD [OF same_rest_load] on_object_def
      split: option.splits if_splits)

lemma undo_seq_revisions:
  "undo_seq undo es db = Some db' \<Longrightarrow>
   validRevisions db' = validRevisions db \<and> nextRevisionId db' = nextRevisionId db"
proof (induction es arbitrary: db')
  case (Cons e es)
  then obtain d where "undo_seq undo es db = Some d" "undo e d = Some db'"
    by (auto split: option.splits)
  with Cons.IH undo_revisions [of e d db'] show ?case
    by simp
qed simp

text \<open>
  What the journal does not record: the four address sets of the state, the reward per block of a side
  chain and the position of the current transaction.  No \<open>undo\<close> touches them.
\<close>

definition unjournaled ::
  "statedb \<Rightarrow> (address set \<times> address set \<times> address set \<times> address set) \<times> int option \<times> hash \<times> hash \<times> int" where
  "unjournaled db =
     ((delegateRefundSet db, rewardSet db, candidateSet db, bannedSet db), sideChainRewardPerBlock db,
      thash db, bhash db, txIndex db)"

lemma unjournaled_simps [simp]:
  "unjournaled (load a db) = unjournaled db" "unjournaled (write_object a f db) = unjournaled db"
  "unjournaled (modify_object a f db) = unjournaled db"
  "unjournaled (db\<lparr>stateObjects := x\<rparr>) = unjournaled db"
  "unjournaled (db\<lparr>stateObjectsDirty := y\<rparr>) = unjournaled db"
  "unjournaled (db\<lparr>sdb_refund := z\<rparr>) = unjournaled db" "unjournaled (db\<lparr>logs := l\<rparr>) = unjournaled db"
  "unjournaled (db\<lparr>logSize := n\<rparr>) = unjournaled db" "unjournaled (db\<lparr>preimages := p\<rparr>) = unjournaled db"
  by (rule load_cases [of a db])
    (simp_all add: unjournaled_def write_object_def modify_object_def MarkStateObjectDirty_def Let_def
      split: option.split)

lemma undo_unjournaled: "undo e db = Some db' \<Longrightarrow> unjournaled db' = unjournaled db"
  by (cases e)
    (auto simp: setters setStateObject_def getStateObject_eq Let_def on_object_def
      split: option.splits if_splits)

lemma undo_seq_unjournaled: "undo_seq undo es db = Some db' \<Longrightarrow> unjournaled db' = unjournaled db"
proof (induction es arbitrary: db')
  case (Cons e es)
  then obtain d where "undo_seq undo es db = Some d" "undo e d = Some db'"
    by (auto split: option.splits)
  with Cons.IH undo_unjournaled [of e d db'] show ?case by simp
qed simp

subsection \<open>Reverting to a snapshot\<close>

text \<open>The entries and the revisions added since the base lead back to its view.\<close>

definition undoable_to :: "statedb \<Rightarrow> statedb \<Rightarrow> bool" where
  "undoable_to base db \<longleftrightarrow> (\<exists>es. journal db = journal base @ es \<and> list_all entry_ok es \<and>
     undo_seq undo_view es (view db) = Some (view base))"

definition revisions_since :: "statedb \<Rightarrow> statedb \<Rightarrow> bool" where
  "revisions_since base db \<longleftrightarrow> nextRevisionId base \<le> nextRevisionId db \<and>
     (\<exists>rs. validRevisions db = validRevisions base @ rs \<and>
       (\<forall>(i, j) \<in> set rs. nextRevisionId base \<le> i \<and> length (journal base) \<le> j))"

lemma undoable_journaled: "undoable_to base db \<Longrightarrow> journaled db db' \<Longrightarrow> undoable_to base db'"
proof -
  assume "undoable_to base db" "journaled db db'"
  then obtain es fs where
      es: "journal db = journal base @ es" "list_all entry_ok es"
        "undo_seq undo_view es (view db) = Some (view base)"
    and fs: "journal db' = journal db @ fs" "list_all entry_ok fs"
        "undo_seq undo_view fs (view db') = Some (view db)"
    by (auto simp: undoable_to_def journaled_def)
  then have "undo_seq undo_view (es @ fs) (view db') = Some (view base)"
    by (simp add: undo_seq_append)
  with es(1,2) fs(1,2) show ?thesis
    by (auto simp: undoable_to_def)
qed

lemma revs_ok_journaled: "revs_ok db \<Longrightarrow> journaled db db' \<Longrightarrow> revs_ok db'"
  by (auto simp: revs_ok_def journaled_def)

lemma since_journaled: "revisions_since base db \<Longrightarrow> journaled db db' \<Longrightarrow> revisions_since base db'"
  by (simp add: revisions_since_def journaled_def)

definition held :: "statedb \<Rightarrow> statedb \<Rightarrow> bool" where
  "held base db \<longleftrightarrow> wf_db db \<and> revs_ok db \<and> undoable_to base db \<and> revisions_since base db"

lemma held_journaled: "held base db \<Longrightarrow> journaled db db' \<Longrightarrow> held base db'"
  unfolding held_def by (blast intro: journaled_wf revs_ok_journaled undoable_journaled since_journaled)

lemma Snapshot_simps [simp]:
  "view (snd (Snapshot db)) = view db" "wf_db (snd (Snapshot db)) = wf_db db"
  "journal (snd (Snapshot db)) = journal db"
  "nextRevisionId (snd (Snapshot db)) = nextRevisionId db + 1"
  "validRevisions (snd (Snapshot db)) = validRevisions db @ [(nextRevisionId db, length (journal db))]"
  "fst (Snapshot db) = nextRevisionId db"
  by (simp_all add: Snapshot_def Let_def view_def peek_def wf_db_def objects_ok_def fun_eq_iff
      cong: option.case_cong)

lemma revs_ok_Snapshot: "revs_ok db \<Longrightarrow> revs_ok (snd (Snapshot db))"
  by (fastforce simp: revs_ok_def sorted_wrt_append)

lemma held_Snapshot: "held base db \<Longrightarrow> held base (snd (Snapshot db))"
  by (fastforce simp: held_def revs_ok_Snapshot undoable_to_def revisions_since_def)

lemma undoable_split:
  assumes "undoable_to base db" "length (journal base) \<le> j" "wf_db db"
    and u: "undo_seq undo (drop j (journal db)) db = Some db1"
  shows "undoable_to base (db1\<lparr>journal := take j (journal db1), validRevisions := rs\<rparr>)"
    and "wf_db (db1\<lparr>journal := take j (journal db1), validRevisions := rs\<rparr>)"
proof -
  obtain es where es: "journal db = journal base @ es" "list_all entry_ok es"
      "undo_seq undo_view es (view db) = Some (view base)"
    using assms(1) by (auto simp: undoable_to_def)
  let ?n = "j - length (journal base)"
  have d: "drop j (journal db) = drop ?n es" "take j (journal db) = journal base @ take ?n es"
    using assms(2) by (simp_all add: es(1))
  have ok: "list_all entry_ok (take ?n es)" "list_all entry_ok (drop ?n es)"
    using es(2) by (metis append_take_drop_id list_all_append)+
  have j1: "journal db1 = journal db"
    by (rule jlog.undo_seq_entries [OF u])
  have "map_option view (undo_seq undo (drop ?n es) db) = undo_seq undo_view (drop ?n es) (view db)"
    by (rule jlog.undo_seq_refines [OF ok(2)])
  then have "undo_seq undo_view (drop ?n es) (view db) = Some (view db1)"
    using u by (simp add: d(1))
  moreover have "undo_seq undo_view (take ?n es @ drop ?n es) (view db) = Some (view base)"
    using es(3) by simp
  ultimately have "undo_seq undo_view (take ?n es) (view db1) = Some (view base)"
    unfolding undo_seq_append by simp
  moreover have "view (db1\<lparr>journal := x, validRevisions := rs\<rparr>) = view db1" for x
    by (simp add: view_def peek_def fun_eq_iff cong: option.case_cong)
  ultimately show "undoable_to base (db1\<lparr>journal := take j (journal db1), validRevisions := rs\<rparr>)"
    using ok(1) by (auto simp: undoable_to_def j1 d(2))
  have "wf_db db1"
    by (rule jlog.undo_seq_inv [OF ok(2) assms(3)]) (use u in \<open>simp add: d(1)\<close>)
  then show "wf_db (db1\<lparr>journal := take j (journal db1), validRevisions := rs\<rparr>)"
    by (auto simp: wf_db_def objects_ok_def list_all_iff dest: in_set_takeD)
qed

lemma since_index:
  assumes "revisions_since base db" "revs_ok base"
    and k: "k < length (validRevisions db)" "validRevisions db ! k = (rid, j)"
    and "nextRevisionId base \<le> rid"
  shows "length (validRevisions base) \<le> k" "length (journal base) \<le> j"
proof -
  obtain rs where rs: "validRevisions db = validRevisions base @ rs"
      "\<forall>(i, j) \<in> set rs. nextRevisionId base \<le> i \<and> length (journal base) \<le> j"
    using assms(1) by (auto simp: revisions_since_def)
  show le: "length (validRevisions base) \<le> k"
  proof (rule ccontr)
    assume "\<not> ?thesis"
    then have "k < length (validRevisions base)" "validRevisions base ! k = (rid, j)"
      using k by (simp_all add: rs(1) nth_append)
    then have "(rid, j) \<in> set (validRevisions base)"
      using nth_mem by metis
    then show False
      using assms(2,5) by (auto simp: revs_ok_def)
  qed
  then have "k - length (validRevisions base) < length rs"
      "rs ! (k - length (validRevisions base)) = (rid, j)"
    using k by (auto simp: rs(1) nth_append)
  then have "(rid, j) \<in> set rs"
    using nth_mem by metis
  with rs(2) show "length (journal base) \<le> j" by auto
qed

lemma revs_ok_take:
  assumes "revs_ok db" "k < length (validRevisions db)" "validRevisions db ! k = (rid, j)"
    and db': "journal db' = take j (journal db)" "validRevisions db' = take k (validRevisions db)"
      "nextRevisionId db' = nextRevisionId db"
  shows "revs_ok db'"
proof -
  have sorted: "sorted_wrt (\<lambda>x y. fst x < fst y \<and> snd x \<le> snd y) (validRevisions db)"
    and b: "\<forall>(i, j) \<in> set (validRevisions db). i < nextRevisionId db \<and> j \<le> length (journal db)"
    using assms(1) by (simp_all add: revs_ok_def)
  have "snd x \<le> j" if x: "x \<in> set (take k (validRevisions db))" for x
  proof -
    obtain m where "m < k" "x = validRevisions db ! m"
      using x assms(2) by (auto simp: in_set_conv_nth)
    with sorted assms(2,3) show ?thesis
      unfolding sorted_wrt_iff_nth_less by (metis snd_conv)
  qed
  moreover have "j \<le> length (journal db)"
    using b assms(2,3) by (metis (no_types, lifting) case_prodD nth_mem)
  moreover have "fst x < nextRevisionId db" if "x \<in> set (take k (validRevisions db))" for x
    using b in_set_takeD [OF that] by auto
  ultimately show ?thesis
    using sorted_wrt_take [OF sorted, of k] by (auto simp: revs_ok_def db' min_absorb2)
qed

lemma held_revert:
  assumes "held base db" "revs_ok base" "nextRevisionId base \<le> rid"
    and "RevertToSnapshot rid db = Some db'"
  shows "held base db'"
proof -
  have h: "wf_db db" "revs_ok db" "undoable_to base db" "revisions_since base db"
    using assms(1) by (simp_all add: held_def)
  obtain k j db1 where k: "k < length (validRevisions db)" "validRevisions db ! k = (rid, j)"
    and u: "undo_seq undo (drop j (journal db)) db = Some db1"
    and db': "db' = db1\<lparr>journal := take j (journal db1), validRevisions := take k (validRevisions db1)\<rparr>"
    by (rule RevertToSnapshot_Some [OF h(2) assms(4)])
  have i: "length (validRevisions base) \<le> k" "length (journal base) \<le> j"
    using since_index [OF h(4) assms(2) k assms(3)] by simp_all
  have r: "journal db1 = journal db" "validRevisions db1 = validRevisions db"
      "nextRevisionId db1 = nextRevisionId db"
    using jlog.undo_seq_entries [OF u] undo_seq_revisions [OF u] by simp_all
  have "undoable_to base db'" "wf_db db'"
    unfolding db' by (rule undoable_split [OF h(3) i(2) h(1) u])+
  moreover have "revs_ok db'"
    by (rule revs_ok_take [OF h(2) k]) (simp_all add: db' r)
  moreover have "revisions_since base db'"
    using h(4) i(1) by (fastforce simp: revisions_since_def db' r dest: in_set_takeD)
  ultimately show ?thesis
    by (simp add: held_def)
qed

lemma evolves_held: "evolves base db \<Longrightarrow> wf_db base \<Longrightarrow> revs_ok base \<Longrightarrow> held base db"
proof (induction rule: evolves.induct)
  case start
  then show ?case
    by (simp add: held_def undoable_to_def revisions_since_def)
next
  case (op db f)
  then show ?case
    by (meson held_def held_journaled journaled_api)
next
  case (tx1 db a h)
  then show ?case
    by (meson held_def held_journaled journaled_AddTX_checked(1))
next
  case (tx3 db a h)
  then show ?case
    by (meson held_def held_journaled journaled_AddTX_checked(2))
next
  case (sub_refund db g db')
  then show ?case
    by (meson held_def held_journaled journaled_SubRefund)
next
  case (sub_reward db a k x db')
  then show ?case
    by (meson held_def held_journaled journaled_SubReward)
next
  case (snapshot db)
  then show ?case
    by (simp add: held_Snapshot)
next
  case (revert db rid db')
  then show ?case
    by (blast intro: held_revert)
qed


lemma wf_NewStateDB [simp]: "wf_db (NewStateDB t)" "revs_ok (NewStateDB t)"
  by (simp_all add: NewStateDB_def wf_db_def objects_ok_def revs_ok_def)

definition sample_account :: account where
  "sample_account = new_account\<lparr>Balance := 100, ProxiedRoot := Some []\<rparr>"

definition sample_trie :: state_trie where
  "sample_trie = \<lparr>st_codeDB = Map.empty, st_trie = [[1] \<mapsto> sample_account], st_refundSet = {},
     st_rewardSet = {}, st_candidateSet = {}, st_bannedSet = {}, st_rewardPerBlock = None\<rparr>"


end
