(* ===== verification/StateFinal.thy ===== *)
theory StateFinal
  imports StateSnapshots
begin

section \<open>Finalising\<close>

text \<open>
  What \<open>Finalise\<close> writes to the tries is what could be read before it, for every account
  that survives a run without reverts; a revert after which it panics; and when the marks of
  cross-chain transactions survive a flush.
\<close>

subsection \<open>Coherent caches\<close>

text \<open>An absent delegator entry reads as three zeros, an absent reward as zero.\<close>

definition apb_or_zero :: "accountProxiedBalance option \<Rightarrow> accountProxiedBalance" where
  "apb_or_zero v = (case v of None \<Rightarrow> NewAccountProxiedBalance | Some b \<Rightarrow> b)"

definition reward_or_zero :: "int option \<Rightarrow> int" where
  "reward_or_zero v = (case v of None \<Rightarrow> 0 | Some x \<Rightarrow> x)"

lemma or_zero_Some [simp]: "apb_or_zero (Some b) = b" "reward_or_zero (Some x) = x"
  by (simp_all add: apb_or_zero_def reward_or_zero_def)

definition storage_coherent :: "state_object \<Rightarrow> bool" where
  "storage_coherent s \<longleftrightarrow> dom (dirtyStorage s) \<subseteq> dom (originStorage s) \<and>
     (\<forall>k v. originStorage s k = Some v \<longrightarrow>
        v = (case Root (so_data s) k of Some w \<Rightarrow> w | None \<Rightarrow> zero_hash))"

definition proxied_coherent :: "state_object \<Rightarrow> bool" where
  "proxied_coherent s \<longleftrightarrow> distinct (map fst (dirtyProxied s)) \<and> None \<notin> snd ` set (dirtyProxied s) \<and>
     (\<forall>k v. map_of (originProxied s) k = Some v \<longrightarrow>
        apb_or_zero v = apb_or_zero (map_of (proxiedTrie s) k))"

definition reward_coherent :: "state_object \<Rightarrow> bool" where
  "reward_coherent s \<longleftrightarrow> distinct (map fst (dirtyReward s)) \<and>
     (\<forall>k v. map_of (originReward s) k = Some v \<longrightarrow>
        reward_or_zero v = reward_or_zero (map_of (RewardRoot (so_data s)) k))"

definition coherent :: "state_object \<Rightarrow> bool" where
  "coherent s \<longleftrightarrow> storage_coherent s \<and> proxied_coherent s \<and> reward_coherent s"

text \<open>The dirty entries that the encoder accepts.\<close>

definition storable :: "state_object \<Rightarrow> bool" where
  "storable s \<longleftrightarrow> (\<forall>(k, v) \<in> set (dirtyProxied s). \<exists>b. v = Some b \<and> apb_encodes b) \<and>
     (\<forall>(k, v) \<in> set (dirtyReward s). \<exists>x. v = Some x \<and> 0 \<le> x)"

subsection \<open>Flushing\<close>

lemma state_read_updateTrie:
  assumes "storage_coherent s"
  shows "(case Root (so_data (updateTrie s)) k of Some v \<Rightarrow> v | None \<Rightarrow> zero_hash) = state_read s k"
proof (cases "dirtyStorage s k")
  case None
  then show ?thesis
    using assms
    by (cases "originStorage s k")
      (auto simp: updateTrie_def Let_def state_read_def committed_read_def storage_coherent_def)
next
  case (Some v)
  then obtain w where w: "originStorage s k = Some w"
    using assms by (force simp: storage_coherent_def dom_def)
  then have "w = (case Root (so_data s) k of Some w \<Rightarrow> w | None \<Rightarrow> zero_hash)"
    using assms by (simp add: storage_coherent_def)
  with Some w show ?thesis
    by (cases "Root (so_data s) k")
      (auto simp: updateTrie_def Let_def state_read_def)
qed

lemma apb_eqI:
  "apb_Equal (Some b) (Some c) = Some True \<Longrightarrow> b = c"
  by (simp add: apb_Equal_def)

lemma apb_empty_zero: "apb_IsEmpty (Some b) = Some True \<longleftrightarrow> b = NewAccountProxiedBalance"
  by (auto simp: apb_IsEmpty_def NewAccountProxiedBalance_def intro!: accountProxiedBalance.equality)

definition origin_of :: "(address \<times> 'a option) list \<Rightarrow> address \<Rightarrow> 'a option" where
  "origin_of origin k = (case map_of origin k of Some v \<Rightarrow> v | None \<Rightarrow> None)"

text \<open>The cached originals read as the trie does.\<close>

definition agree :: "('v option \<Rightarrow> 'n) \<Rightarrow> (address \<times> 'v option) list \<Rightarrow> (address \<times> 'v) list \<Rightarrow> bool" where
  "agree n origin tr \<longleftrightarrow> (\<forall>k v. map_of origin k = Some v \<longrightarrow> n v = n (map_of tr k))"

lemma agreeD: "agree n origin tr \<Longrightarrow> map_of origin k = Some v \<Longrightarrow> n v = n (map_of tr k)"
  by (simp add: agree_def)

lemma agree_update:
  assumes "agree n origin tr" "n (map_of tr' key) = n v" "\<forall>k. k \<noteq> key \<longrightarrow> map_of tr' k = map_of tr k"
  shows "agree n (AList.update key v origin) tr'"
  using assms by (auto simp: agree_def update_conv)

text \<open>One dirty delegator entry: afterwards the trie holds its value, other keys are untouched.\<close>

lemma flush_proxied_step:
  assumes "apb_encodes b"
    and coh: "agree apb_or_zero origin tr"
  obtains origin' tr' where "flush_proxied (key, Some b) (origin, tr) = Some (origin', tr')"
    "apb_or_zero (map_of tr' key) = b"
    "\<forall>k. k \<noteq> key \<longrightarrow> map_of tr' k = map_of tr k"
    "agree apb_or_zero origin' tr'"
proof (cases "apb_Equal (Some b) (origin_of origin key) = Some True")
  case True
  then obtain c where c: "origin_of origin key = Some c" "b = c"
    by (cases "origin_of origin key") (auto simp: apb_Equal_def dest: apb_eqI)
  have "flush_proxied (key, Some b) (origin, tr) = Some (origin, tr)"
    using True by (simp add: flush_proxied_def origin_of_def)
  moreover have "map_of origin key = Some (Some c)"
    using c(1) by (simp add: origin_of_def split: option.splits)
  then have "apb_or_zero (map_of tr key) = b"
    using agreeD [OF coh, of key "Some c"] c(2) by (simp add: apb_or_zero_def)
  ultimately show ?thesis
    using coh by (intro that) simp_all
next
  case False
  then have ne: "apb_Equal (Some b) (origin_of origin key) = Some False"
    by (cases "origin_of origin key") (auto simp: apb_Equal_def)
  let ?tr = "if b = NewAccountProxiedBalance then AList.delete key tr else AList.update key b tr"
  have "flush_proxied (key, Some b) (origin, tr) = Some (AList.update key (Some b) origin, ?tr)"
    using ne assms(1) by (simp add: flush_proxied_def origin_of_def apb_empty_zero)
  moreover have "apb_or_zero (map_of ?tr key) = b" and "\<forall>k. k \<noteq> key \<longrightarrow> map_of ?tr k = map_of tr k"
    by (simp_all add: apb_or_zero_def update_conv delete_conv)
  moreover from this have "agree apb_or_zero (AList.update key (Some b) origin) ?tr"
    by (intro agree_update [OF coh]) (simp_all add: apb_or_zero_def)
  ultimately show ?thesis
    by (rule that)
qed

lemma flush_proxied_all:
  assumes "distinct (map fst ds)" "\<forall>(k, v) \<in> set ds. \<exists>b. v = Some b \<and> apb_encodes b"
    and "agree apb_or_zero origin tr"
  shows "\<exists>origin' tr'. fold_opt flush_proxied ds (origin, tr) = Some (origin', tr') \<and>
    (\<forall>k. apb_or_zero (map_of tr' k) =
       (case map_of ds k of Some v \<Rightarrow> apb_or_zero v | None \<Rightarrow> apb_or_zero (map_of tr k)))"
  using assms
proof (induction ds arbitrary: origin tr)
  case (Cons d ds)
  obtain key b where d: "d = (key, Some b)" "apb_encodes b"
    using Cons.prems(2) by (cases d) auto
  obtain origin1 tr1 where 1: "flush_proxied (key, Some b) (origin, tr) = Some (origin1, tr1)"
      "apb_or_zero (map_of tr1 key) = b" "\<forall>k. k \<noteq> key \<longrightarrow> map_of tr1 k = map_of tr k"
      "agree apb_or_zero origin1 tr1"
    by (rule flush_proxied_step [of b origin tr key, OF d(2) Cons.prems(3)])
  obtain origin' tr' where 2: "fold_opt flush_proxied ds (origin1, tr1) = Some (origin', tr')"
      "\<forall>k. apb_or_zero (map_of tr' k) =
         (case map_of ds k of Some v \<Rightarrow> apb_or_zero v | None \<Rightarrow> apb_or_zero (map_of tr1 k))"
    using Cons.IH [of origin1 tr1] Cons.prems 1(4) by auto
  have "map_of ds key = None"
    using Cons.prems(1) by (simp add: d(1) map_of_eq_None_iff)
  then have "apb_or_zero (map_of tr' k) =
      (case map_of (d # ds) k of Some v \<Rightarrow> apb_or_zero v | None \<Rightarrow> apb_or_zero (map_of tr k))" for k
    using 2(2) 1(2,3) by (cases "k = key") (simp_all add: d(1) cong: option.case_cong)
  then show ?case
    by (simp add: d(1) 1(1) 2(1))
qed simp

lemma flush_reward_step:
  assumes "0 \<le> x"
    and coh: "agree reward_or_zero origin tr"
  obtains origin' tr' where "flush_reward (key, Some x) (origin, tr) = Some (origin', tr')"
    "reward_or_zero (map_of tr' key) = x"
    "\<forall>k. k \<noteq> key \<longrightarrow> map_of tr' k = map_of tr k"
    "agree reward_or_zero origin' tr'"
proof (cases "origin_of origin key = Some x")
  case True
  then have "map_of origin key = Some (Some x)"
    by (simp add: origin_of_def split: option.splits)
  then have "reward_or_zero (map_of tr key) = x"
    using agreeD [OF coh, of key "Some x"] by (simp add: reward_or_zero_def)
  moreover have "flush_reward (key, Some x) (origin, tr) = Some (origin, tr)"
    using True by (simp add: flush_reward_def origin_of_def)
  ultimately show ?thesis
    using coh by (intro that) simp_all
next
  case False
  let ?tr = "if x = 0 then AList.delete key tr else AList.update key x tr"
  have "flush_reward (key, Some x) (origin, tr) = Some (AList.update key (Some x) origin, ?tr)"
    using False assms(1) by (auto simp: flush_reward_def origin_of_def Let_def)
  moreover have "reward_or_zero (map_of ?tr key) = x" and "\<forall>k. k \<noteq> key \<longrightarrow> map_of ?tr k = map_of tr k"
    by (simp_all add: reward_or_zero_def update_conv delete_conv)
  moreover from this have "agree reward_or_zero (AList.update key (Some x) origin) ?tr"
    by (intro agree_update [OF coh]) (simp_all add: reward_or_zero_def)
  ultimately show ?thesis
    by (rule that)
qed

lemma flush_reward_all:
  assumes "distinct (map fst ds)" "\<forall>(k, v) \<in> set ds. \<exists>x. v = Some x \<and> 0 \<le> x"
    and "agree reward_or_zero origin tr"
  shows "\<exists>origin' tr'. fold_opt flush_reward ds (origin, tr) = Some (origin', tr') \<and>
    (\<forall>k. reward_or_zero (map_of tr' k) =
       (case map_of ds k of Some v \<Rightarrow> reward_or_zero v | None \<Rightarrow> reward_or_zero (map_of tr k)))"
  using assms
proof (induction ds arbitrary: origin tr)
  case (Cons d ds)
  obtain key x where d: "d = (key, Some x)" "0 \<le> x"
    using Cons.prems(2) by (cases d) auto
  obtain origin1 tr1 where 1: "flush_reward (key, Some x) (origin, tr) = Some (origin1, tr1)"
      "reward_or_zero (map_of tr1 key) = x" "\<forall>k. k \<noteq> key \<longrightarrow> map_of tr1 k = map_of tr k"
      "agree reward_or_zero origin1 tr1"
    by (rule flush_reward_step [of x origin tr key, OF d(2) Cons.prems(3)])
  obtain origin' tr' where 2: "fold_opt flush_reward ds (origin1, tr1) = Some (origin', tr')"
      "\<forall>k. reward_or_zero (map_of tr' k) =
         (case map_of ds k of Some v \<Rightarrow> reward_or_zero v | None \<Rightarrow> reward_or_zero (map_of tr1 k))"
    using Cons.IH [of origin1 tr1] Cons.prems 1(4) by auto
  have "map_of ds key = None"
    using Cons.prems(1) by (simp add: d(1) map_of_eq_None_iff)
  then have "reward_or_zero (map_of tr' k) =
      (case map_of (d # ds) k of Some v \<Rightarrow> reward_or_zero v | None \<Rightarrow> reward_or_zero (map_of tr k))" for k
    using 2(2) 1(2,3) by (cases "k = key") (simp_all add: d(1) cong: option.case_cong)
  then show ?case
    by (simp add: d(1) 1(1) 2(1))
qed simp

text \<open>What a flushed object holds in its account data is what the object read before.\<close>

definition flushed :: "state_object \<Rightarrow> account \<Rightarrow> bool" where
  "flushed s d \<longleftrightarrow>
     (\<forall>f. get_field f d = get_field f (so_data s)) \<and> Nonce d = Nonce (so_data s) \<and>
     CodeHash d = CodeHash (so_data s) \<and> Candidate d = Candidate (so_data s) \<and>
     Commission d = Commission (so_data s) \<and> IsBanned d = IsBanned (so_data s) \<and>
     BlockTime d = BlockTime (so_data s) \<and> BannedTime d = BannedTime (so_data s) \<and>
     Pubkey d = Pubkey (so_data s) \<and>
     SideChainDepositBalance d = SideChainDepositBalance (so_data s) \<and>
     (\<forall>h. TX1Root d h = (if h \<in> dirtyTX1 s then Some (trim_zeros h) else TX1Root (so_data s) h)) \<and>
     (\<forall>h. TX3Root d h = (if h \<in> dirtyTX3 s then Some (trim_zeros h) else TX3Root (so_data s) h)) \<and>
     (\<forall>k. (case Root d k of Some v \<Rightarrow> v | None \<Rightarrow> zero_hash) = state_read s k) \<and>
     (\<forall>u. apb_or_zero (map_of (case ProxiedRoot d of None \<Rightarrow> [] | Some t \<Rightarrow> t) u)
        = apb_or_zero (proxied_read s u)) \<and>
     (\<forall>u. reward_or_zero (map_of (RewardRoot d) u) = reward_or_zero (reward_read s u))"

lemma update_roots_flushed:
  assumes "coherent s" "storable s"
  obtains s1 where "update_roots s = Some s1" "flushed s (so_data s1)" "so_address s1 = so_address s"
    "deleted s1 = deleted s"
proof -
  let ?s3 = "updateTX3Trie (updateTX1Trie (updateTrie s))"
  have st: "storage_coherent s" and pc: "proxied_coherent s" and rc: "reward_coherent s"
    using assms(1) by (simp_all add: coherent_def)
  have s3: "dirtyProxied ?s3 = dirtyProxied s" "originProxied ?s3 = originProxied s"
      "proxiedTrie ?s3 = proxiedTrie s" "dirtyReward ?s3 = dirtyReward s"
      "originReward ?s3 = originReward s" "RewardRoot (so_data ?s3) = RewardRoot (so_data s)"
      "Root (so_data ?s3) = Root (so_data (updateTrie s))"
      "so_address ?s3 = so_address s" "deleted ?s3 = deleted s"
    by (simp_all add: updateTX3Trie_def updateTX1Trie_def updateTrie_def Let_def proxiedTrie_def)
  have s3_data: "get_field f (so_data ?s3) = get_field f (so_data s)"
      "Nonce (so_data ?s3) = Nonce (so_data s)" "CodeHash (so_data ?s3) = CodeHash (so_data s)"
      "Candidate (so_data ?s3) = Candidate (so_data s)" "Commission (so_data ?s3) = Commission (so_data s)"
      "IsBanned (so_data ?s3) = IsBanned (so_data s)" "BlockTime (so_data ?s3) = BlockTime (so_data s)"
      "BannedTime (so_data ?s3) = BannedTime (so_data s)" "Pubkey (so_data ?s3) = Pubkey (so_data s)"
      "SideChainDepositBalance (so_data ?s3) = SideChainDepositBalance (so_data s)"
      "TX1Root (so_data ?s3) = (\<lambda>h. if h \<in> dirtyTX1 s then Some (trim_zeros h) else TX1Root (so_data s) h)"
      "TX3Root (so_data ?s3) = (\<lambda>h. if h \<in> dirtyTX3 s then Some (trim_zeros h) else TX3Root (so_data s) h)"
      for f
    by (cases f) (simp_all add: updateTX3Trie_def updateTX1Trie_def updateTrie_def Let_def cong: if_cong)
  obtain op tp where p: "fold_opt flush_proxied (dirtyProxied s) (originProxied s, proxiedTrie s) = Some (op, tp)"
      "\<forall>k. apb_or_zero (map_of tp k) = (case map_of (dirtyProxied s) k of Some v \<Rightarrow> apb_or_zero v
         | None \<Rightarrow> apb_or_zero (map_of (proxiedTrie s) k))"
    using flush_proxied_all [of "dirtyProxied s" "originProxied s" "proxiedTrie s"] pc assms(2)
    by (auto simp: proxied_coherent_def storable_def agree_def)
  obtain orw tw where r: "fold_opt flush_reward (dirtyReward s) (originReward s, RewardRoot (so_data s)) = Some (orw, tw)"
      "\<forall>k. reward_or_zero (map_of tw k) = (case map_of (dirtyReward s) k of Some v \<Rightarrow> reward_or_zero v
         | None \<Rightarrow> reward_or_zero (map_of (RewardRoot (so_data s)) k))"
    using flush_reward_all [of "dirtyReward s" "originReward s" "RewardRoot (so_data s)"] rc assms(2)
    by (auto simp: reward_coherent_def storable_def agree_def)
  define s4 where "s4 = ?s3\<lparr>dirtyProxied := [], originProxied := op,
      so_data := so_data ?s3\<lparr>ProxiedRoot := Some tp\<rparr>\<rparr>"
  define s1 where "s1 = s4\<lparr>dirtyReward := [], originReward := orw, so_data := so_data s4\<lparr>RewardRoot := tw\<rparr>\<rparr>"
  have u: "update_roots s = Some s1"
    by (simp add: update_roots_def updateProxiedTrie_def updateRewardTrie_def s3 p(1) r(1) s4_def s1_def)
  have pr: "apb_or_zero (map_of tp k) = apb_or_zero (proxied_read s k)" for k
    using p(2) pc by (auto simp: proxied_read_def proxied_coherent_def split: option.split)
  have rr: "reward_or_zero (map_of tw k) = reward_or_zero (reward_read s k)" for k
    using r(2) rc by (auto simp: reward_read_def reward_coherent_def split: option.split)
  have "get_field f (so_data s1) = get_field f (so_data ?s3)" for f
    by (cases f) (simp_all add: s1_def s4_def)
  then have "flushed s (so_data s1)"
    by (simp add: flushed_def s3_data pr rr, simp add: s1_def s4_def s3_data s3(7) pr rr
        state_read_updateTrie [OF st])
  with u show ?thesis
    by (rule that) (simp_all add: s1_def s4_def s3)
qed

subsection \<open>Caches and dirty marks stay coherent\<close>

definition caches_ok :: "statedb \<Rightarrow> bool" where
  "caches_ok db \<longleftrightarrow> (\<forall>a s. stateObjects db a = Some s \<longrightarrow> coherent s \<and> so_address s = a) \<and>
     distinct (stateObjectsDirty db) \<and> (\<forall>a \<in> set (stateObjectsDirty db). stateObjects db a \<noteq> None)"

definition keeps :: "(state_object \<Rightarrow> state_object) \<Rightarrow> bool" where
  "keeps f \<longleftrightarrow> (\<forall>s. so_address (f s) = so_address s \<and> (coherent s \<longrightarrow> coherent (f s)))"

lemma keepsI:
  "(\<And>s. so_address (f s) = so_address s) \<Longrightarrow> (\<And>s. coherent s \<Longrightarrow> coherent (f s)) \<Longrightarrow> keeps f"
  by (simp add: keeps_def)

lemma coherent_fields:
  assumes "originStorage s' = originStorage s" "dirtyStorage s' = dirtyStorage s"
    and "originProxied s' = originProxied s" "dirtyProxied s' = dirtyProxied s"
    and "originReward s' = originReward s" "dirtyReward s' = dirtyReward s"
    and "Root (so_data s') = Root (so_data s)" "ProxiedRoot (so_data s') = ProxiedRoot (so_data s)"
    and "RewardRoot (so_data s') = RewardRoot (so_data s)"
  shows "coherent s' = coherent s"
  using assms by (simp add: coherent_def storage_coherent_def proxied_coherent_def
      reward_coherent_def proxiedTrie_def)

lemma coherent_onDirty [simp]: "coherent (s\<lparr>onDirty := b\<rparr>) = coherent s"
  by (rule coherent_fields) simp_all

lemma coherent_new [simp]: "coherent (newObject a d b)"
  by (simp add: newObject_def coherent_def storage_coherent_def proxied_coherent_def
      reward_coherent_def)

lemma keeps_setters:
  "keeps (\<lambda>s. s\<lparr>so_data := put_field f x (so_data s)\<rparr>)"
  "keeps (\<lambda>s. s\<lparr>so_data := so_data s\<lparr>Nonce := n\<rparr>\<rparr>)"
  "keeps (\<lambda>s. s\<lparr>so_data := so_data s\<lparr>Candidate := b\<rparr>\<rparr>)"
  "keeps (\<lambda>s. s\<lparr>so_data := so_data s\<lparr>Pubkey := p\<rparr>\<rparr>)"
  "keeps (\<lambda>s. s\<lparr>so_data := so_data s\<lparr>Commission := c\<rparr>\<rparr>)"
  "keeps (\<lambda>s. s\<lparr>so_data := so_data s\<lparr>IsBanned := b\<rparr>\<rparr>)"
  "keeps (\<lambda>s. s\<lparr>so_data := so_data s\<lparr>BlockTime := x\<rparr>\<rparr>)"
  "keeps (\<lambda>s. s\<lparr>so_data := so_data s\<lparr>BannedTime := x\<rparr>\<rparr>)"
  "keeps (\<lambda>s. s\<lparr>so_data := so_data s\<lparr>Balance := x\<rparr>\<rparr>)"
  "keeps (\<lambda>s. s\<lparr>so_code := oc, dirtyCode := True, so_data := so_data s\<lparr>CodeHash := h\<rparr>\<rparr>)"
  "keeps (\<lambda>s. s\<lparr>so_code := oc\<rparr>)"
  "keeps (\<lambda>s. s\<lparr>so_data := so_data s\<lparr>SideChainDepositBalance := F (SideChainDepositBalance (so_data s))\<rparr>\<rparr>)"
  "keeps (\<lambda>s. s\<lparr>dirtyTX1 := G (dirtyTX1 s)\<rparr>)" "keeps (\<lambda>s. s\<lparr>dirtyTX3 := G (dirtyTX3 s)\<rparr>)"
  "keeps (\<lambda>s. s\<lparr>suicided := b\<rparr>)" "keeps (\<lambda>s. s\<lparr>touched := b\<rparr>)" "keeps (\<lambda>s. s\<lparr>so_dbErr := b\<rparr>)"
  by (rule keepsI; (simp; fail | (subst coherent_fields; simp)))+

lemma keeps_const: "so_address s' = so_address s \<Longrightarrow> coherent s' \<Longrightarrow>
  stateObjects db a = Some s \<Longrightarrow> caches_ok db \<Longrightarrow> caches_ok (modify_object a (\<lambda>_. s') db)"
  by (auto simp: caches_ok_def modify_object_def)

lemma caches_write:
  assumes "keeps f" "caches_ok db"
  shows "caches_ok (write_object a f db)" "caches_ok (modify_object a f db)"
  using assms
  by (auto simp: caches_ok_def keeps_def write_object_def modify_object_def MarkStateObjectDirty_def
      Let_def split: option.split)

lemma caches_push [simp]: "caches_ok (push e db) = caches_ok db"
  by (simp add: caches_ok_def push_def)

lemma caches_load: "caches_ok db \<Longrightarrow> caches_ok (load a db)"
  by (rule load_cases [of a db]) (auto simp: caches_ok_def)

lemma caches_create: "caches_ok db \<Longrightarrow> caches_ok (snd (createObject a db))"
  using caches_load [of db a]
  by (auto simp: createObject_eq caches_ok_def setStateObject_def push_def MarkStateObjectDirty_def)

lemma caches_GetOrNew: "caches_ok db \<Longrightarrow> caches_ok (GetOrNewStateObject a db)"
  by (simp add: GetOrNewStateObject_def getStateObject_eq caches_load caches_create split: option.split)

lemma caches_rest:
  "stateObjects db' = stateObjects db \<Longrightarrow> stateObjectsDirty db' = stateObjectsDirty db \<Longrightarrow>
   caches_ok db' = caches_ok db"
  by (simp add: caches_ok_def)

lemma caches_balance:
  assumes "caches_ok db"
  shows "caches_ok (touch a db)" "caches_ok (Set_balance f a x db)"
    "caches_ok (Add_balance f a x db)" "caches_ok (Sub_balance f a x db)"
proof -
  show t: "caches_ok (touch a db)"
    by (auto simp: touch_def caches_write keeps_setters assms split: option.split)
  show b: "caches_ok (Set_balance f a x db)" for x
    by (auto simp: Set_balance_def set_balance_def caches_write keeps_setters assms split: option.split)
  show "caches_ok (Add_balance f a x db)" "caches_ok (Sub_balance f a x db)"
    by (auto simp: Add_balance_def Sub_balance_def t b assms split: option.split)
qed

lemma caches_data:
  assumes "caches_ok db"
  shows "caches_ok (so_SetNonce a n db)" "caches_ok (so_SetCandidate a b db)"
    "caches_ok (so_SetPubkey a p db)" "caches_ok (so_SetCommission a c db)"
    "caches_ok (so_SetBanned a b db)" "caches_ok (so_SetBlockTime a x db)"
    "caches_ok (so_SetBannedTime a x db)" "caches_ok (so_SetCode a h oc db)"
    "caches_ok (so_SetSideChainDepositBalance a ch x db)"
  by (auto simp: so_SetNonce_def so_SetCandidate_def so_SetPubkey_def so_SetCommission_def
      so_SetBanned_def so_SetBlockTime_def so_SetBannedTime_def so_SetCode_def
      so_SetSideChainDepositBalance_def setters Let_def caches_write keeps_setters assms
      split: option.split)

text \<open>The caching reads and the writes that follow them.\<close>

lemma coherent_cached:
  assumes "coherent s"
  shows "coherent (snd (so_GetState k s))" "coherent (snd (so_GetCommittedState k s))"
    "coherent (snd (so_GetAccountProxiedBalance k s))" "coherent (snd (so_GetDelegateRewardBalance k s))"
    "coherent (snd (so_HasTX1 k s))" "coherent (snd (so_HasTX3 k s))"
    "coherent (snd (apb_field g k s))"
proof -
  show c: "coherent (snd (so_GetCommittedState k s))"
    using assms
    by (auto simp: so_GetCommittedState_def Let_def coherent_def storage_coherent_def
        proxied_coherent_def reward_coherent_def proxiedTrie_def split: option.split)
  show "coherent (snd (so_GetState k s))"
    using assms c by (simp add: so_GetState_def split: option.split)
  show p: "coherent (snd (so_GetAccountProxiedBalance k s))"
    using assms
    by (auto simp: so_GetAccountProxiedBalance_def Let_def coherent_def storage_coherent_def
        proxied_coherent_def reward_coherent_def proxiedTrie_def update_conv split: option.split)
  show "coherent (snd (so_GetDelegateRewardBalance k s))"
    using assms
    by (auto simp: so_GetDelegateRewardBalance_def Let_def coherent_def storage_coherent_def
        proxied_coherent_def reward_coherent_def proxiedTrie_def update_conv split: option.split)
  have e: "coherent (s\<lparr>so_dbErr := True\<rparr>)"
    using assms keeps_setters(17) [of True] by (simp add: keeps_def)
  show "coherent (snd (so_HasTX1 k s))" "coherent (snd (so_HasTX3 k s))"
    using assms e by (auto simp: so_HasTX1_def so_HasTX3_def split: option.split)
  show "coherent (snd (apb_field g k s))"
    using p by (cases "so_GetAccountProxiedBalance k s") (simp add: apb_field_def)
qed

lemma address_cached:
  "so_address (snd (so_GetState k s)) = so_address s"
  "so_address (snd (so_GetCommittedState k s)) = so_address s"
  "so_address (snd (so_GetAccountProxiedBalance k s)) = so_address s"
  "so_address (snd (so_GetDelegateRewardBalance k s)) = so_address s"
  "so_address (snd (so_HasTX1 k s)) = so_address s" "so_address (snd (so_HasTX3 k s)) = so_address s"
  "so_address (snd (apb_field g k s)) = so_address s"
  by (rule obs_cached_state obs_cached_committed obs_cached_proxied obs_cached_reward obs_cached_tx
      obs_cached_apb)+

lemma coherent_write_state:
  assumes "coherent s"
  shows "coherent ((snd (so_GetState k s))\<lparr>dirtyStorage := (dirtyStorage (snd (so_GetState k s)))(k \<mapsto> v)\<rparr>)"
proof -
  let ?s = "snd (so_GetState k s)"
  have "coherent ?s"
    by (rule coherent_cached(1) [OF assms])
  moreover have "k \<in> dom (originStorage ?s)"
    using assms
    by (auto simp: so_GetState_def so_GetCommittedState_def Let_def coherent_def storage_coherent_def
        split: option.split)
  ultimately show ?thesis
    by (auto simp: coherent_def storage_coherent_def proxied_coherent_def reward_coherent_def proxiedTrie_def)
qed

lemma update_values: "(k, x) \<in> set (AList.update key v al) \<Longrightarrow> x = v \<or> (k, x) \<in> set al"
  by (induction al) (auto split: if_splits)

lemma keeps_entries:
  "keeps (\<lambda>s. s\<lparr>dirtyProxied := AList.update key (Some b) (dirtyProxied s)\<rparr>)"
  "keeps (\<lambda>s. s\<lparr>dirtyReward := AList.update key r (dirtyReward s)\<rparr>)"
  by (rule keepsI; auto simp: coherent_def storage_coherent_def proxied_coherent_def
      reward_coherent_def proxiedTrie_def distinct_update dest: update_values)+

lemma caches_objD: "caches_ok db \<Longrightarrow> stateObjects db a = Some s \<Longrightarrow> coherent s \<and> so_address s = a"
  by (simp add: caches_ok_def)

lemma caches_entries:
  assumes "caches_ok db"
  shows "caches_ok (so_SetState a k h db)" "caches_ok (so_SetAccountProxiedBalance a u (Some b) db)"
    "caches_ok (so_SetDelegateRewardBalance a u r db)" "caches_ok (change_apb a u g db)"
proof -
  have m: "caches_ok (modify_object a (\<lambda>_. s') d)"
    if "caches_ok d" "stateObjects d a = Some s" "coherent s'" "so_address s' = so_address s" for d s s'
    using that keeps_const [of s' s d a] by simp
  show "caches_ok (so_SetState a k h db)"
  proof (cases "stateObjects db a")
    case (Some s)
    let ?s = "snd (so_GetState k s)"
    have "so_SetState a k h db = write_object a (\<lambda>obj. obj\<lparr>dirtyStorage := (dirtyStorage obj)(k \<mapsto> h)\<rparr>)
        (push (storageChange a k (state_read s k)) (modify_object a (\<lambda>_. ?s) db))"
      unfolding so_SetState_def setState_def Some option.case by (subst obs_cached_state(1)) simp
    moreover have "coherent (?s\<lparr>dirtyStorage := (dirtyStorage ?s)(k \<mapsto> h)\<rparr>)" "so_address ?s = a"
      using coherent_write_state [of s k h] caches_objD [OF assms Some] by (simp_all add: address_cached)
    moreover have "coherent (?s\<lparr>dirtyStorage := (dirtyStorage ?s)(k \<mapsto> h), onDirty := False\<rparr>)"
      using calculation(2) by simp
    ultimately show ?thesis
      using assms Some
      by (auto simp: caches_ok_def write_object_def modify_object_def push_def MarkStateObjectDirty_def Let_def)
  qed (simp add: so_SetState_def assms)
  have p: "caches_ok (so_SetAccountProxiedBalance a u (Some b) d)" if "caches_ok d" for d b
  proof (cases "stateObjects d a")
    case (Some s)
    show ?thesis
      unfolding so_SetAccountProxiedBalance_def setAccountProxiedBalance_def Some option.case
      using m [OF that Some, of "snd (so_GetAccountProxiedBalance u s)"] caches_objD [OF that Some]
      by (auto simp: coherent_cached address_cached caches_write keeps_entries split_beta Let_def)
  qed (simp add: so_SetAccountProxiedBalance_def that)
  then show "caches_ok (so_SetAccountProxiedBalance a u (Some b) db)"
    by (simp add: assms)
  show "caches_ok (so_SetDelegateRewardBalance a u r db)"
  proof (cases "stateObjects db a")
    case (Some s)
    show ?thesis
      unfolding so_SetDelegateRewardBalance_def setDelegateRewardBalance_def Some option.case
      using m [OF assms Some, of "snd (so_GetDelegateRewardBalance u s)"] caches_objD [OF assms Some]
      by (auto simp: coherent_cached address_cached caches_write keeps_entries split_beta Let_def)
  qed (simp add: so_SetDelegateRewardBalance_def assms)
  show "caches_ok (change_apb a u g db)"
  proof (cases "stateObjects db a")
    case (Some s)
    show ?thesis
      unfolding change_apb_def Some option.case
      using m [OF assms Some, of "snd (so_GetAccountProxiedBalance u s)"] caches_objD [OF assms Some] p
      by (auto simp: coherent_cached address_cached split_beta Let_def)
  qed (simp add: change_apb_def assms)
qed

lemma caches_read_cached:
  assumes "caches_ok db" "\<And>s. coherent s \<Longrightarrow> coherent (snd (f s))" "\<And>s. so_address (snd (f s)) = so_address s"
  shows "caches_ok (snd (read_cached a f d db))"
proof (cases "peek db a")
  case None
  then show ?thesis
    by (simp add: read_cached_def getStateObject_eq caches_load assms(1))
next
  case (Some s)
  have l: "caches_ok (load a db)" "stateObjects (load a db) a = Some s"
    by (simp_all add: caches_load assms(1) live_load Some)
  have "coherent (snd (f s))"
    using assms(2) caches_objD [OF l] by simp
  then have "caches_ok (modify_object a (\<lambda>_. snd (f s)) (load a db))"
    by (rule keeps_const [OF assms(3) _ l(2,1)])
  then show ?thesis
    by (simp add: read_cached_def getStateObject_eq Some split_beta)
qed

lemma caches_rewards:
  assumes "caches_ok db"
  shows "caches_ok (AddRewardBalanceByDelegateAddress a k x db)"
    "SubRewardBalanceByDelegateAddress a k x db = Some db' \<Longrightarrow> caches_ok db'"
proof -
  let ?d = "GetOrNewStateObject a db"
  have d: "caches_ok ?d"
    by (rule caches_GetOrNew [OF assms])
  have m: "caches_ok (modify_object a (\<lambda>_. snd (so_GetDelegateRewardBalance k s)) ?d)"
    if "stateObjects ?d a = Some s" for s
    using keeps_const [OF address_cached(4) coherent_cached(4) that d] caches_objD [OF d that] by simp
  show "caches_ok (AddRewardBalanceByDelegateAddress a k x db)"
    using d m
    by (auto simp: AddRewardBalanceByDelegateAddress_def Let_def split_beta caches_balance caches_entries
        so_AddRewardBalance_def split: option.split)
  show "caches_ok db'" if "SubRewardBalanceByDelegateAddress a k x db = Some db'"
    using that d m
    by (fastforce simp: SubRewardBalanceByDelegateAddress_def Let_def caches_balance caches_entries
        so_SubRewardBalance_def split: option.splits prod.splits)
qed

lemma caches_side:
  assumes "caches_ok db"
  shows "caches_ok (so_AddSideChainDepositBalance a ch x db)" "caches_ok (so_SubSideChainDepositBalance a ch x db)"
  using assms
  by (auto simp: so_AddSideChainDepositBalance_def so_SubSideChainDepositBalance_def caches_data
      caches_balance split: option.split)

lemmas caches_setters = caches_balance(2-4) caches_data caches_entries caches_side

lemma caches_account_op:
  assumes "caches_ok db"
  shows "caches_ok (AddBalance a x db)" "caches_ok (SubBalance a x db)"
    "caches_ok (SetBalance a x db)" "caches_ok (AddDepositBalance a x db)"
    "caches_ok (SubDepositBalance a x db)" "caches_ok (SetDepositBalance a x db)"
    "caches_ok (AddChainBalance a x db)" "caches_ok (SubChainBalance a x db)"
    "caches_ok (SetChainBalance a x db)" "caches_ok (AddDelegateBalance a x db)"
    "caches_ok (SubDelegateBalance a x db)" "caches_ok (AddRewardBalance a x db)"
    "caches_ok (SubRewardBalance a x db)" "caches_ok (SetNonce a n db)"
    "caches_ok (SetCommission a c db)" "caches_ok (SetBanned a b db)"
    "caches_ok (SetBannedTime a x db)" "caches_ok (SetMinedBlocks a x db)"
    "caches_ok (ClearCommission a db)" "caches_ok (SetCode keccak a code db)"
    "caches_ok (SetState a k h db)" "caches_ok (AddSideChainDepositBalance a ch x db)"
    "caches_ok (SubSideChainDepositBalance a ch x db)"
    "caches_ok (SetSideChainDepositBalance a ch x db)"
  unfolding account_ops balance_methods
  by (rule caches_setters, rule caches_GetOrNew, rule assms)+

lemma caches_user_op:
  assumes "caches_ok db"
  shows "caches_ok (AddProxiedBalanceByUser a u x db)" "caches_ok (SubProxiedBalanceByUser a u x db)"
    "caches_ok (AddDepositProxiedBalanceByUser a u x db)"
    "caches_ok (SubDepositProxiedBalanceByUser a u x db)"
    "caches_ok (AddPendingRefundBalanceByUser a u x db)"
    "caches_ok (SubPendingRefundBalanceByUser a u x db)"
  unfolding user_ops balance_methods
  by (rule caches_balance, rule caches_entries, rule caches_GetOrNew, rule assms)+

lemma caches_set_op:
  assumes "caches_ok db"
  shows "caches_ok (Prepare h1 h2 i db)" "caches_ok (MarkDelegateAddressRefund a db)"
    "caches_ok (MarkAddressReward a db)" "caches_ok (MarkAddressCandidate a db)"
    "caches_ok (MarkAddressBanned a db)" "caches_ok (ClearCandidateSetByAddress a db)"
    "caches_ok (ClearBannedSetByAddress a db)" "caches_ok (ClearRewardSetByAddress a db)"
    "caches_ok (AddLog l db)" "caches_ok (AddPreimage h p db)" "caches_ok (AddRefund g db)"
    "caches_ok (snd (Snapshot db))"
  by (rule iffD2 [OF caches_rest assms];
      simp add: set_ops AddLog_def AddPreimage_def AddRefund_def Snapshot_def push_def Let_def)+

lemma caches_read:
  assumes "caches_ok db"
  shows "caches_ok (snd (GetState a k db))" "caches_ok (snd (GetCommittedState a k db))"
    "caches_ok (snd (HasTX1 a k db))" "caches_ok (snd (HasTX3 a k db))"
    "caches_ok (snd (GetProxiedBalanceByUser a k db))"
    "caches_ok (snd (GetDepositProxiedBalanceByUser a k db))"
    "caches_ok (snd (GetPendingRefundBalanceByUser a k db))"
    "caches_ok (snd (GetRewardBalanceByDelegateAddress a k db))"
    "caches_ok (snd (GetCode a db))"
proof -
  have "coherent (s\<lparr>so_code := c\<rparr>) = coherent s" for s c
    by (rule coherent_fields) simp_all
  then show "caches_ok (snd (GetCode a db))"
    unfolding GetCode_def by (intro caches_read_cached assms) simp_all
qed (unfold cached_reads, (rule caches_read_cached [OF assms];
      simp add: coherent_cached address_cached split_beta Let_def)+)

lemma caches_life_op:
  assumes "caches_ok db"
  shows "caches_ok (AddAvailableRewardBalance a x db)" "caches_ok (SubAvailableRewardBalance a x db)"
    "caches_ok (ApplyForCandidate a k c db)" "caches_ok (CancelCandidate a b db)"
    "caches_ok (CreateAccount a db)" "caches_ok (snd (getStateObject a db))"
    "caches_ok (snd (Suicide a db))" "caches_ok (snd (read_or_new a f db))"
    "caches_ok (AddTX1 a h db)" "caches_ok (AddTX3 a h db)"
proof -
  show "caches_ok (snd (getStateObject a db))" "caches_ok (snd (read_or_new a f db))"
    by (simp_all add: getStateObject_eq caches_load read_or_new_def Let_def caches_GetOrNew assms)
  show "caches_ok (AddAvailableRewardBalance a x db)" "caches_ok (SubAvailableRewardBalance a x db)"
    by (simp_all add: AddAvailableRewardBalance_def SubAvailableRewardBalance_def getStateObject_eq
        balance_methods caches_load caches_balance assms split: option.split)
  show "caches_ok (ApplyForCandidate a k c db)" "caches_ok (CancelCandidate a b db)"
    by (simp_all add: ApplyForCandidate_def CancelCandidate_def Let_def caches_data caches_GetOrNew assms)
  show "caches_ok (CreateAccount a db)"
    using caches_create [OF assms, of a]
    by (auto simp: CreateAccount_def set_balance_def caches_write keeps_setters split: prod.split option.split)
  have b: "keeps (\<lambda>obj. obj\<lparr>so_data := so_data obj\<lparr>Balance := 0\<rparr>\<rparr>)"
    using keeps_setters(1) [of F_Balance 0] by simp
  show "caches_ok (snd (Suicide a db))"
    by (simp add: Suicide_def getStateObject_eq markSuicided_def caches_write b keeps_setters
        caches_load assms split: option.split)
  have "keeps (\<lambda>obj. obj\<lparr>dirtyTX1 := insert h (dirtyTX1 obj)\<rparr>)" "keeps (\<lambda>obj. obj\<lparr>dirtyTX3 := insert h (dirtyTX3 obj)\<rparr>)"
    by (rule keepsI, simp, subst coherent_fields, simp_all)+
  then show "caches_ok (AddTX1 a h db)" "caches_ok (AddTX3 a h db)"
    by (simp_all add: AddTX1_def AddTX3_def so_AddTX1_def so_AddTX3_def addTX1_def addTX3_def
        caches_write caches_GetOrNew assms)
qed

lemma caches_op: "api_op f \<Longrightarrow> caches_ok db \<Longrightarrow> caches_ok (f db)"
  by (erule api_op.cases)
    (simp_all only: caches_account_op caches_user_op caches_set_op caches_read caches_life_op
      caches_rewards GetBanned_def GetBannedTime_def GetMinedBlocks_def)

text \<open>A run of the exported operations from a freshly opened database, without reverts.\<close>

inductive forward :: "state_trie \<Rightarrow> statedb \<Rightarrow> bool" for t where
  open_db: "forward t (NewStateDB t)"
| op: "forward t db \<Longrightarrow> api_op f \<Longrightarrow> forward t (f db)"
| tx1: "forward t db \<Longrightarrow> forward t (AddTX1 a h db)"
| tx3: "forward t db \<Longrightarrow> forward t (AddTX3 a h db)"
| sub_refund: "forward t db \<Longrightarrow> SubRefund g db = Some db' \<Longrightarrow> forward t db'"
| sub_reward: "forward t db \<Longrightarrow> SubRewardBalanceByDelegateAddress a k x db = Some db' \<Longrightarrow> forward t db'"
| snapshot: "forward t db \<Longrightarrow> forward t (snd (Snapshot db))"

lemma forward_caches: "forward t db \<Longrightarrow> caches_ok db"
proof (induction rule: forward.induct)
  case open_db
  show ?case
    by (simp add: caches_ok_def NewStateDB_def)
next
  case (sub_refund db g db')
  then show ?case
    by (auto simp: SubRefund_def Let_def push_def caches_ok_def split: if_splits)
qed (simp_all add: caches_op caches_life_op caches_rewards(2) caches_set_op)

subsection \<open>Finalising\<close>

text \<open>What \<open>Finalise\<close> needs of a dirty account to store it: it is removed, or the encoder
  accepts its balances and its dirty entries.\<close>

definition removed :: "bool \<Rightarrow> state_object \<Rightarrow> bool" where
  "removed del s \<longleftrightarrow> suicided s \<or> (del \<and> so_empty s)"

definition settles :: "bool \<Rightarrow> statedb \<Rightarrow> address \<Rightarrow> bool" where
  "settles del db a \<longleftrightarrow> (case stateObjects db a of None \<Rightarrow> False
     | Some s \<Rightarrow> removed del s \<or> (storable s \<and> account_encodes (so_data s)))"

lemma flushed_encodes: "flushed s d \<Longrightarrow> account_encodes d = account_encodes (so_data s)"
  unfolding flushed_def account_encodes_def
  by (metis get_field.simps)

definition outcome :: "bool \<Rightarrow> state_object \<Rightarrow> account option \<Rightarrow> bool" where
  "outcome del s e \<longleftrightarrow> (if removed del s then e = None else \<exists>d. e = Some d \<and> flushed s d)"

lemma finalise_step:
  assumes "stateObjects db a = Some s" "coherent s" "so_address s = a" "settles del db a"
  obtains db1 where "finalise_object del a db = Some db1" "outcome del s (trie db1 a)"
    "\<forall>b. b \<noteq> a \<longrightarrow> trie db1 b = trie db b \<and> stateObjects db1 b = stateObjects db b"
    "sideChainRewardPerBlock db1 = sideChainRewardPerBlock db"
proof (cases "removed del s")
  case True
  then show ?thesis
    by (intro that [of "deleteStateObject s db"])
      (auto simp: finalise_object_def assms removed_def outcome_def deleteStateObject_def setStateObject_def)
next
  case False
  then have st: "storable s" "account_encodes (so_data s)"
    using assms(1,4) by (simp_all add: settles_def)
  obtain s1 where s1: "update_roots s = Some s1" "flushed s (so_data s1)" "so_address s1 = a"
    using update_roots_flushed [OF assms(2) st(1)] assms(3) by metis
  then show ?thesis
    using False st(2) flushed_encodes [OF s1(2)]
    by (intro that [of "(setStateObject s1 db)\<lparr>trie := (trie db)(a \<mapsto> so_data s1)\<rparr>"])
      (auto simp: finalise_object_def assms(1) removed_def outcome_def updateStateObject_def setStateObject_def)
qed

lemma finalise_all:
  assumes "distinct as" "\<forall>a \<in> set as. \<exists>s. stateObjects db a = Some s \<and> coherent s \<and> so_address s = a"
    and "\<forall>a \<in> set as. settles del db a"
  shows "\<exists>db1. fold_opt (finalise_object del) as db = Some db1 \<and>
    (\<forall>a \<in> set as. outcome del (the (stateObjects db a)) (trie db1 a)) \<and>
    (\<forall>a. a \<notin> set as \<longrightarrow> trie db1 a = trie db a) \<and>
    sideChainRewardPerBlock db1 = sideChainRewardPerBlock db"
  using assms
proof (induction as arbitrary: db)
  case (Cons a as)
  obtain s where s: "stateObjects db a = Some s" "coherent s" "so_address s = a" "settles del db a"
    using Cons.prems(2,3) by auto
  obtain db1 where db1: "finalise_object del a db = Some db1" "outcome del s (trie db1 a)"
      "\<forall>b. b \<noteq> a \<longrightarrow> trie db1 b = trie db b \<and> stateObjects db1 b = stateObjects db b"
      "sideChainRewardPerBlock db1 = sideChainRewardPerBlock db"
    using finalise_step [OF s] by metis
  have same: "stateObjects db1 b = stateObjects db b" if "b \<in> set as" for b
    using that db1(3) Cons.prems(1) by auto
  have "\<exists>db2. fold_opt (finalise_object del) as db1 = Some db2 \<and>
    (\<forall>a \<in> set as. outcome del (the (stateObjects db1 a)) (trie db2 a)) \<and>
    (\<forall>a. a \<notin> set as \<longrightarrow> trie db2 a = trie db1 a) \<and>
    sideChainRewardPerBlock db2 = sideChainRewardPerBlock db1"
    using Cons.prems same by (intro Cons.IH) (auto simp: settles_def)
  then obtain db2 where "fold_opt (finalise_object del) as db1 = Some db2"
      "\<forall>a \<in> set as. outcome del (the (stateObjects db1 a)) (trie db2 a)"
      "\<forall>a. a \<notin> set as \<longrightarrow> trie db2 a = trie db1 a"
      "sideChainRewardPerBlock db2 = sideChainRewardPerBlock db1"
    by blast
  then show ?case
    using db1 same s(1) Cons.prems(1) by auto
qed simp

lemma commit_sets_trie:
  assumes "\<forall>r. sideChainRewardPerBlock db = Some r \<longrightarrow> 0 \<le> r"
  obtains db1 where "commit_sets db = Some db1" "trie db1 = trie db"
proof -
  define d where "d = (let db1 = (if delegateRefundSetDirty db then commitDelegateRefundSet db else db);
      db2 = (if rewardSetDirty db1 then commitRewardSet db1 else db1);
      db3 = (if candidateSetDirty db2 then commitCandidateSet db2 else db2)
    in if bannedSetDirty db3 then commitBannedSet db3 else db3)"
  have "trie d = trie db" "sideChainRewardPerBlock d = sideChainRewardPerBlock db"
    by (simp_all add: d_def Let_def commitDelegateRefundSet_def commitRewardSet_def
        commitCandidateSet_def commitBannedSet_def)
  moreover have "commit_sets db = (if sideChainRewardPerBlockDirty d
      then commitSideChainRewardPerBlock d else Some d)"
    by (simp add: commit_sets_def d_def Let_def)
  ultimately show ?thesis
    using assms that
    by (cases "sideChainRewardPerBlock db") (auto simp: commitSideChainRewardPerBlock_def split: if_splits)
qed

text \<open>
  What the exported reads return of an account.  Left out are the reads that a flush changes by
  design of the source: the cross-chain marks, the number of stored delegators and the emptiness of
  their trie (entries reach that trie only with the flush), and the code itself, which \<open>Commit\<close>
  and not \<open>Finalise\<close> writes to the database; its hash is included.
\<close>

definition same_reads :: "address \<Rightarrow> statedb \<Rightarrow> statedb \<Rightarrow> bool" where
  "same_reads a db1 db2 \<longleftrightarrow>
     fst (GetBalance a db1) = fst (GetBalance a db2) \<and>
     fst (GetNonce a db1) = fst (GetNonce a db2) \<and>
     fst (GetCodeHash a db1) = fst (GetCodeHash a db2) \<and>
     fst (GetDepositBalance a db1) = fst (GetDepositBalance a db2) \<and>
     fst (GetDelegateBalance a db1) = fst (GetDelegateBalance a db2) \<and>
     fst (GetTotalProxiedBalance a db1) = fst (GetTotalProxiedBalance a db2) \<and>
     fst (GetTotalDepositProxiedBalance a db1) = fst (GetTotalDepositProxiedBalance a db2) \<and>
     fst (GetTotalPendingRefundBalance a db1) = fst (GetTotalPendingRefundBalance a db2) \<and>
     fst (GetChainBalance a db1) = fst (GetChainBalance a db2) \<and>
     fst (GetTotalRewardBalance a db1) = fst (GetTotalRewardBalance a db2) \<and>
     fst (GetTotalAvailableRewardBalance a db1) = fst (GetTotalAvailableRewardBalance a db2) \<and>
     (\<forall>c. fst (GetSideChainDepositBalance c a db1) = fst (GetSideChainDepositBalance c a db2)) \<and>
     fst (GetPubkey a db1) = fst (GetPubkey a db2) \<and>
     fst (GetBanned a db1) = fst (GetBanned a db2) \<and>
     fst (GetBannedTime a db1) = fst (GetBannedTime a db2) \<and>
     fst (GetMinedBlocks a db1) = fst (GetMinedBlocks a db2) \<and>
     fst (IsCandidate a db1) = fst (IsCandidate a db2) \<and>
     fst (GetCommission a db1) = fst (GetCommission a db2) \<and>
     (\<forall>k. fst (GetState a k db1) = fst (GetState a k db2)) \<and>
     (\<forall>k. fst (GetCommittedState a k db1) = fst (GetState a k db2)) \<and>
     (\<forall>u. fst (GetProxiedBalanceByUser a u db1) = fst (GetProxiedBalanceByUser a u db2)) \<and>
     (\<forall>u. fst (GetDepositProxiedBalanceByUser a u db1) = fst (GetDepositProxiedBalanceByUser a u db2)) \<and>
     (\<forall>u. fst (GetPendingRefundBalanceByUser a u db1) = fst (GetPendingRefundBalanceByUser a u db2)) \<and>
     (\<forall>u. fst (GetRewardBalanceByDelegateAddress a u db1) = fst (GetRewardBalanceByDelegateAddress a u db2))"

lemma fst_read:
  "fst (read_object a f d db) = (case peek db a of None \<Rightarrow> d | Some s \<Rightarrow> f s)"
  "fst (read_cached a g d db) = (case peek db a of None \<Rightarrow> d | Some s \<Rightarrow> fst (g s))"
  "peek db a = Some s \<Longrightarrow> fst (read_or_new a h db) = h s"
  by (simp_all add: read_object_def read_cached_def read_or_new_def getStateObject_eq GetOrNewStateObject_def
      live_load peek_not_deleted split_beta split: option.split)

lemma fst_cached:
  "fst (so_GetState k s) = state_read s k"
  "fst (so_GetCommittedState k s) = committed_read s k"
  "fst (apb_field g u s) = (case proxied_read s u of None \<Rightarrow> 0 | Some b \<Rightarrow> g b)"
  "fst (case so_GetDelegateRewardBalance u s of (r, s1) \<Rightarrow> (case r of None \<Rightarrow> 0 | Some b \<Rightarrow> b, s1))
     = reward_or_zero (reward_read s u)"
  by (subst obs_cached_state(1), simp) (subst obs_cached_committed(1), simp,
      unfold apb_field_def, (subst obs_cached_proxied(1), simp),
      (subst obs_cached_reward(1), simp add: reward_or_zero_def))

lemma apb_zero_field:
  "g NewAccountProxiedBalance = 0 \<Longrightarrow>
   (case v of None \<Rightarrow> 0 | Some b \<Rightarrow> g b) = g (apb_or_zero v)"
  by (simp add: apb_or_zero_def split: option.split)

lemma new_object_reads:
  "state_read (newObject a d b) k = (case Root d k of Some v \<Rightarrow> v | None \<Rightarrow> zero_hash)"
  "committed_read (newObject a d b) k = (case Root d k of Some v \<Rightarrow> v | None \<Rightarrow> zero_hash)"
  "proxied_read (newObject a d b) u = map_of (case ProxiedRoot d of None \<Rightarrow> [] | Some t \<Rightarrow> t) u"
  "reward_read (newObject a d b) u = map_of (RewardRoot d) u"
  "so_data (newObject a d b) = d"
  by (simp_all add: newObject_def state_read_def committed_read_def proxied_read_def reward_read_def
      proxiedTrie_def split: option.split)

lemma flushed_same_reads:
  assumes "peek db a = Some s" "peek db' a = Some (newObject a d b)" "flushed s d"
  shows "same_reads a db' db"
proof -
  have f: "get_field f d = get_field f (so_data s)" for f
    using assms(3) by (simp add: flushed_def)
  have fs: "Balance d = Balance (so_data s)" "DepositBalance d = DepositBalance (so_data s)"
      "DelegateBalance d = DelegateBalance (so_data s)" "ProxiedBalance d = ProxiedBalance (so_data s)"
      "DepositProxiedBalance d = DepositProxiedBalance (so_data s)"
      "PendingRefundBalance d = PendingRefundBalance (so_data s)"
      "ChainBalance d = ChainBalance (so_data s)" "RewardBalance d = RewardBalance (so_data s)"
      "AvailableRewardBalance d = AvailableRewardBalance (so_data s)"
    using f [of F_Balance] f [of F_Deposit] f [of F_Delegate] f [of F_Proxied]
      f [of F_DepositProxied] f [of F_PendingRefund] f [of F_Chain] f [of F_Reward]
      f [of F_AvailableReward] by simp_all
  show ?thesis
    using assms(3)
    by (simp add: same_reads_def cached_reads GetBalance_def GetNonce_def GetCodeHash_def
        GetDepositBalance_def GetDelegateBalance_def GetTotalProxiedBalance_def
        GetTotalDepositProxiedBalance_def GetTotalPendingRefundBalance_def IsCandidate_def
        GetCommission_def GetChainBalance_def GetTotalRewardBalance_def
        GetTotalAvailableRewardBalance_def GetSideChainDepositBalance_def GetPubkey_def GetBanned_def
        GetBannedTime_def GetMinedBlocks_def fst_read fst_read(3) [OF assms(1)] fst_read(3) [OF assms(2)]
        assms(1,2) fst_cached new_object_reads fs flushed_def)
      (simp add: apb_zero_field NewAccountProxiedBalance_def)
qed

lemma finalise_outcomes:
  assumes "forward t db"
    and "\<forall>a \<in> set (stateObjectsDirty db). settles del db a"
    and "\<forall>r. sideChainRewardPerBlock db = Some r \<longrightarrow> 0 \<le> r"
  obtains db' where "Finalise del db = Some db'"
    "\<forall>a \<in> set (stateObjectsDirty db). \<exists>s. stateObjects db a = Some s \<and> outcome del s (trie db' a)"
    "\<forall>a. a \<notin> set (stateObjectsDirty db) \<longrightarrow> trie db' a = trie db a"
proof -
  have d: "distinct (stateObjectsDirty db)"
      "\<forall>a \<in> set (stateObjectsDirty db). \<exists>s. stateObjects db a = Some s \<and> coherent s \<and> so_address s = a"
    using forward_caches [OF assms(1)] by (auto simp: caches_ok_def)
  obtain db1 where db1: "fold_opt (finalise_object del) (stateObjectsDirty db) db = Some db1"
      "\<forall>a \<in> set (stateObjectsDirty db). outcome del (the (stateObjects db a)) (trie db1 a)"
      "\<forall>a. a \<notin> set (stateObjectsDirty db) \<longrightarrow> trie db1 a = trie db a"
      "sideChainRewardPerBlock db1 = sideChainRewardPerBlock db"
    using finalise_all [OF d assms(2)] by blast
  obtain db2 where db2: "commit_sets db1 = Some db2" "trie db2 = trie db1"
    using commit_sets_trie [of db1] assms(3) db1(4) by auto
  show ?thesis
  proof (rule that [of "clearJournalAndRefund db2"])
    show "Finalise del db = Some (clearJournalAndRefund db2)"
      by (simp add: Finalise_def db1(1) db2(1))
    show "\<forall>a \<in> set (stateObjectsDirty db).
        \<exists>s. stateObjects db a = Some s \<and> outcome del s (trie (clearJournalAndRefund db2) a)"
      using d(2) db1(2) by (force simp: clearJournalAndRefund_def db2(2))
    show "\<forall>a. a \<notin> set (stateObjectsDirty db) \<longrightarrow> trie (clearJournalAndRefund db2) a = trie db a"
      by (simp add: clearJournalAndRefund_def db2(2) db1(3))
  qed
qed

lemma peek_reopened:
  "peek (NewStateDB (trie_of db')) a = map_option (\<lambda>d. newObject a d True) (trie db' a)"
  by (simp add: peek_def NewStateDB_def trie_of_def)

text \<open>
  C32: Finalising a block persists the accounts.  Take any run of the exported operations without
  reverts from a freshly opened state database, and suppose every dirty account is either removed
  or has balances and dirty delegator and reward entries that the encoder accepts.  Then \<open>Finalise\<close>
  succeeds, and for a database reopened on the resulting trie: a dirty account that existed is gone
  exactly when it was self-destructed or, with deletion of empty objects, empty; otherwise the
  reads of all balances, nonce, code hash, candidate flag, public key, commission, banned flag and
  time, mined blocks, side-chain deposits, storage, and the per-delegator balances and rewards
  return what they returned before; and an account that is not dirty keeps its trie entry.  Not
  covered are the cross-chain marks, which may be lost, the count of delegators and the code
  itself.  Runs with reverts are excluded because a revert may leave a nil delegator entry, on which
  \<open>Finalise\<close> panics; \<open>reverted_delegation_panics\<close> below shows such a run.
\<close>
theorem finalise_persists:
  assumes "forward t db"
    and "\<forall>a \<in> set (stateObjectsDirty db). settles del db a"
    and "\<forall>r. sideChainRewardPerBlock db = Some r \<longrightarrow> 0 \<le> r"
  shows "\<exists>db'. Finalise del db = Some db' \<and>
    (\<forall>a \<in> set (stateObjectsDirty db). fst (Exist a db) \<longrightarrow>
       (let fresh = NewStateDB (trie_of db') in
        if fst (HasSuicided a db) \<or> (del \<and> fst (Empty a db)) then \<not> fst (Exist a fresh)
        else fst (Exist a fresh) \<and> same_reads a fresh db)) \<and>
    (\<forall>a. a \<notin> set (stateObjectsDirty db) \<longrightarrow> trie db' a = trie db a)"
proof -
  obtain db' where db': "Finalise del db = Some db'"
      "\<forall>a \<in> set (stateObjectsDirty db). \<exists>s. stateObjects db a = Some s \<and> outcome del s (trie db' a)"
      "\<forall>a. a \<notin> set (stateObjectsDirty db) \<longrightarrow> trie db' a = trie db a"
    using finalise_outcomes [OF assms] .
  let ?fresh = "NewStateDB (trie_of db')"
  have "if fst (HasSuicided a db) \<or> (del \<and> fst (Empty a db)) then \<not> fst (Exist a ?fresh)
        else fst (Exist a ?fresh) \<and> same_reads a ?fresh db"
    if a: "a \<in> set (stateObjectsDirty db)" "fst (Exist a db)" for a
  proof -
    obtain s where s: "stateObjects db a = Some s" "outcome del s (trie db' a)"
      using db'(2) a(1) by blast
    then have p: "peek db a = Some s"
      using a(2) by (auto simp: Exist_def fst_read peek_def split: if_splits)
    show ?thesis
    proof (cases "removed del s")
      case True
      then show ?thesis
        using s(2)
        by (auto simp: HasSuicided_def Empty_def Exist_def fst_read p peek_reopened removed_def outcome_def)
    next
      case False
      then obtain dd where dd: "trie db' a = Some dd" "flushed s dd"
        using s(2) by (auto simp: outcome_def)
      have "same_reads a ?fresh db"
        by (rule flushed_same_reads [OF p _ dd(2)]) (simp add: peek_reopened dd(1))
      then show ?thesis
        using False
        by (simp add: HasSuicided_def Empty_def Exist_def fst_read p peek_reopened removed_def dd(1))
    qed
  qed
  then show ?thesis
    using db'(1,3) by (auto simp: Let_def)
qed

theorem finalise_persists_witness:
  "let db = AddProxiedBalanceByUser [1] [3] 40 (SubBalance [1] 40 (NewStateDB sample_trie)) in
   \<exists>db'. Finalise True db = Some db' \<and> fst (Exist [1] (NewStateDB (trie_of db'))) \<and>
     fst (GetBalance [1] (NewStateDB (trie_of db'))) = 60 \<and>
     fst (GetProxiedBalanceByUser [1] [3] (NewStateDB (trie_of db'))) = 40"
proof -
  let ?db = "AddProxiedBalanceByUser [1] [3] 40 (SubBalance [1] 40 (NewStateDB sample_trie))"
  have fw: "forward sample_trie ?db"
    by (rule forward.op [where f = "AddProxiedBalanceByUser [1] [3] 40"],
        rule forward.op [where f = "SubBalance [1] 40"], rule forward.open_db) (rule api_op.intros)+
  have dirty: "stateObjectsDirty ?db = [[1]]"
    by code_simp
  have obj: "(case stateObjects ?db [1] of None \<Rightarrow> False
      | Some s \<Rightarrow> dirtyProxied s = [([3], Some \<lparr>apb_ProxiedBalance = 40, apb_DepositProxiedBalance = 0,
          apb_PendingRefundBalance = 0\<rparr>)] \<and> dirtyReward s = [] \<and> account_encodes (so_data s))"
    by code_simp
  have none: "sideChainRewardPerBlock ?db = None"
    by code_simp
  have st: "settles True ?db [1]"
    using obj by (auto simp: settles_def storable_def apb_encodes_def split: option.splits)
  have pre: "fst (Exist [1] ?db)" "\<not> fst (HasSuicided [1] ?db)" "\<not> fst (Empty [1] ?db)"
      "fst (GetBalance [1] ?db) = 60" "fst (GetProxiedBalanceByUser [1] [3] ?db) = 40"
    by code_simp+
  show ?thesis
    using finalise_persists [OF fw, of True] dirty st none pre
    by (auto simp: Let_def same_reads_def)
qed

subsection \<open>Reverts and finalising\<close>

lemma fold_opt_None: "x \<in> set xs \<Longrightarrow> (\<And>s. f x s = None) \<Longrightarrow> fold_opt f xs s = None"
  by (induction xs arbitrary: s) (auto split: option.split)

lemma nil_entry_panics: "(u, None) \<in> set (dirtyProxied obj) \<Longrightarrow> update_roots obj = None"
  by (subst update_roots_def, subst updateProxiedTrie_def, subst fold_opt_None [of "(u, None)"])
    (auto simp: flush_proxied_def apb_Equal_def updateTrie_def updateTX1Trie_def updateTX3Trie_def Let_def
      split: option.split)

text \<open>The database after the first delegation of a user to an account is undone.\<close>

lemma reverted_entry:
  assumes "st_trie t a = Some d" and "map_of (case ProxiedRoot d of None \<Rightarrow> [] | Some p \<Rightarrow> p) u = None"
    and "x \<noteq> 0"
  defines "db \<equiv> NewStateDB t"
  shows "case RevertToSnapshot (fst (Snapshot db)) (AddProxiedBalanceByUser a u x (snd (Snapshot db))) of
      None \<Rightarrow> False
    | Some db' \<Rightarrow> stateObjectsDirty db' = [a] \<and>
        (case stateObjects db' a of None \<Rightarrow> False
         | Some obj \<Rightarrow> dirtyProxied obj = [(u, None)] \<and> so_data obj = d \<and> \<not> suicided obj)"
proof -
  have search: "sort_search (\<lambda>i. 0 \<le> fst ([(0 :: int, 0 :: nat)] ! i)) 0 (Suc 0) = 0"
    by (simp add: sort_search.simps Let_def)
  show ?thesis
    by (simp add: db_def NewStateDB_def Snapshot_def Let_def AddProxiedBalanceByUser_def GetOrNewStateObject_def
        getStateObject_def setStateObject_def assms(1-3) change_apb_def so_SetAccountProxiedBalance_def
        setAccountProxiedBalance_def so_GetAccountProxiedBalance_def modify_object_def write_object_def push_def
        so_AddProxiedBalance_def Add_balance_def Set_balance_def set_balance_def newObject_def proxiedTrie_def
        MarkStateObjectDirty_def RevertToSnapshot_def search on_object_def)
qed

text \<open>
  Undoing the first delegation of a user to an account leaves a nil entry among the dirty delegator
  entries of the account, and \<open>Finalise\<close> panics on it.
\<close>

theorem reverted_delegation_panics:
  assumes "st_trie t a = Some d" and "map_of (case ProxiedRoot d of None \<Rightarrow> [] | Some p \<Rightarrow> p) u = None"
    and "x \<noteq> 0" and "\<not> (del \<and> so_empty (newObject a d True))"
  defines "db \<equiv> NewStateDB t"
  shows "\<exists>db'. RevertToSnapshot (fst (Snapshot db)) (AddProxiedBalanceByUser a u x (snd (Snapshot db))) = Some db' \<and>
    Finalise del db' = None"
proof -
  obtain db' obj where r: "RevertToSnapshot (fst (Snapshot db)) (AddProxiedBalanceByUser a u x (snd (Snapshot db))) = Some db'"
    "stateObjectsDirty db' = [a]" "stateObjects db' a = Some obj" "dirtyProxied obj = [(u, None)]"
    "so_data obj = d" "\<not> suicided obj"
    using reverted_entry [OF assms(1-3)] unfolding db_def by (auto split: option.splits)
  have "update_roots obj = None" by (rule nil_entry_panics [of u]) (simp add: r(4))
  moreover have "so_empty obj = so_empty (newObject a d True)"
    by (simp add: so_empty_def r(5) Let_def)
  ultimately have "Finalise del db' = None"
    using r(2,3,6) assms(4) by (auto simp: Finalise_def finalise_object_def)
  then show ?thesis using r(1) by blast
qed
subsection \<open>Cross-chain marks\<close>

text \<open>
  C33: The marks against replaying a cross-chain transaction can be lost.  Take a run as
  above and a transaction hash marked with \<open>AddTX1\<close> in an account.  After \<open>Finalise\<close> and
  reopening the database, \<open>HasTX1\<close> finds the mark again only in these cases: the account was
  dirty for another reason, was not removed, and the hash has no leading zero byte (the
  stored value is the trimmed hash, which is compared with the full one); or the account was
  not dirty and the mark was in the trie already.  \<open>AddTX1\<close> does not make its account
  dirty.
\<close>
theorem cross_chain_mark_persists:
  assumes "forward t db"
    and "\<forall>a \<in> set (stateObjectsDirty db). settles del db a"
    and "\<forall>r. sideChainRewardPerBlock db = Some r \<longrightarrow> 0 \<le> r"
    and "stateObjects db a = Some s" "h \<in> dirtyTX1 s"
  shows "\<exists>db'. Finalise del db = Some db' \<and>
    (fst (HasTX1 a h (NewStateDB (trie_of db'))) \<longleftrightarrow>
       (if a \<in> set (stateObjectsDirty db) then \<not> suicided s \<and> \<not> (del \<and> so_empty s) \<and> trim_zeros h = h
        else case trie db a of None \<Rightarrow> False | Some d \<Rightarrow> TX1Root d h = Some h))"
proof -
  obtain db' where db': "Finalise del db = Some db'"
      "\<forall>a \<in> set (stateObjectsDirty db). \<exists>s. stateObjects db a = Some s \<and> outcome del s (trie db' a)"
      "\<forall>a. a \<notin> set (stateObjectsDirty db) \<longrightarrow> trie db' a = trie db a"
    using finalise_outcomes [OF assms(1-3)] .
  let ?fresh = "NewStateDB (trie_of db')"
  have has: "fst (HasTX1 a h ?fresh) \<longleftrightarrow>
      (case trie db' a of None \<Rightarrow> False | Some d \<Rightarrow> TX1Root d h = Some h)"
    by (auto simp: HasTX1_def fst_read peek_reopened so_HasTX1_def newObject_def split: option.split)
  show ?thesis
  proof (cases "a \<in> set (stateObjectsDirty db)")
    case True
    then have "outcome del s (trie db' a)"
      using db'(2) assms(4) by auto
    then show ?thesis
      using True db'(1) has assms(5)
      by (auto simp: outcome_def removed_def flushed_def split: if_splits)
  next
    case False
    then show ?thesis
      using db'(1,3) has by auto
  qed
qed

theorem cross_chain_mark_persists_witness:
  "let db = AddTX1 [1] [7, 0] (NewStateDB sample_trie); db2 = AddTX1 [1] [0, 7] (AddBalance [1] 1 (NewStateDB sample_trie)) in
   fst (HasTX1 [1] [7, 0] db) \<and> fst (HasTX1 [1] [0, 7] db2) \<and>
   (\<exists>db'. Finalise True db = Some db' \<and> \<not> fst (HasTX1 [1] [7, 0] (NewStateDB (trie_of db')))) \<and>
   (\<exists>db'. Finalise True db2 = Some db' \<and> \<not> fst (HasTX1 [1] [0, 7] (NewStateDB (trie_of db'))))"
proof -
  let ?db = "AddTX1 [1] [7, 0] (NewStateDB sample_trie)"
  let ?d2 = "AddTX1 [1] [0, 7] (AddBalance [1] 1 (NewStateDB sample_trie))"
  have "forward sample_trie ?db"
    by (rule forward.tx1, rule forward.open_db)
  moreover have "stateObjectsDirty ?db = []" "sideChainRewardPerBlock ?db = None" "trie ?db [1] \<noteq> None"
      "TX1Root (the (trie ?db [1])) [7, 0] = None"
    by code_simp+
  moreover have "case stateObjects ?db [1] of None \<Rightarrow> False | Some s \<Rightarrow> [7, 0] \<in> dirtyTX1 s"
    by code_simp
  ultimately have 1: "\<exists>db'. Finalise True ?db = Some db' \<and> \<not> fst (HasTX1 [1] [7, 0] (NewStateDB (trie_of db')))"
    using cross_chain_mark_persists [of sample_trie ?db True "[1]" _ "[7, 0]"]
    by (auto split: option.splits)
  have "forward sample_trie ?d2"
    by (rule forward.tx1, rule forward.op [where f = "AddBalance [1] 1"], rule forward.open_db, rule api_op.intros)
  moreover have d2: "stateObjectsDirty ?d2 = [[1]]" "sideChainRewardPerBlock ?d2 = None"
      "trim_zeros [0, 7] \<noteq> [0, 7]"
    by code_simp+
  moreover have o: "case stateObjects ?d2 [1] of None \<Rightarrow> False | Some s \<Rightarrow> [0, 7] \<in> dirtyTX1 s \<and>
      dirtyProxied s = [] \<and> dirtyReward s = [] \<and> account_encodes (so_data s)"
    by code_simp
  moreover have "settles True ?d2 [1]"
    using o by (auto simp: settles_def storable_def split: option.splits)
  ultimately have 2: "\<exists>db'. Finalise True ?d2 = Some db' \<and> \<not> fst (HasTX1 [1] [0, 7] (NewStateDB (trie_of db')))"
    using cross_chain_mark_persists [of sample_trie ?d2 True "[1]" _ "[0, 7]"]
    by (auto split: option.splits)
  have "fst (HasTX1 [1] [7, 0] ?db)" "fst (HasTX1 [1] [0, 7] ?d2)"
    by code_simp+
  with 1 2 show ?thesis
    by (simp add: Let_def)
qed

end
