(* ===== verification/Ledger.thy ===== *)
theory Ledger
  imports StateFinal
begin

section \<open>The account ledger\<close>

text \<open>
  An abstract specification of the state database as the staking code uses it: a total
  function from addresses to the balances, the per-delegator entries, the rewards and the
  candidacy data of the account, an absent account being an account of zeros.  Every
  operation of the database used by the staking code is shown to implement a pure update
  of the ledger (the predicate \<open>refines\<close>), keeping the caches coherent and every live
  object live; \<open>ForEachProxied\<close> implements a fold over the delegators stored in the trie.
\<close>

subsection \<open>The abstraction\<close>

record ledger_account =
  la_field :: "balance_field \<Rightarrow> int"
  la_apb :: "address \<Rightarrow> accountProxiedBalance"
  la_reward :: "address \<Rightarrow> int"
  la_candidate :: bool
  la_commission :: "8 word"
  la_pubkey :: string
  la_banned :: bool
  la_bannedTime :: int
  la_mined :: int
  la_trie :: proxied_trie

type_synonym ledger = "address \<Rightarrow> ledger_account"

definition acct :: "state_object \<Rightarrow> ledger_account" where
  "acct s =
     \<lparr>la_field = (\<lambda>f. get_field f (so_data s)),
      la_apb = (\<lambda>u. apb_or_zero (proxied_read s u)),
      la_reward = (\<lambda>u. reward_or_zero (reward_read s u)),
      la_candidate = Candidate (so_data s), la_commission = Commission (so_data s),
      la_pubkey = Pubkey (so_data s), la_banned = IsBanned (so_data s),
      la_bannedTime = BannedTime (so_data s), la_mined = BlockTime (so_data s),
      la_trie = proxiedTrie s\<rparr>"

definition empty_acct :: ledger_account where
  "empty_acct =
     \<lparr>la_field = (\<lambda>f. 0), la_apb = (\<lambda>u. NewAccountProxiedBalance), la_reward = (\<lambda>u. 0),
      la_candidate = False, la_commission = 0, la_pubkey = '''', la_banned = False,
      la_bannedTime = 0, la_mined = 0, la_trie = []\<rparr>"

definition ledger :: "statedb \<Rightarrow> ledger" where
  "ledger db a = (case peek db a of None \<Rightarrow> empty_acct | Some s \<Rightarrow> acct s)"

lemma acct_new: "acct (newObject a new_account b) = empty_acct"
proof -
  have "get_field f new_account = 0" for f
    by (cases f) (simp_all add: new_account_def)
  then show ?thesis
    by (simp add: acct_def empty_acct_def new_object_reads fun_eq_iff proxiedTrie_def apb_or_zero_def
        reward_or_zero_def) (simp add: new_account_def)
qed

lemma acct_obs: "obs cdb s = obs cdb s' \<Longrightarrow> acct s = acct s'"
proof -
  define F where "F d p r =
     \<lparr>la_field = (\<lambda>f. get_field f d), la_apb = (\<lambda>u. apb_or_zero (p u)),
      la_reward = (\<lambda>u. reward_or_zero (r u)), la_candidate = Candidate d, la_commission = Commission d,
      la_pubkey = Pubkey d, la_banned = IsBanned d, la_bannedTime = BannedTime d, la_mined = BlockTime d,
      la_trie = (case ProxiedRoot d of None \<Rightarrow> [] | Some t \<Rightarrow> t)\<rparr>" for d p r
  have "get_field f (plain_data d) = get_field f d" for f d
    by (cases f) (simp_all add: plain_data_def)
  then have "acct s = F (plain_data (so_data s)) (proxied_read s) (reward_read s)" for s
    unfolding acct_def F_def by (simp add: plain_data_def proxiedTrie_def)
  moreover assume "obs cdb s = obs cdb s'"
  ultimately show ?thesis
    by (simp add: obs_def)
qed

subsection \<open>Objects and caches\<close>

lemma ledger_push [simp]: "ledger (push e db) = ledger db"
  by (simp add: ledger_def peek_def push_def fun_eq_iff cong: option.case_cong)

lemma ledger_load [simp]: "ledger (load a db) = ledger db"
  by (simp add: ledger_def fun_eq_iff)

lemma ledger_write:
  assumes "stateObjects db a = Some s" "\<not> deleted s" "\<not> deleted (f s)" "acct (f s) = g (acct s)"
  shows "ledger (write_object a f db) = (ledger db)(a := g (ledger db a))"
    "ledger (modify_object a f db) = (ledger db)(a := g (ledger db a))"
proof -
  have t: "trie (write_object a f db) = trie db" "trie (modify_object a f db) = trie db"
    using same_rest_write [of db a f] same_rest_modify [of db a f] by (simp_all add: same_rest_def)
  have d: "acct ((f s)\<lparr>onDirty := False\<rparr>) = acct (f s)"
    by (rule acct_obs [where cdb = Map.empty]) simp
  have "peek (write_object a f db) = (peek db)(a \<mapsto> (f s)\<lparr>onDirty := False\<rparr>)"
    by (rule peek_upd) (simp_all add: stateObjects_write assms t)
  then show "ledger (write_object a f db) = (ledger db)(a := g (ledger db a))"
    by (simp add: ledger_def fun_eq_iff d assms peek_live [OF assms(1,2)])
  have "peek (modify_object a f db) = (peek db)(a \<mapsto> f s)"
    by (rule peek_upd) (simp_all add: stateObjects_modify assms t)
  then show "ledger (modify_object a f db) = (ledger db)(a := g (ledger db a))"
    by (simp add: ledger_def fun_eq_iff assms peek_live [OF assms(1,2)])
qed

lemma ledger_live: "stateObjects db a = Some s \<Longrightarrow> \<not> deleted s \<Longrightarrow> ledger db a = acct s"
  unfolding ledger_def by (drule (1) peek_live) (simp only: option.case)

lemma live_objects:
  assumes "live b db" "stateObjects db' = (stateObjects db)(a \<mapsto> s')" "a = b \<longrightarrow> \<not> deleted s'"
  shows "live b db'"
  using assms by (cases "a = b") (auto simp: live_def)

lemma live_any_write:
  assumes "live b db" "\<forall>s. deleted (f s) = deleted s"
  shows "live b (write_object a f db)" "live b (modify_object a f db)"
proof -
  obtain sb where sb: "stateObjects db b = Some sb" "\<not> deleted sb"
    using assms(1) by (rule liveE)
  have d: "deleted (f s) = deleted s" for s
    using assms(2) by blast
  show "live b (write_object a f db)" "live b (modify_object a f db)"
    unfolding live_def stateObjects_write stateObjects_modify
    by (cases "a = b"; cases "stateObjects db a"; simp add: sb d)+
qed

lemma live_load': "live b db \<Longrightarrow> live b (load a db)"
  by (rule load_cases [of a db]) (simp, rule live_objects [where s' = "newObject a _ True"], simp_all)

lemma live_create:
  assumes "live b db"
  shows "live b (setStateObject (newObject a new_account False) (push e (MarkStateObjectDirty a db)))"
  by (rule live_objects [OF assms, of _ a "newObject a new_account False"]) (simp_all add: setStateObject_def MarkStateObjectDirty_def)

lemma live_keeps_GetOrNew:
  assumes "live b db"
  shows "live b (GetOrNewStateObject a db)"
proof (cases "peek db a")
  case None
  then show ?thesis
    by (simp add: GetOrNewStateObject_def getStateObject_eq createObject_eq live_create live_load' assms)
next
  case (Some s)
  then show ?thesis
    using peek_not_deleted [OF Some] by (simp add: GetOrNewStateObject_def getStateObject_eq live_load' assms)
qed

lemma live_GetOrNew: "live a (GetOrNewStateObject a db)"
proof (cases "peek db a")
  case None
  then show ?thesis
    by (simp add: GetOrNewStateObject_def getStateObject_eq createObject_eq live_def setStateObject_def)
next
  case (Some s)
  then show ?thesis
    using live_load [OF Some] peek_not_deleted [OF Some]
    by (auto simp: GetOrNewStateObject_def getStateObject_eq live_def)
qed

lemma ledger_GetOrNew [simp]: "ledger (GetOrNewStateObject a db) = ledger db"
proof (cases "peek db a")
  case None
  have "peek (snd (createObject a (load a db))) =
      (peek (load a (load a db)))(a \<mapsto> newObject a new_account False)"
    by (rule peek_upd) (simp_all add: createObject_eq setStateObject_def push_def MarkStateObjectDirty_def)
  with None show ?thesis
    by (simp add: GetOrNewStateObject_def getStateObject_eq ledger_def fun_eq_iff acct_new)
next
  case (Some s)
  then show ?thesis
    using peek_not_deleted [OF Some] by (simp add: GetOrNewStateObject_def getStateObject_eq)
qed

subsection \<open>Refinement\<close>

definition refines :: "(statedb \<Rightarrow> statedb) \<Rightarrow> (ledger \<Rightarrow> ledger) \<Rightarrow> bool" where
  "refines D G \<longleftrightarrow> (\<forall>db. caches_ok db \<longrightarrow> caches_ok (D db) \<and> ledger (D db) = G (ledger db) \<and>
     (\<forall>a. live a db \<longrightarrow> live a (D db)))"

lemma refinesD:
  assumes "refines D G" "caches_ok db"
  shows "caches_ok (D db)" "ledger (D db) = G (ledger db)" "live a db \<Longrightarrow> live a (D db)"
  using assms by (auto simp: refines_def)

lemma refines_comp: "refines D G \<Longrightarrow> refines D' G' \<Longrightarrow> refines (\<lambda>db. D' (D db)) (\<lambda>L. G' (G L))"
  by (simp add: refines_def)

definition add_field :: "balance_field \<Rightarrow> address \<Rightarrow> int \<Rightarrow> ledger \<Rightarrow> ledger" where
  "add_field f a x L = L(a := (L a)\<lparr>la_field := (la_field (L a))(f := la_field (L a) f + x)\<rparr>)"

definition upd_apb :: "address \<Rightarrow> address \<Rightarrow> (accountProxiedBalance \<Rightarrow> accountProxiedBalance) \<Rightarrow>
    ledger \<Rightarrow> ledger" where
  "upd_apb c u g L = L(c := (L c)\<lparr>la_apb := (la_apb (L c))(u := g (la_apb (L c) u))\<rparr>)"

definition add_reward :: "address \<Rightarrow> address \<Rightarrow> int \<Rightarrow> ledger \<Rightarrow> ledger" where
  "add_reward a k x L = L(a := (L a)\<lparr>la_reward := (la_reward (L a))(k := la_reward (L a) k + x)\<rparr>)"

lemma acct_field:
  "acct (s\<lparr>so_data := put_field f x (so_data s)\<rparr>) = (acct s)\<lparr>la_field := (la_field (acct s))(f := x)\<rparr>"
proof -
  have "get_field g (put_field f x d) = (if g = f then x else get_field g d)" for g d
    by (cases f; cases g) simp_all
  moreover have "ProxiedRoot (put_field f x d) = ProxiedRoot d" "RewardRoot (put_field f x d) = RewardRoot d"
      "Candidate (put_field f x d) = Candidate d" "Commission (put_field f x d) = Commission d"
      "Pubkey (put_field f x d) = Pubkey d" "IsBanned (put_field f x d) = IsBanned d"
      "BannedTime (put_field f x d) = BannedTime d" "BlockTime (put_field f x d) = BlockTime d" for d
    by (cases f; simp)+
  ultimately show ?thesis
    by (simp add: acct_def fun_eq_iff proxied_read_def reward_read_def proxiedTrie_def cong: option.case_cong)
qed

lemma acct_data:
  "acct (s\<lparr>so_data := so_data s\<lparr>Candidate := b\<rparr>\<rparr>) = (acct s)\<lparr>la_candidate := b\<rparr>"
  "acct (s\<lparr>so_data := so_data s\<lparr>Commission := c\<rparr>\<rparr>) = (acct s)\<lparr>la_commission := c\<rparr>"
  "acct (s\<lparr>so_data := so_data s\<lparr>Pubkey := p\<rparr>\<rparr>) = (acct s)\<lparr>la_pubkey := p\<rparr>"
  "acct (s\<lparr>so_data := so_data s\<lparr>IsBanned := b\<rparr>\<rparr>) = (acct s)\<lparr>la_banned := b\<rparr>"
  "acct (s\<lparr>so_data := so_data s\<lparr>BannedTime := x\<rparr>\<rparr>) = (acct s)\<lparr>la_bannedTime := x\<rparr>"
  "acct (s\<lparr>so_data := so_data s\<lparr>BlockTime := x\<rparr>\<rparr>) = (acct s)\<lparr>la_mined := x\<rparr>"
proof -
  have "get_field f (d\<lparr>Candidate := b\<rparr>) = get_field f d" "get_field f (d\<lparr>Commission := c\<rparr>) = get_field f d"
      "get_field f (d\<lparr>Pubkey := p\<rparr>) = get_field f d" "get_field f (d\<lparr>IsBanned := b\<rparr>) = get_field f d"
      "get_field f (d\<lparr>BannedTime := x\<rparr>) = get_field f d" "get_field f (d\<lparr>BlockTime := x\<rparr>) = get_field f d" for f d
    by (cases f; simp)+
  then show
    "acct (s\<lparr>so_data := so_data s\<lparr>Candidate := b\<rparr>\<rparr>) = (acct s)\<lparr>la_candidate := b\<rparr>"
    "acct (s\<lparr>so_data := so_data s\<lparr>Commission := c\<rparr>\<rparr>) = (acct s)\<lparr>la_commission := c\<rparr>"
    "acct (s\<lparr>so_data := so_data s\<lparr>Pubkey := p\<rparr>\<rparr>) = (acct s)\<lparr>la_pubkey := p\<rparr>"
    "acct (s\<lparr>so_data := so_data s\<lparr>IsBanned := b\<rparr>\<rparr>) = (acct s)\<lparr>la_banned := b\<rparr>"
    "acct (s\<lparr>so_data := so_data s\<lparr>BannedTime := x\<rparr>\<rparr>) = (acct s)\<lparr>la_bannedTime := x\<rparr>"
    "acct (s\<lparr>so_data := so_data s\<lparr>BlockTime := x\<rparr>\<rparr>) = (acct s)\<lparr>la_mined := x\<rparr>"
    by (simp_all add: acct_def fun_eq_iff proxied_read_def reward_read_def proxiedTrie_def cong: option.case_cong)
qed

lemma acct_entries:
  "acct (s\<lparr>dirtyProxied := AList.update u (Some b) (dirtyProxied s)\<rparr>) =
     (acct s)\<lparr>la_apb := (la_apb (acct s))(u := b)\<rparr>"
  "acct (s\<lparr>dirtyReward := AList.update u (Some x) (dirtyReward s)\<rparr>) =
     (acct s)\<lparr>la_reward := (la_reward (acct s))(u := x)\<rparr>"
  by (simp_all add: acct_def fun_eq_iff proxied_read_def reward_read_def proxiedTrie_def update_conv
      cong: option.case_cong)

subsection \<open>The operations on live objects\<close>

text \<open>What an object method does to the ledger, to the other live objects and to the caches.\<close>

definition acts :: "address \<Rightarrow> (statedb \<Rightarrow> statedb) \<Rightarrow> (ledger \<Rightarrow> ledger) \<Rightarrow> bool" where
  "acts a D G \<longleftrightarrow> (\<forall>db. live a db \<longrightarrow> caches_ok db \<longrightarrow> caches_ok (D db) \<and> ledger (D db) = G (ledger db) \<and>
     (\<forall>b. live b db \<longrightarrow> live b (D db)))"

lemma actsI:
  assumes "\<And>db s. caches_ok db \<Longrightarrow> stateObjects db a = Some s \<Longrightarrow> \<not> deleted s \<Longrightarrow>
      caches_ok (D db) \<and> ledger (D db) = G (ledger db) \<and> (\<forall>b. live b db \<longrightarrow> live b (D db))"
  shows "acts a D G"
  unfolding acts_def using assms by (metis liveE)

lemma acts_new:
  assumes "acts a D G"
  shows "refines (\<lambda>db. D (GetOrNewStateObject a db)) G"
  unfolding refines_def
proof (intro allI impI)
  fix db assume "caches_ok db"
  then show "caches_ok (D (GetOrNewStateObject a db)) \<and>
      ledger (D (GetOrNewStateObject a db)) = G (ledger db) \<and>
      (\<forall>b. live b db \<longrightarrow> live b (D (GetOrNewStateObject a db)))"
    using assms caches_GetOrNew [of db a] live_GetOrNew [of a db]
    by (simp add: acts_def live_keeps_GetOrNew)
qed

lemma acts_comp: "acts a D G \<Longrightarrow> acts a D' G' \<Longrightarrow> acts a (\<lambda>db. D' (D db)) (\<lambda>L. G' (G L))"
  by (simp add: acts_def)

lemma acts_write:
  assumes "keeps f" "\<forall>s. deleted (f s) = deleted s" "\<forall>s. acct (f s) = g (acct s)"
  shows "acts a (\<lambda>db. write_object a f (push (e db) db)) (\<lambda>L. L(a := g (L a)))"
proof (rule actsI, intro conjI allI impI)
  fix db s assume c: "caches_ok db" and s: "stateObjects db a = Some s" "\<not> deleted s"
  show "caches_ok (write_object a f (push (e db) db))"
    using assms(1) c by (simp add: caches_write)
  have "ledger (write_object a f (push (e db) db)) = (ledger (push (e db) db))(a := g (ledger (push (e db) db) a))"
    by (rule ledger_write(1) [where s = s]) (use assms s in simp_all)
  then show "ledger (write_object a f (push (e db) db)) = (ledger db)(a := g (ledger db a))"
    by simp
  show "live b (write_object a f (push (e db) db))" if "live b db" for b
    by (rule live_any_write) (use assms(2) that in simp_all)
qed

lemma acts_Set_balance:
  "acts a (Set_balance f a x) (\<lambda>L. L(a := (L a)\<lparr>la_field := (la_field (L a))(f := x)\<rparr>))"
proof -
  have "acts a (\<lambda>db. write_object a (\<lambda>s. s\<lparr>so_data := put_field f x (so_data s)\<rparr>)
      (push (field_change f a (get_field f (so_data (the (stateObjects db a))))) db))
      (\<lambda>L. L(a := (L a)\<lparr>la_field := (la_field (L a))(f := x)\<rparr>))"
    by (rule acts_write [where g = "\<lambda>A. A\<lparr>la_field := (la_field A)(f := x)\<rparr>"])
      (simp_all add: keeps_setters acct_field)
  then show ?thesis
    by (auto simp: acts_def Set_balance_def set_balance_def live_def)
qed

lemma acts_touch: "acts a (touch a) (\<lambda>L. L)"
proof -
  have "acct (s\<lparr>touched := True\<rparr>) = acct s" for s
    by (rule acct_obs [where cdb = Map.empty]) (simp add: tracksD(3) [OF tracks_flags(2)])
  then have "acts a (\<lambda>db. write_object a (\<lambda>obj. obj\<lparr>touched := True\<rparr>)
      (push (touchChange a (touched (the (stateObjects db a))) (\<not> onDirty (the (stateObjects db a)))) db))
      (\<lambda>L. L(a := L a))"
    by (intro acts_write) (simp_all add: keeps_setters)
  then show ?thesis
    by (auto simp: acts_def touch_def live_def)
qed

lemma acts_Add_balance: "acts a (Add_balance f a x) (add_field f a x)"
proof (rule actsI)
  fix db s assume c: "caches_ok db" and s: "stateObjects db a = Some s" "\<not> deleted s"
  have l: "live a db"
    using s by (simp add: live_def)
  have e: "la_field (ledger db a) f = get_field f (so_data s)"
    using ledger_live [OF s] by (simp add: acct_def)
  have z: "add_field f a 0 (ledger db) = ledger db"
    by (simp add: add_field_def)
  show "caches_ok (Add_balance f a x db) \<and> ledger (Add_balance f a x db) = add_field f a x (ledger db) \<and>
      (\<forall>b. live b db \<longrightarrow> live b (Add_balance f a x db))"
    using acts_Set_balance [of a f "get_field f (so_data s) + x"] acts_touch [of a] c l
    by (auto simp: Add_balance_def s(1) acts_def z) (simp add: add_field_def e)
qed

lemma acts_Sub_balance: "acts a (Sub_balance f a x) (add_field f a (- x))"
proof (rule actsI)
  fix db s assume c: "caches_ok db" and s: "stateObjects db a = Some s" "\<not> deleted s"
  have l: "live a db"
    using s by (simp add: live_def)
  have e: "la_field (ledger db a) f = get_field f (so_data s)"
    using ledger_live [OF s] by (simp add: acct_def)
  have z: "add_field f a 0 (ledger db) = ledger db"
    by (simp add: add_field_def)
  show "caches_ok (Sub_balance f a x db) \<and> ledger (Sub_balance f a x db) = add_field f a (- x) (ledger db) \<and>
      (\<forall>b. live b db \<longrightarrow> live b (Sub_balance f a x db))"
    using acts_Set_balance [of a f "get_field f (so_data s) - x"] c l
    by (auto simp: Sub_balance_def s(1) acts_def z) (simp add: add_field_def e)
qed

lemma acts_data:
  "acts a (so_SetCandidate a b) (\<lambda>L. L(a := (L a)\<lparr>la_candidate := b\<rparr>))"
  "acts a (so_SetCommission a c) (\<lambda>L. L(a := (L a)\<lparr>la_commission := c\<rparr>))"
  "acts a (so_SetPubkey a p) (\<lambda>L. L(a := (L a)\<lparr>la_pubkey := p\<rparr>))"
  "acts a (so_SetBanned a b) (\<lambda>L. L(a := (L a)\<lparr>la_banned := b\<rparr>))"
  "acts a (so_SetBannedTime a x) (\<lambda>L. L(a := (L a)\<lparr>la_bannedTime := x\<rparr>))"
  "acts a (so_SetBlockTime a x) (\<lambda>L. L(a := (L a)\<lparr>la_mined := x\<rparr>))"
proof -
  have w: "acts a (\<lambda>db. write_object a f (push (e (the (stateObjects db a))) db)) (\<lambda>L. L(a := g (L a)))"
    if "keeps f" "\<forall>s. deleted (f s) = deleted s" "\<forall>s. acct (f s) = g (acct s)" for f g e
    using acts_write [OF that, of a "\<lambda>db. e (the (stateObjects db a))"] .
  show "acts a (so_SetCandidate a b) (\<lambda>L. L(a := (L a)\<lparr>la_candidate := b\<rparr>))"
    using w [OF keeps_setters(3) [of b], of "\<lambda>A. A\<lparr>la_candidate := b\<rparr>" "\<lambda>s. candidateChange a (Candidate (so_data s))"]
    by (auto simp: acts_def so_SetCandidate_def setCandidate_def live_def acct_data)
  show "acts a (so_SetCommission a c) (\<lambda>L. L(a := (L a)\<lparr>la_commission := c\<rparr>))"
    using w [OF keeps_setters(5) [of c], of "\<lambda>A. A\<lparr>la_commission := c\<rparr>" "\<lambda>s. commissionChange a (Commission (so_data s))"]
    by (auto simp: acts_def so_SetCommission_def setCommission_def live_def acct_data)
  show "acts a (so_SetPubkey a p) (\<lambda>L. L(a := (L a)\<lparr>la_pubkey := p\<rparr>))"
    using w [OF keeps_setters(4) [of p], of "\<lambda>A. A\<lparr>la_pubkey := p\<rparr>" "\<lambda>s. pubkeyChange a (Pubkey (so_data s))"]
    by (auto simp: acts_def so_SetPubkey_def setPubkey_def live_def acct_data)
  show "acts a (so_SetBanned a b) (\<lambda>L. L(a := (L a)\<lparr>la_banned := b\<rparr>))"
    using w [OF keeps_setters(6) [of b], of "\<lambda>A. A\<lparr>la_banned := b\<rparr>" "\<lambda>s. bannedChange a (IsBanned (so_data s))"]
    by (auto simp: acts_def so_SetBanned_def setBanned_def live_def acct_data)
  show "acts a (so_SetBannedTime a x) (\<lambda>L. L(a := (L a)\<lparr>la_bannedTime := x\<rparr>))"
    using w [OF keeps_setters(8) [of x], of "\<lambda>A. A\<lparr>la_bannedTime := x\<rparr>" "\<lambda>s. bannedTimeChange a (BannedTime (so_data s))"]
    by (auto simp: acts_def so_SetBannedTime_def setBannedTime_def live_def acct_data)
  show "acts a (so_SetBlockTime a x) (\<lambda>L. L(a := (L a)\<lparr>la_mined := x\<rparr>))"
    using w [OF keeps_setters(7) [of x], of "\<lambda>A. A\<lparr>la_mined := x\<rparr>" "\<lambda>s. blockTimeChange a (BlockTime (so_data s))"]
    by (auto simp: acts_def so_SetBlockTime_def setBlockTime_def live_def acct_data)
qed

text \<open>Caching an entry changes nothing in the ledger.\<close>

lemma cached_silent:
  assumes "caches_ok db" "stateObjects db a = Some s" "\<not> deleted s"
    and "coherent s'" "obs Map.empty s' = obs Map.empty s" "deleted s' = deleted s" "so_address s' = so_address s"
  shows "caches_ok (modify_object a (\<lambda>_. s') db)" "ledger (modify_object a (\<lambda>_. s') db) = ledger db"
    "live b db \<Longrightarrow> live b (modify_object a (\<lambda>_. s') db)"
    "stateObjects (modify_object a (\<lambda>_. s') db) a = Some s'"
proof -
  show "caches_ok (modify_object a (\<lambda>_. s') db)"
    by (rule keeps_const [OF assms(7,4,2,1)])
  have "acct s' = acct s"
    by (rule acct_obs [OF assms(5)])
  then show "ledger (modify_object a (\<lambda>_. s') db) = ledger db"
    using ledger_write(2) [OF assms(2,3), of "\<lambda>_. s'" "\<lambda>A. A"] assms(3,6) by simp
  show "stateObjects (modify_object a (\<lambda>_. s') db) a = Some s'"
    by (simp add: stateObjects_modify assms(2))
  show "live b (modify_object a (\<lambda>_. s') db)" if "live b db"
    by (rule live_objects [OF that, of _ a s']) (simp_all add: stateObjects_modify assms(2,3,6))
qed

lemma acts_SetAPB:
  "acts a (so_SetAccountProxiedBalance a u (Some b)) (upd_apb a u (\<lambda>_. b))"
proof (rule actsI)
  fix db s assume c: "caches_ok db" and s: "stateObjects db a = Some s" "\<not> deleted s"
  let ?s = "snd (so_GetAccountProxiedBalance u s)"
  let ?d = "modify_object a (\<lambda>_. ?s) db"
  have co: "coherent ?s"
    using caches_objD [OF c s(1)] by (simp add: coherent_cached)
  note m = cached_silent [OF c s co obs_cached_proxied(2-4)]
  have w: "acts a (\<lambda>db. write_object a (\<lambda>obj. obj\<lparr>dirtyProxied := AList.update u (Some b) (dirtyProxied obj)\<rparr>)
      (push (accountProxiedBalanceChange a u (proxied_read s u)) db)) (\<lambda>L. L(a := (L a)\<lparr>la_apb := (la_apb (L a))(u := b)\<rparr>))"
    by (rule acts_write [where g = "\<lambda>A. A\<lparr>la_apb := (la_apb A)(u := b)\<rparr>"])
      (simp_all add: keeps_entries acct_entries)
  have eq: "so_SetAccountProxiedBalance a u (Some b) db =
      write_object a (\<lambda>obj. obj\<lparr>dirtyProxied := AList.update u (Some b) (dirtyProxied obj)\<rparr>)
        (push (accountProxiedBalanceChange a u (proxied_read s u)) ?d)"
    unfolding so_SetAccountProxiedBalance_def s(1) option.case setAccountProxiedBalance_def
    by (subst obs_cached_proxied(1)) simp
  have "live a db"
    using s by (simp add: live_def)
  then have "live a ?d"
    by (rule m(3))
  then show "caches_ok (so_SetAccountProxiedBalance a u (Some b) db) \<and>
      ledger (so_SetAccountProxiedBalance a u (Some b) db) = upd_apb a u (\<lambda>_. b) (ledger db) \<and>
      (\<forall>c. live c db \<longrightarrow> live c (so_SetAccountProxiedBalance a u (Some b) db))"
    unfolding eq using w m by (simp add: acts_def upd_apb_def)
qed

lemma acts_change_apb: "acts a (change_apb a u g) (upd_apb a u g)"
proof (rule actsI)
  fix db s assume c: "caches_ok db" and s: "stateObjects db a = Some s" "\<not> deleted s"
  let ?s = "snd (so_GetAccountProxiedBalance u s)"
  let ?d = "modify_object a (\<lambda>_. ?s) db"
  let ?b = "g (la_apb (ledger db a) u)"
  have co: "coherent ?s"
    using caches_objD [OF c s(1)] by (simp add: coherent_cached)
  note m = cached_silent [OF c s co obs_cached_proxied(2-4)]
  have "la_apb (ledger db a) u = apb_or_zero (proxied_read s u)"
    using ledger_live [OF s] by (simp add: acct_def)
  then have eq: "change_apb a u g db = so_SetAccountProxiedBalance a u (Some ?b) ?d"
    unfolding change_apb_def s(1) option.case
    by (subst obs_cached_proxied(1)) (simp add: apb_or_zero_def)
  have "live a ?d"
    by (rule m(3)) (use s in \<open>simp add: live_def\<close>)
  then show "caches_ok (change_apb a u g db) \<and> ledger (change_apb a u g db) = upd_apb a u g (ledger db) \<and>
      (\<forall>c. live c db \<longrightarrow> live c (change_apb a u g db))"
    unfolding eq using acts_SetAPB [of a u ?b] m by (simp add: acts_def upd_apb_def)
qed

lemma acts_SetReward:
  "acts a (so_SetDelegateRewardBalance a u (Some x))
     (\<lambda>L. L(a := (L a)\<lparr>la_reward := (la_reward (L a))(u := x)\<rparr>))"
proof (rule actsI)
  fix db s assume c: "caches_ok db" and s: "stateObjects db a = Some s" "\<not> deleted s"
  let ?s = "snd (so_GetDelegateRewardBalance u s)"
  let ?d = "modify_object a (\<lambda>_. ?s) db"
  have co: "coherent ?s"
    using caches_objD [OF c s(1)] by (simp add: coherent_cached)
  note m = cached_silent [OF c s co obs_cached_reward(2-4)]
  have w: "acts a (\<lambda>db. write_object a (\<lambda>obj. obj\<lparr>dirtyReward := AList.update u (Some x) (dirtyReward obj)\<rparr>)
      (push (delegateRewardBalanceChange a u (reward_read s u)) db))
      (\<lambda>L. L(a := (L a)\<lparr>la_reward := (la_reward (L a))(u := x)\<rparr>))"
    by (rule acts_write [where g = "\<lambda>A. A\<lparr>la_reward := (la_reward A)(u := x)\<rparr>"])
      (simp_all add: keeps_entries acct_entries)
  have eq: "so_SetDelegateRewardBalance a u (Some x) db =
      write_object a (\<lambda>obj. obj\<lparr>dirtyReward := AList.update u (Some x) (dirtyReward obj)\<rparr>)
        (push (delegateRewardBalanceChange a u (reward_read s u)) ?d)"
    unfolding so_SetDelegateRewardBalance_def s(1) option.case setDelegateRewardBalance_def
    by (subst obs_cached_reward(1)) simp
  have "live a ?d"
    by (rule m(3)) (use s in \<open>simp add: live_def\<close>)
  then show "caches_ok (so_SetDelegateRewardBalance a u (Some x) db) \<and>
      ledger (so_SetDelegateRewardBalance a u (Some x) db) =
        (ledger db)(a := (ledger db a)\<lparr>la_reward := (la_reward (ledger db a))(u := x)\<rparr>) \<and>
      (\<forall>c. live c db \<longrightarrow> live c (so_SetDelegateRewardBalance a u (Some x) db))"
    unfolding eq using w m by (simp add: acts_def)
qed

lemma acts_reward_entry:
  assumes "caches_ok db" "stateObjects db a = Some s" "\<not> deleted s"
    and "\<forall>L. G L = L(a := (L a)\<lparr>la_reward := (la_reward (L a))(u := x)\<rparr>)"
  shows "let d = so_SetDelegateRewardBalance a u (Some x)
      (modify_object a (\<lambda>_. snd (so_GetDelegateRewardBalance u s)) db) in
    caches_ok d \<and> ledger d = G (ledger db) \<and> (\<forall>b. live b db \<longrightarrow> live b d)"
proof -
  have "coherent (snd (so_GetDelegateRewardBalance u s))"
    using caches_objD [OF assms(1,2)] by (simp add: coherent_cached)
  note m = cached_silent [OF assms(1-3) this obs_cached_reward(2-4)]
  have "live a (modify_object a (\<lambda>_. snd (so_GetDelegateRewardBalance u s)) db)"
    by (rule m(3)) (use assms in \<open>simp add: live_def\<close>)
  then show ?thesis
    using acts_SetReward [of a u x] m assms(4) by (simp add: acts_def Let_def)
qed

lemma refines_AddReward:
  "refines (AddRewardBalanceByDelegateAddress a k x) (\<lambda>L. add_field F_Reward a x (add_reward a k x L))"
proof -
  let ?D = "\<lambda>db. case stateObjects db a of None \<Rightarrow> db
      | Some obj \<Rightarrow> (let (r, obj1) = so_GetDelegateRewardBalance k obj;
               dirtyRewardBalance = (case r of None \<Rightarrow> x | Some b \<Rightarrow> b + x)
           in so_AddRewardBalance a x
                (so_SetDelegateRewardBalance a k (Some dirtyRewardBalance) (modify_object a (\<lambda>_. obj1) db)))"
  have "acts a ?D (\<lambda>L. add_field F_Reward a x (add_reward a k x L))"
  proof (rule actsI)
    fix db s assume c: "caches_ok db" and s: "stateObjects db a = Some s" "\<not> deleted s"
    let ?x = "la_reward (ledger db a) k + x"
    let ?d = "so_SetDelegateRewardBalance a k (Some ?x)
        (modify_object a (\<lambda>_. snd (so_GetDelegateRewardBalance k s)) db)"
    have "la_reward (ledger db a) k = reward_or_zero (reward_read s k)"
      using ledger_live [OF s] by (simp add: acct_def)
    then have "(case reward_read s k of None \<Rightarrow> x | Some b \<Rightarrow> b + x) = ?x"
      by (simp add: reward_or_zero_def split: option.split)
    then have eq: "?D db = Add_balance F_Reward a x ?d"
      unfolding s(1) option.case so_AddRewardBalance_def
      by (subst obs_cached_reward(1)) (simp only: Let_def prod.case)
    have r: "caches_ok ?d" "ledger ?d = add_reward a k x (ledger db)" "\<And>b. live b db \<Longrightarrow> live b ?d"
      using acts_reward_entry [OF c s, of "\<lambda>L. L(a := (L a)\<lparr>la_reward := (la_reward (L a))(k := ?x)\<rparr>)" k ?x]
      by (auto simp: Let_def add_reward_def)
    have "live a ?d"
      by (rule r(3)) (use s in \<open>simp add: live_def\<close>)
    then show "caches_ok (?D db) \<and> ledger (?D db) = add_field F_Reward a x (add_reward a k x (ledger db)) \<and>
        (\<forall>b. live b db \<longrightarrow> live b (?D db))"
      unfolding eq using acts_Add_balance [of a F_Reward x] r by (simp add: acts_def)
  qed
  then have "refines (\<lambda>db. ?D (GetOrNewStateObject a db)) (\<lambda>L. add_field F_Reward a x (add_reward a k x L))"
    by (rule acts_new)
  moreover have "AddRewardBalanceByDelegateAddress a k x = (\<lambda>db. ?D (GetOrNewStateObject a db))"
    by (rule ext) (simp only: AddRewardBalanceByDelegateAddress_def Let_def)
  ultimately show ?thesis
    by simp
qed

text \<open>Subtracting a reward panics when there is no entry.\<close>

lemma SubReward_refines:
  assumes "caches_ok db" "SubRewardBalanceByDelegateAddress a k x db = Some db'"
  shows "caches_ok db' \<and> ledger db' = add_field F_Reward a (- x) (add_reward a k (- x) (ledger db)) \<and>
    (\<forall>b. live b db \<longrightarrow> live b db')"
proof -
  let ?g = "GetOrNewStateObject a db"
  have c: "caches_ok ?g"
    by (rule caches_GetOrNew [OF assms(1)])
  obtain s where s: "stateObjects ?g a = Some s" "\<not> deleted s"
    using live_GetOrNew by (rule liveE)
  have g: "so_GetDelegateRewardBalance k s = (reward_read s k, snd (so_GetDelegateRewardBalance k s))"
    by (rule obs_cached_reward(1))
  obtain b where b: "reward_read s k = Some b"
  proof (cases "reward_read s k")
    case None
    have "SubRewardBalanceByDelegateAddress a k x db = None"
      unfolding SubRewardBalanceByDelegateAddress_def Let_def s(1) option.case by (subst g) (simp add: None)
    then show ?thesis
      using assms(2) by simp
  qed (rule that)
  have "la_reward (ledger db a) k = b"
    using ledger_live [OF s] b by (simp add: acct_def reward_or_zero_def)
  let ?d = "so_SetDelegateRewardBalance a k (Some (b - x))
      (modify_object a (\<lambda>_. snd (so_GetDelegateRewardBalance k s)) ?g)"
  have r: "caches_ok ?d" "ledger ?d = add_reward a k (- x) (ledger db)" "\<And>c. live c ?g \<Longrightarrow> live c ?d"
    using acts_reward_entry [OF c s, of "\<lambda>L. L(a := (L a)\<lparr>la_reward := (la_reward (L a))(k := b - x)\<rparr>)" k "b - x"]
      \<open>la_reward (ledger db a) k = b\<close>
    by (auto simp: Let_def add_reward_def)
  have "SubRewardBalanceByDelegateAddress a k x db = Some (Sub_balance F_Reward a x ?d)"
    unfolding SubRewardBalanceByDelegateAddress_def Let_def s(1) option.case so_SubRewardBalance_def
    by (subst g) (simp add: b)
  then have "db' = Sub_balance F_Reward a x ?d"
    using assms(2) by simp
  moreover have "live a ?d"
    by (rule r(3)) (rule live_GetOrNew)
  ultimately show ?thesis
    using acts_Sub_balance [of a F_Reward x] r by (auto simp: acts_def live_keeps_GetOrNew)
qed

subsection \<open>The exported operations\<close>

definition add_proxied :: "address \<Rightarrow> address \<Rightarrow> int \<Rightarrow> ledger \<Rightarrow> ledger" where
  "add_proxied c u x L = add_field F_Proxied c x
     (upd_apb c u (\<lambda>b. b\<lparr>apb_ProxiedBalance := apb_ProxiedBalance b + x\<rparr>) L)"

definition add_deposit_proxied :: "address \<Rightarrow> address \<Rightarrow> int \<Rightarrow> ledger \<Rightarrow> ledger" where
  "add_deposit_proxied c u x L = add_field F_DepositProxied c x
     (upd_apb c u (\<lambda>b. b\<lparr>apb_DepositProxiedBalance := apb_DepositProxiedBalance b + x\<rparr>) L)"

definition add_pending :: "address \<Rightarrow> address \<Rightarrow> int \<Rightarrow> ledger \<Rightarrow> ledger" where
  "add_pending c u x L = add_field F_PendingRefund c x
     (upd_apb c u (\<lambda>b. b\<lparr>apb_PendingRefundBalance := apb_PendingRefundBalance b + x\<rparr>) L)"

named_theorems refines_api \<open>operations of the database as updates of the ledger\<close>

lemma refines_account [refines_api]:
  "refines (AddBalance a x) (add_field F_Balance a x)"
  "refines (SubBalance a x) (add_field F_Balance a (- x))"
  "refines (AddDepositBalance a x) (add_field F_Deposit a x)"
  "refines (SubDepositBalance a x) (add_field F_Deposit a (- x))"
  "refines (AddDelegateBalance a x) (add_field F_Delegate a x)"
  "refines (SubDelegateBalance a x) (add_field F_Delegate a (- x))"
  "refines (SetCommission a c) (\<lambda>L. L(a := (L a)\<lparr>la_commission := c\<rparr>))"
  "refines (ClearCommission a) (\<lambda>L. L(a := (L a)\<lparr>la_commission := 0\<rparr>))"
  "refines (SetBanned a b) (\<lambda>L. L(a := (L a)\<lparr>la_banned := b\<rparr>))"
  "refines (SetBannedTime a x) (\<lambda>L. L(a := (L a)\<lparr>la_bannedTime := x\<rparr>))"
  "refines (SetMinedBlocks a x) (\<lambda>L. L(a := (L a)\<lparr>la_mined := x\<rparr>))"
  unfolding account_ops [abs_def] balance_methods [abs_def]
  by (rule acts_new, rule acts_Add_balance acts_Sub_balance acts_data)+

lemma refines_user [refines_api]:
  "refines (AddProxiedBalanceByUser c u x) (add_proxied c u x)"
  "refines (SubProxiedBalanceByUser c u x) (add_proxied c u (- x))"
  "refines (AddDepositProxiedBalanceByUser c u x) (add_deposit_proxied c u x)"
  "refines (SubDepositProxiedBalanceByUser c u x) (add_deposit_proxied c u (- x))"
  "refines (AddPendingRefundBalanceByUser c u x) (add_pending c u x)"
  "refines (SubPendingRefundBalanceByUser c u x) (add_pending c u (- x))"
  unfolding user_ops [abs_def] balance_methods [abs_def] add_proxied_def [abs_def]
    add_deposit_proxied_def [abs_def] add_pending_def [abs_def] add_uminus_conv_diff
  by (rule acts_new, rule acts_comp, rule acts_change_apb, rule acts_Add_balance acts_Sub_balance)+

lemma refines_candidacy [refines_api]:
  "refines (ApplyForCandidate a p c)
     (\<lambda>L. L(a := (L a)\<lparr>la_candidate := True, la_commission := c, la_pubkey := p\<rparr>))"
  "refines (CancelCandidate a r) (\<lambda>L. L(a := (L a)\<lparr>la_candidate := False, la_pubkey := '''',
       la_commission := if r then 0 else la_commission (L a)\<rparr>))"
proof -
  have n: "refines (\<lambda>db. so_SetPubkey a p (so_SetCandidate a b (GetOrNewStateObject a db)))
      (\<lambda>L. L(a := (L a)\<lparr>la_candidate := b, la_pubkey := p\<rparr>))" for a b p
    using acts_new [OF acts_comp [OF acts_data(1) [of a b] acts_data(3) [of a p]]] by simp
  show "refines (ApplyForCandidate a p c)
     (\<lambda>L. L(a := (L a)\<lparr>la_candidate := True, la_commission := c, la_pubkey := p\<rparr>))"
    using acts_new [OF acts_comp [OF acts_comp [OF acts_data(1) [of a True] acts_data(2) [of a c]] acts_data(3) [of a p]]]
    by (simp add: ApplyForCandidate_def [abs_def])
  show "refines (CancelCandidate a r) (\<lambda>L. L(a := (L a)\<lparr>la_candidate := False, la_pubkey := '''',
       la_commission := if r then 0 else la_commission (L a)\<rparr>))"
    using acts_new [OF acts_comp [OF acts_comp [OF acts_data(1) [of a False] acts_data(3) [of a "''''"]] acts_data(2) [of a 0]]]
      n [of a "''''" False]
    by (cases r) (simp_all add: CancelCandidate_def [abs_def] Let_def)
qed

lemmas refines_reward [refines_api] = refines_AddReward

lemma refines_silent:
  assumes "\<And>db. stateObjects (D db) = stateObjects db" "\<And>db. stateObjectsDirty (D db) = stateObjectsDirty db"
    and "\<And>db. trie (D db) = trie db"
  shows "refines D (\<lambda>L. L)"
proof -
  have "peek (D db) = peek db" for db
    by (simp add: peek_def [abs_def] assms cong: option.case_cong)
  then show ?thesis
    by (simp add: refines_def caches_rest [OF assms(1,2)] ledger_def [abs_def] live_def assms(1))
qed

lemma refines_sets [refines_api]:
  "refines (MarkDelegateAddressRefund a) (\<lambda>L. L)" "refines (MarkAddressCandidate a) (\<lambda>L. L)"
  "refines (MarkAddressBanned a) (\<lambda>L. L)" "refines (ClearCandidateSetByAddress a) (\<lambda>L. L)"
  "refines (ClearBannedSetByAddress a) (\<lambda>L. L)" "refines ClearDelegateRefundSet (\<lambda>L. L)"
  "refines (\<lambda>db. snd (GetCandidateSet db)) (\<lambda>L. L)" "refines (\<lambda>db. snd (GetDelegateAddressRefundSet db)) (\<lambda>L. L)"
  by (rule refines_silent; simp add: set_ops ClearDelegateRefundSet_def Let_def)+

text \<open>Reads do not change the ledger and return what is in it.\<close>

lemma refines_load: "refines (load a) (\<lambda>L. L)"
  by (simp add: refines_def caches_load live_load')

lemma refines_read_object [refines_api]: "refines (\<lambda>db. snd (read_object a f d db)) (\<lambda>L. L)"
  using refines_load [of a] by (simp add: read_object_def getStateObject_eq split_beta)

lemma refines_read_or_new [refines_api]: "refines (\<lambda>db. snd (read_or_new a f db)) (\<lambda>L. L)"
  by (simp add: read_or_new_def Let_def refines_def caches_GetOrNew live_keeps_GetOrNew)

lemma refines_read_cached:
  assumes "\<forall>s. coherent s \<longrightarrow> coherent (snd (f s))" "\<forall>s. obs Map.empty (snd (f s)) = obs Map.empty s"
    and "\<forall>s. deleted (snd (f s)) = deleted s" "\<forall>s. so_address (snd (f s)) = so_address s"
  shows "refines (\<lambda>db. snd (read_cached a f d db)) (\<lambda>L. L)"
  unfolding refines_def
proof (intro allI impI)
  fix db assume c: "caches_ok db"
  show "caches_ok (snd (read_cached a f d db)) \<and> ledger (snd (read_cached a f d db)) = ledger db \<and>
      (\<forall>b. live b db \<longrightarrow> live b (snd (read_cached a f d db)))"
  proof (cases "peek db a")
    case None
    then show ?thesis
      by (simp add: read_cached_def getStateObject_eq caches_load c live_load')
  next
    case (Some s)
    have l: "caches_ok (load a db)" "stateObjects (load a db) a = Some s" "\<not> deleted s"
      using c Some by (simp_all add: caches_load live_load peek_not_deleted)
    note m = cached_silent [OF l, of "snd (f s)"]
    have "snd (read_cached a f d db) = modify_object a (\<lambda>_. snd (f s)) (load a db)"
      by (simp add: read_cached_def getStateObject_eq Some split_beta)
    then show ?thesis
      using m assms caches_objD [OF l(1,2)] by (simp add: live_load')
  qed
qed

lemma refines_cached [refines_api]:
  "refines (\<lambda>db. snd (GetProxiedBalanceByUser a u db)) (\<lambda>L. L)"
  "refines (\<lambda>db. snd (GetDepositProxiedBalanceByUser a u db)) (\<lambda>L. L)"
  "refines (\<lambda>db. snd (GetPendingRefundBalanceByUser a u db)) (\<lambda>L. L)"
  "refines (\<lambda>db. snd (GetRewardBalanceByDelegateAddress a u db)) (\<lambda>L. L)"
  unfolding cached_reads
  by (rule refines_read_cached; simp add: coherent_cached obs_cached address_cached split_beta Let_def)+

lemma fst_reads:
  "fst (GetBalance a db) = la_field (ledger db a) F_Balance"
  "fst (GetDepositBalance a db) = la_field (ledger db a) F_Deposit"
  "fst (GetDelegateBalance a db) = la_field (ledger db a) F_Delegate"
  "fst (GetTotalProxiedBalance a db) = la_field (ledger db a) F_Proxied"
  "fst (GetTotalDepositProxiedBalance a db) = la_field (ledger db a) F_DepositProxied"
  "fst (GetTotalPendingRefundBalance a db) = la_field (ledger db a) F_PendingRefund"
  "fst (GetTotalRewardBalance a db) = la_field (ledger db a) F_Reward"
  "fst (IsCandidate a db) = la_candidate (ledger db a)"
  "fst (GetPubkey a db) = la_pubkey (ledger db a)"
  "fst (GetCommission a db) = la_commission (ledger db a)"
  "fst (GetProxiedAddressNumber a db) = int (length (la_trie (ledger db a)))"
  by (simp_all add: GetBalance_def GetDepositBalance_def GetDelegateBalance_def GetTotalProxiedBalance_def
      GetTotalDepositProxiedBalance_def GetTotalPendingRefundBalance_def GetTotalRewardBalance_def
      IsCandidate_def GetPubkey_def GetCommission_def GetProxiedAddressNumber_def fst_read ledger_def
      acct_def empty_acct_def split: option.split)

lemma fst_reads_cached:
  "fst (GetProxiedBalanceByUser a u db) = apb_ProxiedBalance (la_apb (ledger db a) u)"
  "fst (GetDepositProxiedBalanceByUser a u db) = apb_DepositProxiedBalance (la_apb (ledger db a) u)"
  "fst (GetPendingRefundBalanceByUser a u db) = apb_PendingRefundBalance (la_apb (ledger db a) u)"
  "fst (GetRewardBalanceByDelegateAddress a u db) = la_reward (ledger db a) u"
  by (simp_all add: cached_reads fst_read fst_cached ledger_def acct_def empty_acct_def
      apb_zero_field NewAccountProxiedBalance_def split: option.split)

lemma fst_read_or_new:
  assumes "\<forall>s. f s = g (acct s)"
  shows "fst (read_or_new a f db) = g (ledger db a)"
proof -
  obtain s where s: "stateObjects (GetOrNewStateObject a db) a = Some s" "\<not> deleted s"
    using live_GetOrNew by (rule liveE)
  have "ledger db a = acct s"
    using ledger_live [OF s] by simp
  then show ?thesis
    by (simp add: read_or_new_def Let_def s(1) assms)
qed

lemma fst_reads_new:
  "fst (GetBanned a db) = la_banned (ledger db a)"
  "fst (GetBannedTime a db) = la_bannedTime (ledger db a)"
  "fst (GetMinedBlocks a db) = la_mined (ledger db a)"
  unfolding GetBanned_def GetBannedTime_def GetMinedBlocks_def
  by (rule fst_read_or_new; simp add: acct_def)+

lemmas fst_ledger = fst_reads fst_reads_cached fst_reads_new

subsection \<open>Iterating over the delegators\<close>

definition each :: "address \<Rightarrow> (address \<Rightarrow> accountProxiedBalance \<Rightarrow> 'x \<times> ledger \<Rightarrow> 'x \<times> ledger) \<Rightarrow>
    address list \<Rightarrow> 'x \<times> ledger \<Rightarrow> 'x \<times> ledger" where
  "each c F ks st = fold (\<lambda>k st. F k (la_apb (snd st c) k) st) ks st"

definition cb_refines :: "address \<Rightarrow> (address \<Rightarrow> accountProxiedBalance \<Rightarrow> 'x \<times> statedb \<Rightarrow> 'x \<times> statedb) \<Rightarrow>
    (address \<Rightarrow> accountProxiedBalance \<Rightarrow> 'x \<times> ledger \<Rightarrow> 'x \<times> ledger) \<Rightarrow> bool" where
  "cb_refines c cb F \<longleftrightarrow>
     (\<forall>k b x db. caches_ok db \<longrightarrow>
        caches_ok (snd (cb k b (x, db))) \<and>
        (fst (cb k b (x, db)), ledger (snd (cb k b (x, db)))) = F k b (x, ledger db) \<and>
        (\<forall>a. live a db \<longrightarrow> live a (snd (cb k b (x, db)))))
     \<and> (\<forall>k b st. la_trie (snd (F k b st) c) = la_trie (snd st c))"

lemma cb_refinesD:
  assumes "cb_refines c cb F" "caches_ok db"
  shows "caches_ok (snd (cb k b (x, db)))" "(fst (cb k b (x, db)), ledger (snd (cb k b (x, db)))) = F k b (x, ledger db)"
    "live a db \<Longrightarrow> live a (snd (cb k b (x, db)))" "la_trie (ledger (snd (cb k b (x, db))) c) = la_trie (ledger db c)"
proof -
  show "caches_ok (snd (cb k b (x, db)))" "live a db \<Longrightarrow> live a (snd (cb k b (x, db)))"
    using assms by (simp_all add: cb_refines_def)
  show eq: "(fst (cb k b (x, db)), ledger (snd (cb k b (x, db)))) = F k b (x, ledger db)"
    using assms by (simp add: cb_refines_def)
  show "la_trie (ledger (snd (cb k b (x, db))) c) = la_trie (ledger db c)"
    using assms(1) eq unfolding cb_refines_def by (metis snd_conv)
qed

text \<open>One iteration hands the callback the current entry of the delegator.\<close>

lemma for_each_step_value:
  assumes "caches_ok d" "live c d" "distinct (map fst (la_trie (ledger d c)))"
    and "(k, stored) \<in> set (la_trie (ledger d c))"
  shows "for_each_step c cb (k, stored) (x, d) = Some (cb k (la_apb (ledger d c) k) (x, d))"
proof -
  obtain s where s: "stateObjects d c = Some s" "\<not> deleted s"
    using assms(2) by (rule liveE)
  have l: "la_trie (ledger d c) = proxiedTrie s" "la_apb (ledger d c) k = apb_or_zero (proxied_read s k)"
    using ledger_live [OF s] by (simp_all add: acct_def)
  have "proxied_coherent s"
    using caches_objD [OF assms(1) s(1)] by (simp add: coherent_def)
  then have p: "map_of (dirtyProxied s) k \<noteq> Some None"
      "map_of (originProxied s) k = Some v \<Longrightarrow> apb_or_zero v = apb_or_zero (map_of (proxiedTrie s) k)" for v
    by (force simp: proxied_coherent_def dest: map_of_SomeD)+
  have t: "map_of (proxiedTrie s) k = Some stored"
    using assms(3,4) l(1) by simp
  show ?thesis
    using p t by (auto simp: for_each_step_def s(1) l(2) proxied_read_def split: option.split)
qed

lemma fold_each:
  assumes "cb_refines c cb F" "caches_ok d" "live c d" "la_trie (ledger d c) = t" "distinct (map fst t)"
    and "set ps \<subseteq> set t"
  shows "\<exists>x' d'. fold_opt (for_each_step c cb) ps (x, d) = Some (x', d') \<and> caches_ok d' \<and>
    (x', ledger d') = each c F (map fst ps) (x, ledger d) \<and> (\<forall>a. live a d \<longrightarrow> live a d')"
  using assms(2-4,6)
proof (induction ps arbitrary: x d)
  case Nil
  then show ?case
    by (simp add: each_def)
next
  case (Cons p ps)
  obtain k v where p: "p = (k, v)"
    by (cases p)
  let ?r = "cb k (la_apb (ledger d c) k) (x, d)"
  have step: "for_each_step c cb p (x, d) = Some ?r"
    unfolding p by (rule for_each_step_value) (use Cons.prems assms(5) p in auto)
  note r = cb_refinesD [OF assms(1) Cons.prems(1), where k = k and b = "la_apb (ledger d c) k" and x = x]
  have "\<exists>x' d'. fold_opt (for_each_step c cb) ps (fst ?r, snd ?r) = Some (x', d') \<and> caches_ok d' \<and>
    (x', ledger d') = each c F (map fst ps) (fst ?r, ledger (snd ?r)) \<and> (\<forall>a. live a (snd ?r) \<longrightarrow> live a d')"
    by (rule Cons.IH) (use r Cons.prems in auto)
  then show ?case
    unfolding each_def using step r(2,3) by (auto simp: p)
qed

lemma ForEach_refines:
  assumes "cb_refines c cb F" "caches_ok db" "distinct (map fst (la_trie (ledger db c)))"
    and "\<forall>t. set (order t) = set t"
  shows "\<exists>x' db'. ForEachProxied order c cb (x, db) = Some (x', db') \<and> caches_ok db' \<and>
    (x', ledger db') = each c F (map fst (order (la_trie (ledger db c)))) (x, ledger db) \<and>
    (\<forall>a. live a db \<longrightarrow> live a db')"
proof (cases "peek db c")
  case None
  have "order [] = []"
    using assms(4) by (metis set_empty2 list.set(1))
  then show ?thesis
    using None assms(2)
    by (simp add: ForEachProxied_def getStateObject_eq caches_load live_load' each_def ledger_def [of db c] empty_acct_def)
next
  case (Some s)
  have l: "caches_ok (load c db)" "stateObjects (load c db) c = Some s" "\<not> deleted s"
    using assms(2) Some by (simp_all add: caches_load live_load peek_not_deleted)
  have t: "la_trie (ledger (load c db) c) = proxiedTrie s"
    using ledger_live [OF l(2,3)] by (simp add: acct_def)
  have lv: "live c (load c db)"
    using l by (simp add: live_def)
  have "\<exists>x' d'. fold_opt (for_each_step c cb) (order (proxiedTrie s)) (x, load c db) = Some (x', d') \<and> caches_ok d' \<and>
    (x', ledger d') = each c F (map fst (order (proxiedTrie s))) (x, ledger (load c db)) \<and> (\<forall>a. live a (load c db) \<longrightarrow> live a d')"
    by (rule fold_each [OF assms(1) l(1) lv t]) (use assms(3,4) t in simp_all)
  then show ?thesis
    using t by (auto simp: ForEachProxied_def getStateObject_eq Some live_load')
qed

end
