(* ===== verification/Conservation.thy ===== *)
theory Conservation
  imports Ledger
begin

section \<open>Relations kept by runs of database operations\<close>

text \<open>
  A database is sound when its caches agree with the tries and no trie lists a delegator twice.
  A relation between the ledgers before and after is carried through any composition of
  operations, folds over lists and iterations over delegators, once it is known for each
  elementary update; the locale collects these laws for every such relation.
\<close>

definition sound :: "statedb \<Rightarrow> bool" where
  "sound db \<longleftrightarrow> caches_ok db \<and> (\<forall>c. distinct (map fst (la_trie (ledger db c))))"

definition conserving :: "(ledger \<Rightarrow> ledger \<Rightarrow> bool) \<Rightarrow> statedb \<Rightarrow> statedb \<Rightarrow> bool" where
  "conserving rel db db' \<longleftrightarrow> (sound db \<longrightarrow> sound db' \<and> rel (ledger db) (ledger db'))"

text \<open>The same for a step that may panic: it does not, and conserves.\<close>

definition completing :: "(ledger \<Rightarrow> ledger \<Rightarrow> bool) \<Rightarrow> (statedb \<Rightarrow> statedb option) \<Rightarrow> bool" where
  "completing rel D \<longleftrightarrow> (\<forall>db. sound db \<longrightarrow> (\<exists>db'. D db = Some db' \<and> conserving rel db db'))"

lemma conserving_sound: "conserving rel db db' \<Longrightarrow> sound db \<Longrightarrow> sound db'"
  by (simp add: conserving_def)

lemma completingD: "completing rel D \<Longrightarrow> sound db \<Longrightarrow> \<exists>db'. D db = Some db' \<and> conserving rel db db'"
  by (simp add: completing_def)

lemma completingE:
  assumes "completing rel D" "sound db"
  obtains db' where "D db = Some db'" "conserving rel db db'" "sound db'"
  using assms by (auto simp: completing_def conserving_def)

lemma refines_id: "refines (\<lambda>db. db) (\<lambda>L. L)"
  by (simp add: refines_def)

lemma refines_if: "refines D G \<Longrightarrow> refines (\<lambda>db. if P then D db else db) (\<lambda>L. if P then G L else L)"
  using refines_id by (cases P) simp_all

locale ledger_relation =
  fixes rel :: "ledger \<Rightarrow> ledger \<Rightarrow> bool"
  assumes rel_refl: "rel L L"
    and rel_trans: "rel L M \<Longrightarrow> rel M N \<Longrightarrow> rel L N"
    and rel_trie: "rel L M \<Longrightarrow> la_trie (M a) = la_trie (L a)"
begin

lemma conserving_refl: "conserving rel db db"
  by (simp add: conserving_def rel_refl)

lemma conserving_trans: "conserving rel a b \<Longrightarrow> conserving rel b c \<Longrightarrow> conserving rel a c"
  by (auto simp: conserving_def intro: rel_trans)

lemma sound_rel: "caches_ok db' \<Longrightarrow> sound db \<Longrightarrow> rel (ledger db) (ledger db') \<Longrightarrow> sound db'"
  by (simp add: sound_def rel_trie)

lemma conservingI:
  assumes "sound db \<Longrightarrow> caches_ok db'" "sound db \<Longrightarrow> rel (ledger db) (ledger db')"
  shows "conserving rel db db'"
  using assms sound_rel by (auto simp: conserving_def)

lemma conserving_refines:
  assumes "refines D G" "\<And>L. rel L (G L)"
  shows "conserving rel db (D db)"
proof (rule conservingI)
  assume "sound db"
  then have c: "caches_ok db"
    by (simp add: sound_def)
  show "caches_ok (D db)"
    by (rule refinesD(1) [OF assms(1) c])
  show "rel (ledger db) (ledger (D db))"
    unfolding refinesD(2) [OF assms(1) c] by (rule assms(2))
qed

lemma conserving_fold: "(\<And>x db. conserving rel db (f x db)) \<Longrightarrow> conserving rel db (fold f xs db)"
  by (induction xs arbitrary: db) (auto intro: conserving_trans conserving_refl)

lemma completing_fold:
  assumes "\<And>x. x \<in> set xs \<Longrightarrow> completing rel (f x)"
  shows "completing rel (fold_opt f xs)"
  unfolding completing_def
proof (intro allI impI)
  fix db assume "sound db"
  then show "\<exists>db'. fold_opt f xs db = Some db' \<and> conserving rel db db'"
    using assms
  proof (induction xs arbitrary: db)
    case (Cons x xs)
    obtain db1 where 1: "f x db = Some db1" "conserving rel db db1" "sound db1"
      using completingE [OF Cons.prems(2) [of x] Cons.prems(1)] by auto
    obtain db2 where 2: "fold_opt f xs db1 = Some db2" "conserving rel db1 db2"
      using Cons.IH [OF 1(3)] Cons.prems(2) by auto
    show ?case
      using 1 2 conserving_trans by auto
  qed (simp add: conserving_refl)
qed

lemma completing_map:
  assumes "completing rel D" "\<And>db. conserving rel db (f db)"
  shows "completing rel (\<lambda>db. map_option f (D db))"
  unfolding completing_def
proof (intro allI impI)
  fix db assume "sound db"
  then obtain db' where "D db = Some db'" "conserving rel db db'" "sound db'"
    by (rule completingE [OF assms(1)])
  then show "\<exists>db'. map_option f (D db) = Some db' \<and> conserving rel db db'"
    using conserving_trans [OF _ assms(2)] by simp
qed

lemma each_rel:
  assumes "\<And>k st. rel (snd st) (snd (F k (la_apb (snd st c) k) st))"
  shows "rel (snd st) (snd (each c F ks st))"
proof (induction ks arbitrary: st)
  case (Cons k ks)
  show ?case
    using rel_trans [OF assms Cons.IH [of "F k (la_apb (snd st c) k) st"]] by (simp add: each_def)
qed (simp add: each_def rel_refl)

text \<open>
  Iterating over the delegators of a candidate in any order completes, with the effect of the
  callback's updates on the ledger; it keeps the relation when the callback does on the entries
  it is given.
\<close>

lemma ForEach_completes:
  assumes "\<forall>t. set (order t) = set t" "\<And>k b. refines (D k b) (G k b)"
    and "\<And>k L. rel L (G k (la_apb (L c) k) L)" "\<And>k b L. la_trie (G k b L c) = la_trie (L c)"
    and "\<And>k b st. cb k b st = (h k b (fst st), D k b (snd st))" "sound db"
  shows "\<exists>x' db'. ForEachProxied order c cb (x, db) = Some (x', db') \<and> conserving rel db db'"
proof -
  let ?F = "\<lambda>k b st. (h k b (fst st), G k b (snd st))"
  have "cb_refines c cb ?F"
    unfolding cb_refines_def assms(5) using refinesD [OF assms(2)] assms(4) by simp
  note r = ForEach_refines [OF this]
  have c: "caches_ok db" "distinct (map fst (la_trie (ledger db c)))"
    using assms(6) by (simp_all add: sound_def)
  obtain x' db' where f: "ForEachProxied order c cb (x, db) = Some (x', db')" "caches_ok db'"
      "(x', ledger db') = each c ?F (map fst (order (la_trie (ledger db c)))) (x, ledger db)"
    using r [OF c assms(1), of x] by blast
  have "rel (snd (x, ledger db)) (snd (each c ?F (map fst (order (la_trie (ledger db c)))) (x, ledger db)))"
    by (rule each_rel) (simp add: assms(3))
  then have "rel (ledger db) (ledger db')"
    unfolding f(3) [symmetric] snd_conv .
  then have "conserving rel db db'"
    using f(2) by (intro conservingI) simp_all
  then show ?thesis
    using f(1) by blast
qed

lemma reads_conserve:
  "conserving rel db (snd (IsCandidate a db))" "conserving rel db (snd (GetTotalProxiedBalance a db))"
  "conserving rel db (snd (GetTotalDepositProxiedBalance a db))" "conserving rel db (snd (GetTotalPendingRefundBalance a db))"
  "conserving rel db (snd (GetDepositBalance a db))" "conserving rel db (snd (GetPubkey a db))"
  "conserving rel db (snd (GetBanned a db))" "conserving rel db (snd (GetBannedTime a db))"
  "conserving rel db (snd (GetMinedBlocks a db))"
  "conserving rel db (snd (GetCandidateSet db))" "conserving rel db (snd (GetDelegateAddressRefundSet db))"
  "conserving rel db (snd (GetProxiedAddressNumber a db))" "conserving rel db (snd (IsCleanAddress a db))"
  "conserving rel db (snd (GetProxiedBalanceByUser a u db))" "conserving rel db (snd (GetDepositProxiedBalanceByUser a u db))"
  "conserving rel db (snd (GetPendingRefundBalanceByUser a u db))"
  "conserving rel db (snd (GetRewardBalanceByDelegateAddress a u db))"
  by (rule conserving_refines [OF _ rel_refl], simp only: IsCandidate_def GetTotalProxiedBalance_def
      GetTotalDepositProxiedBalance_def GetTotalPendingRefundBalance_def GetDepositBalance_def GetPubkey_def
      GetBanned_def GetBannedTime_def GetMinedBlocks_def GetProxiedAddressNumber_def IsCleanAddress_def refines_api)+

end

end
