(* ===== verification/EpochSwitch.thy ===== *)
theory EpochSwitch
  imports EpochTimes Conservation "HOL-Library.Product_Lexorder"
begin

section \<open>The validator set of the next epoch\<close>

text \<open>
  The last block of an epoch: pending refunds are paid, the validators and candidates are
  ranked, stakes move between the proxied and the deposited part, and the next validator set is
  computed (\<open>ShouldEnterNewEpoch\<close>, \<open>updateEpochValidatorSet\<close>,
  \<open>DryRunUpdateEpochValidatorSet\<close> and \<open>UpdateBannedState\<close> of \<open>epoch.go\<close>).  The order in
  which Go ranges over a map, the order of trie iteration and the outcome of \<open>sort.Slice\<close> on
  ties are the fields of a record of run-time choices.  Removing from a slice while ranging
  over it shifts the shared backing array, so that loop works on an explicit array of
  pointers.
\<close>

record runtime =
  rt_addresses :: "address set \<Rightarrow> address list"
  rt_proxied :: "proxied_trie \<Rightarrow> proxied_trie"
  rt_sort_votes :: "epoch_vote list \<Rightarrow> epoch_vote list"
  rt_sort_validators :: "validator list \<Rightarrow> validator list"

subsection \<open>Hexadecimal keys\<close>

definition hex_digit :: "char \<Rightarrow> nat option" where
  "hex_digit c =
     (let n = (of_char c :: nat) in
      if 48 \<le> n \<and> n \<le> 57 then Some (n - 48)
      else if 97 \<le> n \<and> n \<le> 102 then Some (n - 87)
      else if 65 \<le> n \<and> n \<le> 70 then Some (n - 55) else None)"

text \<open>\<open>hex.DecodeString\<close> with the error dropped: the bytes decoded before it.\<close>

fun Hex2Bytes :: "string \<Rightarrow> bytes" where
  "Hex2Bytes (a # b # s) =
     (case (hex_digit a, hex_digit b) of
        (Some x, Some y) \<Rightarrow> of_nat (16 * x + y) # Hex2Bytes s
      | _ \<Rightarrow> [])"
| "Hex2Bytes _ = []"

definition FromHex :: "string \<Rightarrow> bytes" where
  "FromHex s =
     (let s = (if length s > 1 \<and> (take 2 s = ''0x'' \<or> take 2 s = ''0X'') then drop 2 s else s);
          s = (if length s mod 2 = 1 then CHR ''0'' # s else s)
      in Hex2Bytes s)"

subsection \<open>Merging votes into a validator set\<close>

record refund =
  rf_Address :: address
  rf_Amount :: "int option"
  rf_Voteout :: bool

definition MinimumValidatorsSize :: nat where "MinimumValidatorsSize = 1"
definition MaximumValidatorsSize :: nat where "MaximumValidatorsSize = 100"

text \<open>The state of the merging loop: the set, the refunds, the number of additions.\<close>

definition merge_vote ::
  "epoch_vote \<Rightarrow> validator_set \<times> refund list \<times> nat \<Rightarrow>
   set_change_error + (validator_set \<times> refund list \<times> nat)" where
  "merge_vote v st =
     (let (validators, refunds, newValSize) = st in
      case (ev_Amount v, ev_PubKey v) of
        (Some amount, Some pk) \<Rightarrow>
          if ev_Salt v = '''' then Inr st
          else (case snd (GetByAddress validators (ev_Address v)) of
             None \<Rightarrow>
               (case Add validators (NewValidator (ev_Address v) pk amount) of
                  (validators1, True) \<Rightarrow> Inr (validators1, refunds, newValSize + 1)
                | (_, False) \<Rightarrow> Inl (FailedToAdd (ev_Address v) amount))
           | Some val \<Rightarrow>
               if amount = 0
               then (case Remove validators (Address val) of
                       (validators1, _, True) \<Rightarrow>
                         Inr (validators1, refunds @ [\<lparr>rf_Address = ev_Address v, rf_Amount = Some (VotingPower val),
                                                       rf_Voteout = False\<rparr>], newValSize)
                     | (_, _, False) \<Rightarrow> Inl (FailedToRemove (Address val)))
               else (let refunds1 = (if amount < VotingPower val
                            then refunds @ [\<lparr>rf_Address = ev_Address v, rf_Amount = Some (VotingPower val - amount),
                                             rf_Voteout = False\<rparr>]
                            else refunds)
                     in case Update validators (val\<lparr>VotingPower := amount\<rparr>) of
                          (validators1, True) \<Rightarrow> Inr (validators1, refunds1, newValSize)
                        | (_, False) \<Rightarrow> Inl (FailedToUpdate (Address val) amount)))
      | _ \<Rightarrow> Inr st)"

fun merge_votes ::
  "epoch_vote list \<Rightarrow> validator_set \<times> refund list \<times> nat \<Rightarrow>
   set_change_error + (validator_set \<times> refund list \<times> nat)" where
  "merge_votes [] st = Inr st"
| "merge_votes (v # vs) st = (case merge_vote v st of Inl err \<Rightarrow> Inl err | Inr st1 \<Rightarrow> merge_votes vs st1)"

definition elapse :: "validator \<Rightarrow> validator" where
  "elapse v = (if RemainingEpoch v > 0 then v\<lparr>RemainingEpoch := RemainingEpoch v - 1\<rparr> else v)"

text \<open>The comparison by which \<open>sort.Slice\<close> orders the validators.\<close>

definition ranks_before :: "validator \<Rightarrow> validator \<Rightarrow> bool" where
  "ranks_before a b \<longleftrightarrow>
     (if RemainingEpoch a = RemainingEpoch b then VotingPower a > VotingPower b
      else RemainingEpoch a > RemainingEpoch b)"

definition clamp_size :: "nat \<Rightarrow> nat" where
  "clamp_size n =
     (if n > MaximumValidatorsSize then MaximumValidatorsSize
      else if n < MinimumValidatorsSize then MinimumValidatorsSize else n)"

definition knockout_refund :: "validator \<Rightarrow> refund" where
  "knockout_refund k = \<lparr>rf_Address = BytesToAddress (Address k), rf_Amount = None, rf_Voteout = True\<rparr>"

definition updateEpochValidatorSet ::
  "runtime \<Rightarrow> vote_table option \<Rightarrow> validator_set \<Rightarrow>
   set_change_error + (validator_set \<times> refund list)" where
  "updateEpochValidatorSet R voteSet validators =
     (let oldValSize = Size validators in
      case (if VoteSet_IsEmpty voteSet then Inr (validators, [], 0)
            else merge_votes (case voteSet of None \<Rightarrow> [] | Some vs \<Rightarrow> votes_of vs) (validators, [], 0)) of
        Inl err \<Rightarrow> Inl err
      | Inr (validators1, refunds, newValSize) \<Rightarrow>
          (let valSize = clamp_size (oldValSize + newValSize);
               vals = map elapse (Validators validators1)
           in if length vals > valSize
              then (let sorted = rt_sort_validators R vals in
                    Inr (validators1\<lparr>Validators := take valSize sorted\<rparr>,
                         refunds @ map knockout_refund (drop valSize sorted)))
              else Inr (validators1\<lparr>Validators := vals\<rparr>, refunds)))"

subsection \<open>Ranging over a slice that shrinks\<close>

text \<open>
  \<open>sl_heap\<close> holds the copied validators, \<open>sl_arr\<close> the backing array of pointers to them and
  \<open>sl_len\<close> the current length of the slice; \<open>sl_total\<close> is the cached total of the set.  \<open>Remove\<close> moves the following elements down in
  place; the loop goes on reading the array at its original length.
\<close>

record slice =
  sl_heap :: "validator list"
  sl_arr :: "nat list"
  sl_len :: nat
  sl_total :: "int option"

definition slice_of :: "validator_set \<Rightarrow> slice" where
  "slice_of s =
     \<lparr>sl_heap = map Validator_Copy (Validators s), sl_arr = [0..<length (Validators s)],
      sl_len = length (Validators s), sl_total = totalVotingPower s\<rparr>"

definition slice_contents :: "slice \<Rightarrow> validator list" where
  "slice_contents s = map (nth (sl_heap s)) (take (sl_len s) (sl_arr s))"

definition slice_set :: "slice \<Rightarrow> validator_set" where
  "slice_set s = \<lparr>Validators = slice_contents s, totalVotingPower = sl_total s\<rparr>"

definition slice_Remove :: "bytes \<Rightarrow> slice \<Rightarrow> slice" where
  "slice_Remove address s =
     (case index_of address (slice_contents s) of
        None \<Rightarrow> s
      | Some idx \<Rightarrow>
          s\<lparr>sl_arr := take idx (sl_arr s) @ drop (idx + 1) (take (sl_len s) (sl_arr s))
                        @ drop (sl_len s - 1) (sl_arr s),
            sl_len := sl_len s - 1, sl_total := None\<rparr>)"

definition slice_set_power :: "nat \<Rightarrow> int \<Rightarrow> slice \<Rightarrow> slice" where
  "slice_set_power p x s = s\<lparr>sl_heap := (sl_heap s)[p := (sl_heap s ! p)\<lparr>VotingPower := x\<rparr>]\<rparr>"

subsection \<open>The steps of the switch\<close>

text \<open>Step 1: paying the pending refunds of one candidate.\<close>

definition refund_cb :: "address \<Rightarrow> address \<Rightarrow> accountProxiedBalance \<Rightarrow> unit \<times> statedb \<Rightarrow> unit \<times> statedb" where
  "refund_cb refundAddress key b st =
     (let p = apb_PendingRefundBalance b in
      if p > 0
      then ((), AddBalance key p (SubDelegateBalance key p (SubPendingRefundBalanceByUser refundAddress key p
                 (SubDepositProxiedBalanceByUser refundAddress key p (snd st)))))
      else st)"

definition refund_address :: "runtime \<Rightarrow> address \<Rightarrow> statedb \<Rightarrow> statedb option" where
  "refund_address R refundAddress db =
     (case ForEachProxied (rt_proxied R) refundAddress (refund_cb refundAddress) ((), db) of
        None \<Rightarrow> None
      | Some (_, db1) \<Rightarrow>
          (let (candidate, db2) = IsCandidate refundAddress db1
           in Some (if \<not> candidate then ClearCommission refundAddress db2 else db2)))"

definition refund_pending :: "runtime \<Rightarrow> statedb \<Rightarrow> statedb option" where
  "refund_pending R db =
     (let (refundSet, db1) = GetDelegateAddressRefundSet db
      in map_option ClearDelegateRefundSet (fold_opt (refund_address R) (rt_addresses R refundSet) db1))"

text \<open>A ban runs down by one epoch; the stored integer is decremented in place before it is
  set again.\<close>

definition elapse_ban :: "address \<Rightarrow> statedb \<Rightarrow> statedb" where
  "elapse_ban addr db =
     (let (bannedEpoch, db1) = GetBannedTime addr db in
      if bannedEpoch > 0
      then SetBannedTime addr (bannedEpoch - 1)
             (modify_object addr (\<lambda>s. s\<lparr>so_data := so_data s\<lparr>BannedTime := bannedEpoch - 1\<rparr>\<rparr>) db1)
      else db1)"

text \<open>The candidate list is the live map of the database; deleting from it does not mark it dirty.\<close>

definition delete_candidate :: "address \<Rightarrow> statedb \<Rightarrow> statedb" where
  "delete_candidate addr db = db\<lparr>candidateSet := candidateSet db - {addr}\<rparr>"

definition new_power :: "address \<Rightarrow> statedb \<Rightarrow> int \<times> statedb" where
  "new_power vAddr db =
     (let (proxied, db1) = GetTotalProxiedBalance vAddr db;
          (deposited, db2) = GetTotalDepositProxiedBalance vAddr db1;
          (own, db3) = GetDepositBalance vAddr db2
      in (proxied + deposited + own, db3))"

text \<open>Step 2: one iteration over the current validators.\<close>

definition review_validator ::
  "nat \<Rightarrow> slice \<times> refund list \<times> statedb \<Rightarrow> slice \<times> refund list \<times> statedb" where
  "review_validator k st =
     (let (sl, refunds, db) = st; p = sl_arr sl ! k; v = sl_heap sl ! p; vAddr = BytesToAddress (Address v);
          (banned, db1) = GetBanned vAddr db
      in if \<not> banned
         then (let (newVotingPower, db2) = new_power vAddr db1 in
               ((if newVotingPower = 0 then slice_Remove (Address v) sl else slice_set_power p newVotingPower sl),
                refunds, db2))
         else (slice_Remove (Address v) sl,
               refunds @ [\<lparr>rf_Address = vAddr, rf_Amount = Some (VotingPower v), rf_Voteout = True\<rparr>],
               elapse_ban vAddr (delete_candidate vAddr db1)))"

definition review_validators :: "validator_set \<Rightarrow> statedb \<Rightarrow> slice \<times> refund list \<times> statedb" where
  "review_validators s db = fold review_validator [0..<Size s] (slice_of s, [], db)"

text \<open>Moving the proxied balances of a candidate to its deposit.\<close>

definition deposit_cb :: "address \<Rightarrow> address \<Rightarrow> accountProxiedBalance \<Rightarrow> unit \<times> statedb \<Rightarrow> unit \<times> statedb" where
  "deposit_cb candidate key b st =
     ((), AddDepositProxiedBalanceByUser candidate key (apb_ProxiedBalance b)
            (SubProxiedBalanceByUser candidate key (apb_ProxiedBalance b) (snd st)))"

definition net_proxied :: "address \<Rightarrow> statedb \<Rightarrow> int \<times> statedb" where
  "net_proxied addr db =
     (let (proxied, db1) = GetTotalProxiedBalance addr db;
          (deposited, db2) = GetTotalDepositProxiedBalance addr db1;
          (pending, db3) = GetTotalPendingRefundBalance addr db2
      in (proxied + deposited - pending, db3))"

definition review_candidate ::
  "runtime \<Rightarrow> address \<Rightarrow> epoch_vote list \<times> statedb \<Rightarrow> (epoch_vote list \<times> statedb) option" where
  "review_candidate R addr st =
     (let (voteArr, db) = st; (candidate, db1) = IsCandidate addr db in
      if \<not> candidate then Some (voteArr, db1)
      else (let (netProxied, db2) = net_proxied addr db1 in
            if netProxied < 0 then Some (voteArr, db2)
            else case ForEachProxied (rt_proxied R) addr (deposit_cb addr) ((), db2) of
                None \<Rightarrow> None
              | Some (_, db3) \<Rightarrow>
                  (let (pubkey, db4) = GetPubkey addr db3; pubkeyBytes = FromHex pubkey in
                   if pubkey = '''' \<or> length pubkeyBytes \<noteq> 128 then Some (voteArr, db4)
                   else Some (voteArr @ [\<lparr>ev_Address = addr, ev_PubKey = Some pubkeyBytes, ev_Amount = Some netProxied,
                                          ev_Salt = ''neatio'', ev_VoteHash = zero_hash, ev_TxHash = zero_hash\<rparr>], db4))))"

definition drop_banned :: "address \<Rightarrow> statedb \<Rightarrow> statedb" where
  "drop_banned addr db =
     (let (banned, db1) = GetBanned addr db
      in if banned then elapse_ban addr (delete_candidate addr db1) else db1)"

fun compareAddress :: "bytes \<Rightarrow> bytes \<Rightarrow> bool option" where
  "compareAddress (a # as) (b # bs) = (if a = b then compareAddress as bs else Some (a > b))"
| "compareAddress _ _ = None"

text \<open>The comparison by which the new votes are sorted.\<close>

definition vote_before :: "epoch_vote \<Rightarrow> epoch_vote \<Rightarrow> bool" where
  "vote_before a b \<longleftrightarrow>
     (case (ev_Amount a, ev_Amount b) of
        (Some x, Some y) \<Rightarrow> if x = y then compareAddress (ev_Address a) (ev_Address b) = Some True else x > y
      | _ \<Rightarrow> False)"

definition candidate_votes ::
  "runtime \<Rightarrow> validator list \<Rightarrow> vote_table \<Rightarrow> statedb \<Rightarrow> (vote_table \<times> statedb) option" where
  "candidate_votes R newValidators voteSet db =
     (let candidateList = candidateSet db in
      if candidateList = {} then Some (voteSet, db)
      else
        (let db1 = fold drop_banned (rt_addresses R candidateList) db;
             db2 = fold (\<lambda>v. delete_candidate (BytesToAddress (Address v))) newValidators db1;
             db3 = fold (\<lambda>v. delete_candidate (ev_Address v)) (votes_of voteSet) db2
         in case fold_opt (review_candidate R) (rt_addresses R (candidateSet db3)) ([], db3) of
              None \<Rightarrow> None
            | Some (voteArr, db4) \<Rightarrow>
                map_option (\<lambda>vs. (vs, db4)) (fold_opt StoreVote (rt_sort_votes R voteArr) voteSet)))"

text \<open>Step 3: the stakes of the next validators become deposits.\<close>

definition deposit_positive_cb ::
  "address \<Rightarrow> address \<Rightarrow> accountProxiedBalance \<Rightarrow> unit \<times> statedb \<Rightarrow> unit \<times> statedb" where
  "deposit_positive_cb vAddr key b st = (if apb_ProxiedBalance b > 0 then deposit_cb vAddr key b st else st)"

definition deposit_validator :: "runtime \<Rightarrow> validator \<Rightarrow> statedb \<Rightarrow> statedb option" where
  "deposit_validator R v db =
     (let vAddr = BytesToAddress (Address v); (candidate, db1) = IsCandidate vAddr db in
      if \<not> candidate then Some db1
      else (let (proxied, db2) = GetTotalProxiedBalance vAddr db1 in
            if proxied > 0
            then map_option snd (ForEachProxied (rt_proxied R) vAddr (deposit_positive_cb vAddr) ((), db2))
            else Some db2))"

text \<open>Step 4: refunding.\<close>

definition withdraw_cb :: "address \<Rightarrow> address \<Rightarrow> accountProxiedBalance \<Rightarrow> unit \<times> statedb \<Rightarrow> unit \<times> statedb" where
  "withdraw_cb addr key b st =
     (let d = apb_DepositProxiedBalance b in
      if d > 0
      then ((), AddProxiedBalanceByUser addr key d (SubDepositProxiedBalanceByUser addr key d (snd st)))
      else st)"

definition pay_refund :: "runtime \<Rightarrow> refund \<Rightarrow> statedb \<Rightarrow> statedb option" where
  "pay_refund R r db =
     (let a = rf_Address r in
      if \<not> rf_Voteout r
      then (case rf_Amount r of
              None \<Rightarrow> None
            | Some x \<Rightarrow> Some (AddBalance a x (SubDepositBalance a x db)))
      else (let (candidate, db1) = IsCandidate a db in
            case (if candidate then map_option snd (ForEachProxied (rt_proxied R) a (withdraw_cb a) ((), db1))
                  else Some db1) of
              None \<Rightarrow> None
            | Some db2 \<Rightarrow>
                (let (depositBalance, db3) = GetDepositBalance a db2
                 in Some (AddBalance a depositBalance (SubDepositBalance a depositBalance db3)))))"

subsection \<open>The switch\<close>

text \<open>
  The outcome is whether to switch, the next validators and an error; \<^term>\<open>None\<close> is a
  panic.  The epoch is returned with the next epoch it has loaded.
\<close>

definition switch_state ::
  "wire \<Rightarrow> runtime \<Rightarrow> epoch \<Rightarrow> epoch \<Rightarrow> store \<Rightarrow> statedb \<Rightarrow>
   ((bool \<times> validator_set option \<times> epoch_error option) \<times> epoch \<times> statedb) option" where
  "switch_state W R e n edb db =
     (case refund_pending R db of
        None \<Rightarrow> None
      | Some db1 \<Rightarrow>
          (let (nextVotes, n1) = GetEpochValidatorVoteSet W edb n;
               nextEpochVoteSet = (case VoteSet_Copy nextVotes of None \<Rightarrow> NewEpochValidatorVoteSet | Some vs \<Rightarrow> vs);
               e1 = set_next (Some n1) e;
               db2 = snd (GetCandidateSet db1);
               (sl, refunds, db3) = review_validators (ValidatorSet_Copy (ep_Validators (ep e))) db2;
               newValidators = slice_set sl
           in case candidate_votes R (Validators newValidators) nextEpochVoteSet db3 of
                None \<Rightarrow> None
              | Some (voteSet, db4) \<Rightarrow>
                  (case updateEpochValidatorSet R (Some voteSet) newValidators of
                     Inl err \<Rightarrow> Some ((False, None, Some (ValidatorSetChange err)), e1, db4)
                   | Inr (validators, refundsUpdate) \<Rightarrow>
                       (case fold_opt (deposit_validator R) (Validators validators) db4 of
                          None \<Rightarrow> None
                        | Some db5 \<Rightarrow>
                            map_option (\<lambda>db6. ((True, Some validators, None), e1, db6))
                              (fold_opt (pay_refund R) (refunds @ refundsUpdate) db5)))))"

definition ShouldEnterNewEpoch ::
  "wire \<Rightarrow> runtime \<Rightarrow> uint64 \<Rightarrow> epoch \<Rightarrow> store \<Rightarrow> statedb \<Rightarrow>
   ((bool \<times> validator_set option \<times> epoch_error option) \<times> epoch \<times> statedb) option" where
  "ShouldEnterNewEpoch W R height e edb db =
     (if height = EndBlock (ep e)
      then (let e1 = GetNextEpoch W edb e in
            case nextEpoch e1 of
              None \<Rightarrow> Some ((False, None, Some NextEpochNotExist), e1, db)
            | Some n \<Rightarrow> switch_state W R e1 n edb db)
      else Some ((False, None, None), e, db))"

text \<open>The rehearsal one block earlier.\<close>

definition dry_run_validator :: "nat \<Rightarrow> slice \<times> statedb \<Rightarrow> slice \<times> statedb" where
  "dry_run_validator k st =
     (let (sl, db) = st; p = sl_arr sl ! k; v = sl_heap sl ! p; vAddr = BytesToAddress (Address v);
          (net, db1) = net_proxied vAddr db; (own, db2) = GetDepositBalance vAddr db1;
          newVotingPower = net + own
      in ((if newVotingPower = 0 then slice_Remove (Address v) sl else slice_set_power p newVotingPower sl), db2))"

definition DryRunUpdateEpochValidatorSet ::
  "runtime \<Rightarrow> statedb \<Rightarrow> validator_set \<Rightarrow> vote_table option \<Rightarrow> (set_change_error + validator_set) \<times> statedb" where
  "DryRunUpdateEpochValidatorSet R db validators voteSet =
     (let (sl, db1) = fold dry_run_validator [0..<Size validators] (slice_of validators, db)
      in (case updateEpochValidatorSet R voteSet (slice_set sl) of
            Inl err \<Rightarrow> Inl err | Inr (vals, _) \<Rightarrow> Inr vals, db1))"

subsection \<open>Banning absent validators\<close>

definition BannedEpoch :: int where "BannedEpoch = 2"

definition ban_absent :: "validator \<Rightarrow> statedb \<Rightarrow> statedb" where
  "ban_absent v db =
     (let addr = BytesToAddress (Address v); (times, db1) = GetMinedBlocks addr db in
      if times = 0 then MarkAddressBanned addr (SetBannedTime addr BannedEpoch (SetBanned addr True db1)) else db1)"

definition count_signer :: "validator \<Rightarrow> statedb \<Rightarrow> statedb" where
  "count_signer v db =
     (let addr = BytesToAddress (Address v); (times, db1) = GetMinedBlocks addr db
      in SetMinedBlocks addr (times + 1) db1)"

text \<open>A signer index beyond the validators is a panic.\<close>

definition UpdateBannedState ::
  "'b ext \<Rightarrow> uint64 \<Rightarrow> 'b commit option \<Rightarrow> epoch \<Rightarrow> statedb \<Rightarrow> statedb option" where
  "UpdateBannedState E height com e db =
     (let validators = Validators (ep_Validators (ep e)) in
      if height \<le> 1 \<or> height = StartBlock (ep e) then Some db
      else if height = EndBlock (ep e)
      then Some (fold (\<lambda>v. SetMinedBlocks (BytesToAddress (Address v)) 0) validators db)
      else if height = EndBlock (ep e) - 1 then Some (fold ban_absent validators db)
      else case com of
          None \<Rightarrow> Some db
        | Some c \<Rightarrow>
            if com_BitArray c = None then Some db
            else fold_opt (\<lambda>i db. if BA_GetIndex E (com_BitArray c) i
                                   then (if i < length validators then Some (count_signer (validators ! i) db) else None)
                                   else Some db)
                   [0..<BA_Size E (com_BitArray c)] db)"

subsection \<open>What the switch conserves\<close>

text \<open>
  The wealth of an account (free, deposited and delegated), the net stake of a delegator with
  a candidate, and the candidate's total of it.
\<close>

definition wealth :: "ledger_account \<Rightarrow> int" where
  "wealth A = la_field A F_Balance + la_field A F_Deposit + la_field A F_Delegate"

definition stake :: "ledger_account \<Rightarrow> address \<Rightarrow> int" where
  "stake A u = apb_ProxiedBalance (la_apb A u) + apb_DepositProxiedBalance (la_apb A u)
     - apb_PendingRefundBalance (la_apb A u)"

definition total_stake :: "ledger_account \<Rightarrow> int" where
  "total_stake A = la_field A F_Proxied + la_field A F_DepositProxied - la_field A F_PendingRefund"

definition preserved :: "ledger \<Rightarrow> ledger \<Rightarrow> bool" where
  "preserved L L' \<longleftrightarrow> (\<forall>a. wealth (L' a) = wealth (L a) \<and> total_stake (L' a) = total_stake (L a) \<and>
     stake (L' a) = stake (L a) \<and> la_trie (L' a) = la_trie (L a))"

interpretation pres: ledger_relation preserved
  by unfold_locales (simp_all add: preserved_def)

abbreviation conserves :: "statedb \<Rightarrow> statedb \<Rightarrow> bool" where
  "conserves \<equiv> conserving preserved"

abbreviation completes :: "(statedb \<Rightarrow> statedb option) \<Rightarrow> bool" where
  "completes \<equiv> completing preserved"

lemmas preserved_refl [simp] = pres.rel_refl
lemmas conserves_refl [simp] = pres.conserving_refl
lemmas conserves_trans [trans] = pres.conserving_trans
lemmas refines_conserves = pres.conserving_refines
lemmas reads_conserve = pres.reads_conserve

subsection \<open>Each operation\<close>

lemmas stake_defs = preserved_def wealth_def stake_def fun_eq_iff total_stake_def add_field_def upd_apb_def
  add_proxied_def add_deposit_proxied_def add_pending_def

lemma writes_conserve:
  "conserves db (ClearCommission a db)" "conserves db (SetBannedTime a x db)" "conserves db (SetBanned a b db)"
  "conserves db (SetMinedBlocks a x db)" "conserves db (ClearDelegateRefundSet db)"
  "conserves db (MarkAddressBanned a db)"
  by (rule refines_conserves, rule refines_api, simp add: stake_defs)+

lemma delete_candidate_conserves: "conserves db (delete_candidate a db)"
  by (rule refines_conserves [OF refines_silent]) (simp_all add: delete_candidate_def)

lemma new_power_conserves: "conserves db (snd (new_power a db))"
  unfolding new_power_def Let_def split_beta snd_conv
  by (rule conserves_trans [OF conserves_trans]) (rule reads_conserve)+

lemma net_proxied_conserves: "conserves db (snd (net_proxied a db))"
  unfolding net_proxied_def Let_def split_beta snd_conv
  by (rule conserves_trans [OF conserves_trans]) (rule reads_conserve)+

lemma deposit_to_balance_conserves: "conserves db (AddBalance a x (SubDepositBalance a x db))"
  by (rule refines_conserves [OF refines_comp [OF refines_account(4) refines_account(1)]])
    (simp add: stake_defs)

text \<open>The in-place decrement is also a decrement of the ledger's ban.\<close>

lemma elapse_ban_conserves: "conserves db (elapse_ban a db)"
proof -
  obtain t db1 where g: "GetBannedTime a db = (t, db1)"
    by force
  have c: "conserves db db1"
    using reads_conserve(8) [of db a] by (simp add: g)
  let ?f = "\<lambda>s. s\<lparr>so_data := so_data s\<lparr>BannedTime := t - 1\<rparr>\<rparr>"
  have "conserves db1 (modify_object a ?f db1)"
    unfolding conserving_def
  proof
    assume s: "sound db1"
    have "db1 = GetOrNewStateObject a db"
      using g by (simp add: GetBannedTime_def read_or_new_def Let_def)
    then obtain so where so: "stateObjects db1 a = Some so" "\<not> deleted so"
      using live_GetOrNew by (metis liveE)
    have "ledger (modify_object a ?f db1) = (ledger db1)(a := (ledger db1 a)\<lparr>la_bannedTime := t - 1\<rparr>)"
      by (rule ledger_write(2) [where g = "\<lambda>A. A\<lparr>la_bannedTime := t - 1\<rparr>", OF so]) (simp_all add: so acct_data)
    then have p: "preserved (ledger db1) (ledger (modify_object a ?f db1))"
      by (simp add: stake_defs)
    have "caches_ok (modify_object a ?f db1)"
      using s caches_write(2) [OF keeps_setters(8)] by (simp add: sound_def)
    then show "sound (modify_object a ?f db1) \<and> preserved (ledger db1) (ledger (modify_object a ?f db1))"
      using s p pres.sound_rel by blast
  qed
  then show ?thesis
    using c writes_conserve(2) conserves_trans by (auto simp: elapse_ban_def g)
qed

lemma drop_banned_conserves: "conserves db (drop_banned a db)"
  using conserves_trans [OF reads_conserve(7) [of db a]]
    conserves_trans [OF delete_candidate_conserves elapse_ban_conserves]
  by (simp add: drop_banned_def split_beta Let_def reads_conserve)

subsection \<open>Iterating over the delegators\<close>

text \<open>
  A trie is iterated completely, each entry once, in some order, and every hashed key is recovered.
\<close>

definition runtime_ok :: "runtime \<Rightarrow> bool" where
  "runtime_ok R \<longleftrightarrow> (\<forall>t. mset (rt_proxied R t) = mset t)"

lemma runtime_okD:
  assumes "runtime_ok R"
  shows "\<forall>t. set (rt_proxied R t) = set t" "distinct (map fst t) \<Longrightarrow> distinct (map fst (rt_proxied R t))"
proof -
  have m: "mset (rt_proxied R t) = mset t" for t
    using assms by (simp add: runtime_ok_def)
  show "\<forall>t. set (rt_proxied R t) = set t"
    using m by (metis set_mset_mset)
  show "distinct (map fst (rt_proxied R t))" if "distinct (map fst t)"
    using that m [of t] by (metis mset_eq_imp_distinct_iff mset_map)
qed

lemma ForEach_update_completes:
  assumes "runtime_ok R" "\<And>k b. refines (D k b) (G k b)" "\<And>k b L. preserved L (G k b L)"
    and "\<And>k b st. cb k b st = (if P b then ((), D k b (snd st)) else st)"
  shows "completes (\<lambda>db. map_option snd (ForEachProxied (rt_proxied R) c cb ((), db)))"
  unfolding completing_def
proof (intro allI impI)
  fix db assume s: "sound db"
  have "\<exists>x' db'. ForEachProxied (rt_proxied R) c cb ((), db) = Some (x', db') \<and> conserves db db'"
  proof (rule pres.ForEach_completes [where h = "\<lambda>_ _ _. ()" and D = "\<lambda>k b db. if P b then D k b db else db"
        and G = "\<lambda>k b L. if P b then G k b L else L", OF _ _ _ _ _ s])
    show "\<forall>t. set (rt_proxied R t) = set t"
      by (rule runtime_okD(1) [OF assms(1)])
    show "refines (\<lambda>db. if P b then D k b db else db) (\<lambda>L. if P b then G k b L else L)" for k b
      by (rule refines_if [OF assms(2)])
    show "preserved L (if P (la_apb (L c) k) then G k (la_apb (L c) k) L else L)" for k L
      using assms(3) by simp
    show "la_trie ((if P b then G k b L else L) c) = la_trie (L c)" for k b L
      using pres.rel_trie [OF assms(3)] by simp
    show "cb k b st = ((), if P b then D k b (snd st) else snd st)" for k b and st :: "unit \<times> statedb"
      using assms(4) by (cases st) simp
  qed
  then show "\<exists>db'. map_option snd (ForEachProxied (rt_proxied R) c cb ((), db)) = Some db' \<and> conserves db db'"
    by auto
qed

lemma callbacks_complete:
  assumes "runtime_ok R"
  shows "completes (\<lambda>db. map_option snd (ForEachProxied (rt_proxied R) c (refund_cb c) ((), db)))"
    "completes (\<lambda>db. map_option snd (ForEachProxied (rt_proxied R) c (deposit_cb c) ((), db)))"
    "completes (\<lambda>db. map_option snd (ForEachProxied (rt_proxied R) c (deposit_positive_cb c) ((), db)))"
    "completes (\<lambda>db. map_option snd (ForEachProxied (rt_proxied R) c (withdraw_cb c) ((), db)))"
proof -
  have refund: "refines (\<lambda>db. AddBalance k p (SubDelegateBalance k p (SubPendingRefundBalanceByUser c k p
        (SubDepositProxiedBalanceByUser c k p db))))
      (\<lambda>L. add_field F_Balance k p (add_field F_Delegate k (- p) (add_pending c k (- p) (add_deposit_proxied c k (- p) L))))"
    for k p
    using refines_comp [OF refines_comp [OF refines_comp [OF refines_user(4) [of c k p] refines_user(6) [of c k p]]
        refines_account(6) [of k p]] refines_account(1) [of k p]] .
  have deposit: "refines (\<lambda>db. AddDepositProxiedBalanceByUser c k p (SubProxiedBalanceByUser c k p db))
      (\<lambda>L. add_deposit_proxied c k p (add_proxied c k (- p) L))" for k p
    using refines_comp [OF refines_user(2) [of c k p] refines_user(3) [of c k p]] .
  have withdraw: "refines (\<lambda>db. AddProxiedBalanceByUser c k p (SubDepositProxiedBalanceByUser c k p db))
      (\<lambda>L. add_proxied c k p (add_deposit_proxied c k (- p) L))" for k p
    using refines_comp [OF refines_user(4) [of c k p] refines_user(1) [of c k p]] .
  have p: "preserved L (add_field F_Balance k p (add_field F_Delegate k (- p) (add_pending c k (- p) (add_deposit_proxied c k (- p) L))))"
      "preserved L (add_deposit_proxied c k p (add_proxied c k (- p) L))"
      "preserved L (add_proxied c k p (add_deposit_proxied c k (- p) L))" for L k p
    by (simp_all add: stake_defs)
  show "completes (\<lambda>db. map_option snd (ForEachProxied (rt_proxied R) c (refund_cb c) ((), db)))"
    by (rule ForEach_update_completes [where D = "\<lambda>k b db. AddBalance k (apb_PendingRefundBalance b) (SubDelegateBalance k (apb_PendingRefundBalance b)
          (SubPendingRefundBalanceByUser c k (apb_PendingRefundBalance b) (SubDepositProxiedBalanceByUser c k (apb_PendingRefundBalance b) db)))"
          and G = "\<lambda>k b L. add_field F_Balance k (apb_PendingRefundBalance b) (add_field F_Delegate k (- apb_PendingRefundBalance b)
          (add_pending c k (- apb_PendingRefundBalance b) (add_deposit_proxied c k (- apb_PendingRefundBalance b) L)))" and P = "\<lambda>b. apb_PendingRefundBalance b > 0", OF assms refund p(1)])
      (simp add: refund_cb_def Let_def)
  show "completes (\<lambda>db. map_option snd (ForEachProxied (rt_proxied R) c (deposit_cb c) ((), db)))"
    by (rule ForEach_update_completes [where D = "\<lambda>k b db. AddDepositProxiedBalanceByUser c k (apb_ProxiedBalance b) (SubProxiedBalanceByUser c k (apb_ProxiedBalance b) db)"
          and G = "\<lambda>k b L. add_deposit_proxied c k (apb_ProxiedBalance b) (add_proxied c k (- apb_ProxiedBalance b) L)" and P = "\<lambda>_. True", OF assms deposit p(2)])
      (simp add: deposit_cb_def)
  show "completes (\<lambda>db. map_option snd (ForEachProxied (rt_proxied R) c (deposit_positive_cb c) ((), db)))"
    by (rule ForEach_update_completes [where D = "\<lambda>k b db. AddDepositProxiedBalanceByUser c k (apb_ProxiedBalance b) (SubProxiedBalanceByUser c k (apb_ProxiedBalance b) db)"
          and G = "\<lambda>k b L. add_deposit_proxied c k (apb_ProxiedBalance b) (add_proxied c k (- apb_ProxiedBalance b) L)" and P = "\<lambda>b. apb_ProxiedBalance b > 0", OF assms deposit p(2)])
      (simp add: deposit_cb_def deposit_positive_cb_def)
  show "completes (\<lambda>db. map_option snd (ForEachProxied (rt_proxied R) c (withdraw_cb c) ((), db)))"
    by (rule ForEach_update_completes [where D = "\<lambda>k b db. AddProxiedBalanceByUser c k (apb_DepositProxiedBalance b) (SubDepositProxiedBalanceByUser c k (apb_DepositProxiedBalance b) db)"
          and G = "\<lambda>k b L. add_proxied c k (apb_DepositProxiedBalance b) (add_deposit_proxied c k (- apb_DepositProxiedBalance b) L)" and P = "\<lambda>b. apb_DepositProxiedBalance b > 0", OF assms withdraw p(3)])
      (simp add: withdraw_cb_def Let_def)
qed

subsection \<open>The steps complete\<close>

lemma refund_address_completes:
  assumes "runtime_ok R"
  shows "completes (refund_address R a)"
proof -
  let ?f = "\<lambda>db. let (candidate, db2) = IsCandidate a db in if \<not> candidate then ClearCommission a db2 else db2"
  have "conserves db (?f db)" for db
    using conserves_trans [OF reads_conserve(1) [of db a] writes_conserve(1)] reads_conserve(1) [of db a]
    by (simp add: split_beta Let_def)
  moreover have "refund_address R a =
      (\<lambda>db. map_option ?f (map_option snd (ForEachProxied (rt_proxied R) a (refund_cb a) ((), db))))"
    by (rule ext) (simp add: refund_address_def split_beta Let_def split: option.split)
  ultimately show ?thesis
    using pres.completing_map [OF callbacks_complete(1) [OF assms]] by simp
qed

lemma refund_pending_completes:
  assumes "runtime_ok R"
  shows "completes (refund_pending R)"
  unfolding completing_def
proof (intro allI impI)
  fix db assume s: "sound db"
  let ?db = "snd (GetDelegateAddressRefundSet db)"
  have c: "conserves db ?db" "sound ?db"
    using reads_conserve(11) [of db] s by (simp_all add: conserving_def)
  have f0: "completes (fold_opt (refund_address R) xs)" for xs
    by (rule pres.completing_fold) (rule refund_address_completes [OF assms])
  obtain db' where f: "fold_opt (refund_address R) (rt_addresses R (fst (GetDelegateAddressRefundSet db))) ?db = Some db'"
      "conserves ?db db'"
    using completingD [OF f0 c(2)] by blast
  show "\<exists>db'. refund_pending R db = Some db' \<and> conserves db db'"
    using conserves_trans [OF conserves_trans [OF c(1) f(2)] writes_conserve(5)]
    by (simp add: refund_pending_def split_beta Let_def f(1))
qed

lemma deposit_validator_completes:
  assumes "runtime_ok R"
  shows "completes (deposit_validator R v)"
  unfolding completing_def
proof (intro allI impI)
  fix db assume s: "sound db"
  let ?a = "BytesToAddress (Address v)"
  let ?db1 = "snd (IsCandidate ?a db)" and ?db2 = "snd (GetTotalProxiedBalance ?a (snd (IsCandidate ?a db)))"
  have c: "conserves db ?db1" "conserves db ?db2"
    using reads_conserve(1,2) conserves_trans by blast+
  then have "sound ?db2"
    using s by (simp add: conserving_def)
  then obtain db' where f: "map_option snd (ForEachProxied (rt_proxied R) ?a (deposit_positive_cb ?a) ((), ?db2)) = Some db'"
      "conserves ?db2 db'"
    using completingD [OF callbacks_complete(3) [OF assms]] by blast
  show "\<exists>db'. deposit_validator R v db = Some db' \<and> conserves db db'"
    using c f(1) conserves_trans [OF c(2) f(2)] by (simp add: deposit_validator_def split_beta Let_def)
qed

lemma pay_refund_completes:
  assumes "runtime_ok R" "rf_Voteout r \<or> rf_Amount r \<noteq> None"
  shows "completes (pay_refund R r)"
  unfolding completing_def
proof (intro allI impI)
  fix db assume s: "sound db"
  let ?a = "rf_Address r"
  let ?db1 = "snd (IsCandidate ?a db)"
  let ?pay = "\<lambda>db. AddBalance ?a (fst (GetDepositBalance ?a db))
      (SubDepositBalance ?a (fst (GetDepositBalance ?a db)) (snd (GetDepositBalance ?a db)))"
  have pay: "conserves db (?pay db)" for db
    using conserves_trans [OF reads_conserve(5) deposit_to_balance_conserves] .
  have c: "conserves db ?db1" "sound ?db1"
    using reads_conserve(1) [of db ?a] s by (simp_all add: conserving_def)
  obtain db2 where f: "map_option snd (ForEachProxied (rt_proxied R) ?a (withdraw_cb ?a) ((), ?db1)) = Some db2"
      "conserves ?db1 db2"
    using completingD [OF callbacks_complete(4) [OF assms(1)] c(2)] by blast
  show "\<exists>db'. pay_refund R r db = Some db' \<and> conserves db db'"
    using assms(2) f(1) deposit_to_balance_conserves conserves_trans [OF c(1) pay]
      conserves_trans [OF conserves_trans [OF c(1) f(2)] pay]
    by (auto simp: pay_refund_def split_beta Let_def)
qed

subsection \<open>Merging votes\<close>

text \<open>
  What a vote means: a revealed vote sets the power of its address, and a vote of nothing
  removes a validator; what a validator loses is refunded.
\<close>

definition revealed :: "epoch_vote \<Rightarrow> bool" where
  "revealed v \<longleftrightarrow> ev_Amount v \<noteq> None \<and> ev_Salt v \<noteq> '''' \<and> ev_PubKey v \<noteq> None"

definition powers :: "validator_set \<Rightarrow> bytes \<rightharpoonup> int" where
  "powers s a = map_option VotingPower (lookup s a)"

definition vote_effect :: "epoch_vote \<Rightarrow> (bytes \<rightharpoonup> int) \<Rightarrow> (bytes \<rightharpoonup> int)" where
  "vote_effect v m =
     (if revealed v
      then m(ev_Address v := (if m (ev_Address v) \<noteq> None \<and> ev_Amount v = Some 0 then None else ev_Amount v))
      else m)"

definition vote_refund :: "epoch_vote \<Rightarrow> (bytes \<rightharpoonup> int) \<Rightarrow> refund list" where
  "vote_refund v m =
     (case (m (ev_Address v), ev_Amount v) of
        (Some p, Some x) \<Rightarrow>
          if revealed v \<and> (x = 0 \<or> x < p)
          then [\<lparr>rf_Address = ev_Address v, rf_Amount = Some (p - x), rf_Voteout = False\<rparr>] else []
      | _ \<Rightarrow> [])"

fun vote_refunds :: "epoch_vote list \<Rightarrow> (bytes \<rightharpoonup> int) \<Rightarrow> refund list" where
  "vote_refunds [] m = []"
| "vote_refunds (v # vs) m = vote_refund v m @ vote_refunds vs (vote_effect v m)"

lemma Size_changes:
  "Size (fst (Add s v)) \<le> Size s + 1" "Size (fst (Update s v)) = Size s" "Size (fst (Remove s a)) \<le> Size s"
  by (auto simp: Size_def Add_def Update_Validators Remove_Validators split: option.split dest: index_of_Some)

lemma merge_vote_refines:
  assumes d: "distinct_addresses s"
  shows "\<exists>s' k. merge_vote v (s, refunds, n) = Inr (s', refunds @ vote_refund v (powers s), n + k) \<and>
    distinct_addresses s' \<and> powers s' = vote_effect v (powers s) \<and> Size s' \<le> Size s + k"
proof (cases "revealed v")
  case False
  then show ?thesis
    using d by (intro exI [of _ s] exI [of _ 0])
      (auto simp: merge_vote_def revealed_def vote_effect_def vote_refund_def split: option.split)
next
  case True
  then obtain x pk where x: "ev_Amount v = Some x" "ev_PubKey v = Some pk" "ev_Salt v \<noteq> ''''"
    by (auto simp: revealed_def)
  let ?a = "ev_Address v"
  show ?thesis
  proof (cases "lookup s ?a")
    case None
    let ?r = "Add s (NewValidator ?a pk x)"
    have k: "Address (NewValidator ?a pk x) = ?a" "VotingPower (NewValidator ?a pk x) = x"
      by (simp_all add: NewValidator_def)
    obtain s1 where r: "?r = (s1, True)"
      using valset.add_flag [OF d, of "NewValidator ?a pk x"] None k by (cases ?r) simp
    then have "merge_vote v (s, refunds, n) = Inr (fst ?r, refunds, n + 1)"
      using None by (subst merge_vote_def) (simp add: x lookup_def [symmetric])
    moreover have "powers (fst ?r) = vote_effect v (powers s)"
      using None True by (simp add: fun_eq_iff powers_def vote_effect_def valset.get_add [OF d] k x)
    ultimately show ?thesis
      using None valset.invar_add [OF d] Size_changes(1) by (auto simp: vote_refund_def powers_def)
  next
    case (Some val)
    have val: "Address val = ?a"
      using Some lookup_Some_iff [OF d] by simp
    show ?thesis
    proof (cases "x = 0")
      case 0: True
      let ?r = "Remove s (Address val)"
      obtain s1 where r: "?r = (s1, Some val, True)"
        using valset.rem_result [OF d, of "Address val"] Some val by (cases ?r) simp
      then have "merge_vote v (s, refunds, n) = Inr (fst ?r, refunds @ vote_refund v (powers s), n)"
        using Some True by (subst merge_vote_def) (simp add: x 0 lookup_def [symmetric] vote_refund_def powers_def)
      moreover have "powers (fst ?r) = vote_effect v (powers s)"
        using Some True by (simp add: fun_eq_iff powers_def vote_effect_def valset.get_rem [OF d] val x 0)
      ultimately show ?thesis
        using valset.invar_rem [OF d] Size_changes(3) by (intro exI [of _ "fst ?r"] exI [of _ 0]) simp
    next
      case nz: False
      let ?w = "val\<lparr>VotingPower := x\<rparr>"
      let ?r = "Update s ?w"
      have w: "Address ?w = ?a"
        by (simp add: val)
      obtain s1 where r: "?r = (s1, True)"
        using valset.upd_flag [OF d, of ?w] Some w by (cases ?r) simp
      then have "merge_vote v (s, refunds, n) = Inr (fst ?r, refunds @ vote_refund v (powers s), n)"
        using Some True nz by (subst merge_vote_def) (simp add: x lookup_def [symmetric] vote_refund_def powers_def Let_def)
      moreover have "powers (fst ?r) = vote_effect v (powers s)"
        using Some True nz by (simp add: fun_eq_iff powers_def vote_effect_def valset.get_upd [OF d] w x)
      ultimately show ?thesis
        using valset.invar_upd [OF d] Size_changes(2) by (intro exI [of _ "fst ?r"] exI [of _ 0]) simp
    qed
  qed
qed

lemma merge_votes_refines:
  assumes "distinct_addresses s"
  shows "\<exists>s' k. merge_votes vs (s, refunds, n) = Inr (s', refunds @ vote_refunds vs (powers s), n + k) \<and>
    distinct_addresses s' \<and> powers s' = fold vote_effect vs (powers s) \<and> Size s' \<le> Size s + k"
  using assms
proof (induction vs arbitrary: s refunds n)
  case Nil
  then show ?case
    by (intro exI [of _ s] exI [of _ 0]) simp
next
  case (Cons v vs)
  obtain s1 k1 where 1: "merge_vote v (s, refunds, n) = Inr (s1, refunds @ vote_refund v (powers s), n + k1)"
      "distinct_addresses s1" "powers s1 = vote_effect v (powers s)" "Size s1 \<le> Size s + k1"
    using merge_vote_refines [OF Cons.prems] by blast
  obtain s2 k2 where 2: "merge_votes vs (s1, refunds @ vote_refund v (powers s), n + k1) =
        Inr (s2, (refunds @ vote_refund v (powers s)) @ vote_refunds vs (powers s1), n + k1 + k2)"
      "distinct_addresses s2" "powers s2 = fold vote_effect vs (powers s1)" "Size s2 \<le> Size s1 + k2"
    using Cons.IH [OF 1(2)] by blast
  show ?case
    using 1 2 by (intro exI [of _ s2] exI [of _ "k1 + k2"]) (simp add: add.assoc)
qed

lemma elapse_fields [simp]: "Address (elapse v) = Address v" "VotingPower (elapse v) = VotingPower v"
  by (simp_all add: elapse_def)

text \<open>The contract of \<open>sort.Slice\<close>: a permutation in which nothing ranks before what precedes it.\<close>

definition sorts_validators :: "runtime \<Rightarrow> bool" where
  "sorts_validators R \<longleftrightarrow> (\<forall>vs. mset (rt_sort_validators R vs) = mset vs \<and>
     sorted_wrt (\<lambda>a b. \<not> ranks_before b a) (rt_sort_validators R vs))"

lemma sorted_split:
  assumes "sorted_wrt (\<lambda>a b. \<not> P b a) xs" "k \<in> set (take n xs)" "c \<in> set (drop n xs)"
  shows "\<not> P c k"
proof -
  have "sorted_wrt (\<lambda>a b. \<not> P b a) (take n xs @ drop n xs)"
    using assms(1) by simp
  then show ?thesis
    using assms(2,3) unfolding sorted_wrt_append by blast
qed

text \<open>The cut: who stays and who is knocked out.\<close>

lemma cut_validators:
  assumes "sorts_validators R" "distinct_addresses s" "Size s \<le> old + k"
    and "ranked = (let vals = map elapse (Validators s) in if length vals > clamp_size (old + k)
        then rt_sort_validators R vals else vals)"
  shows "mset ranked = mset (map elapse (Validators s))"
    "k1 \<in> set (take 100 ranked) \<Longrightarrow> c \<in> set (drop 100 ranked) \<Longrightarrow> \<not> ranks_before c k1"
    "length (map elapse (Validators s)) > clamp_size (old + k) \<Longrightarrow> clamp_size (old + k) = 100"
    "length (map elapse (Validators s)) \<le> clamp_size (old + k) \<Longrightarrow> length ranked \<le> 100"
proof -
  show m: "mset ranked = mset (map elapse (Validators s))"
    using assms(1) by (auto simp: assms(4) Let_def sorts_validators_def)
  show "length (map elapse (Validators s)) \<le> clamp_size (old + k) \<Longrightarrow> length ranked \<le> 100"
    using mset_eq_length [OF m]
    by (auto simp: clamp_size_def MaximumValidatorsSize_def MinimumValidatorsSize_def split: if_splits)
  show "length (map elapse (Validators s)) > clamp_size (old + k) \<Longrightarrow> clamp_size (old + k) = 100"
    using assms(3)
    by (auto simp: clamp_size_def MaximumValidatorsSize_def MinimumValidatorsSize_def Size_def split: if_splits)
  then show "\<not> ranks_before c k1" if "k1 \<in> set (take 100 ranked)" "c \<in> set (drop 100 ranked)"
  proof (cases "length (map elapse (Validators s)) > clamp_size (old + k)")
    case True
    then have "sorted_wrt (\<lambda>a b. \<not> ranks_before b a) ranked"
      using assms(1) by (simp add: assms(4) Let_def sorts_validators_def)
    then show ?thesis
      using that by (rule sorted_split)
  next
    case False
    then have "length ranked \<le> 100"
      using mset_eq_length [OF m]
      by (auto simp: clamp_size_def MaximumValidatorsSize_def MinimumValidatorsSize_def split: if_splits)
    then show ?thesis
      using that(2) by simp
  qed
qed

lemma next_set:
  assumes "sorts_validators R" "distinct_addresses s"
  shows "\<exists>s' merged out. updateEpochValidatorSet R voteSet s =
      Inr (s', vote_refunds (case voteSet of None \<Rightarrow> [] | Some vs \<Rightarrow> votes_of vs) (powers s) @
         map knockout_refund out) \<and>
    powers merged = fold vote_effect (case voteSet of None \<Rightarrow> [] | Some vs \<Rightarrow> votes_of vs) (powers s) \<and>
    mset (Validators s' @ out) = mset (map elapse (Validators merged)) \<and>
    distinct_addresses s' \<and> Size s' = min 100 (Size merged) \<and>
    (\<forall>k \<in> set (Validators s'). \<forall>c \<in> set out. \<not> ranks_before c k)"
proof -
  let ?votes = "case voteSet of None \<Rightarrow> [] | Some vs \<Rightarrow> votes_of vs"
  obtain s1 k where m: "merge_votes ?votes (s, [], 0) = Inr (s1, vote_refunds ?votes (powers s), k)"
      and s1: "distinct_addresses s1" "powers s1 = fold vote_effect ?votes (powers s)" "Size s1 \<le> Size s + k"
    using merge_votes_refines [OF assms(2), of ?votes "[]" 0] by auto
  have e: "(if VoteSet_IsEmpty voteSet then Inr (s, [], 0) else merge_votes ?votes (s, [], 0)) =
      (Inr (s1, vote_refunds ?votes (powers s), k) :: set_change_error + _)"
    using m by (auto simp: VoteSet_IsEmpty_def votes_of_def split: option.splits)
  define vals where "vals = map elapse (Validators s1)"
  define ranked where "ranked = (let vals = map elapse (Validators s1) in if length vals > clamp_size (Size s + k)
      then rt_sort_validators R vals else vals)"
  have len: "length (Validators s1) = length vals"
    by (simp add: vals_def)
  note c = cut_validators [OF assms(1) s1(1,3) ranked_def, folded vals_def]
  let ?s = "s1\<lparr>Validators := take 100 ranked\<rparr>"
  have "updateEpochValidatorSet R voteSet s = Inr (?s, vote_refunds ?votes (powers s) @
      map knockout_refund (drop 100 ranked))"
  proof (cases "length vals > clamp_size (Size s + k)")
    case True
    then show ?thesis
      using c(3) [OF True]
      by (simp add: updateEpochValidatorSet_def e Let_def ranked_def len flip: vals_def)
  next
    case False
    then have "length ranked \<le> 100" "ranked = vals"
      using c(4) by (simp_all add: ranked_def Let_def len flip: vals_def)
    then show ?thesis
      using False by (simp add: updateEpochValidatorSet_def e Let_def len flip: vals_def)
  qed
  moreover have "distinct (map Address ranked)"
  proof -
    have "mset (map Address ranked) = mset (map Address (Validators s1))"
      using arg_cong [OF c(1), of "image_mset Address"] by (simp add: vals_def multiset.map_comp comp_def)
    then show ?thesis
      using s1(1) unfolding distinct_addresses_def by (metis mset_eq_imp_distinct_iff)
  qed
  then have "distinct_addresses ?s"
    by (simp add: distinct_addresses_def distinct_take flip: take_map)
  moreover have "mset (Validators ?s @ drop 100 ranked) = mset vals"
    using c(1) by (simp flip: mset_append)
  moreover have "Size ?s = min 100 (Size s1)"
    using mset_eq_length [OF c(1)] by (simp add: Size_def vals_def)
  ultimately show ?thesis
    using s1(2) c(2)
    by (intro exI [of _ ?s] exI [of _ s1] exI [of _ "drop 100 ranked"]) (simp add: vals_def)
qed

lemma next_set_shape:
  assumes "sorts_validators R" "distinct_addresses s"
  shows "\<exists>s' out. updateEpochValidatorSet R voteSet s =
      Inr (s', vote_refunds (case voteSet of None \<Rightarrow> [] | Some vs \<Rightarrow> votes_of vs) (powers s) @
         map knockout_refund out) \<and>
    distinct_addresses s' \<and> Size s' \<le> 100"
proof -
  from next_set [OF assms, of voteSet] show ?thesis
  proof (elim exE conjE, goal_cases)
    case (1 s' merged out)
    then have "Size s' \<le> 100"
      by simp
    with 1(1,4) show ?case
      by blast
  qed
qed

text \<open>
  C9: The next validator set is the vote's outcome, cut to the best hundred.  For a set without
  duplicate addresses \<open>updateEpochValidatorSet\<close> never fails: the powers after merging are
  those the revealed votes ask for, in their order; at most a hundred validators remain, and
  all of them if there are no more; no validator that is knocked out has more remaining epochs,
  or as many and more power, than one that stays; and the refunds are exactly what the votes
  reduced followed by one for each validator knocked out.
\<close>
theorem next_validator_set:
  assumes "sorts_validators R" "distinct_addresses s"
  shows "\<exists>s' merged out. updateEpochValidatorSet R voteSet s =
      Inr (s', vote_refunds (case voteSet of None \<Rightarrow> [] | Some vs \<Rightarrow> votes_of vs) (powers s) @
         map knockout_refund out) \<and>
    powers merged = fold vote_effect (case voteSet of None \<Rightarrow> [] | Some vs \<Rightarrow> votes_of vs) (powers s) \<and>
    mset (Validators s' @ out) = mset (map elapse (Validators merged)) \<and>
    distinct_addresses s' \<and> Size s' = min 100 (Size merged) \<and>
    (\<forall>k \<in> set (Validators s'). \<forall>c \<in> set out. \<not> ranks_before c k)"
  by (rule next_set [OF assms])

text \<open>Concrete choices: sets and tries in order, stable sorting.\<close>

definition sample_runtime :: runtime where
  "sample_runtime =
     \<lparr>rt_addresses = sorted_list_of_set, rt_proxied = (\<lambda>t. t),
      rt_sort_votes = sort_key (\<lambda>v. - (case ev_Amount v of None \<Rightarrow> 0 | Some x \<Rightarrow> x)),
      rt_sort_validators = sort_key (\<lambda>v. (- int (unat (RemainingEpoch v)), - VotingPower v))\<rparr>"

lemma sample_runtime_ok: "runtime_ok sample_runtime" "sorts_validators sample_runtime"
proof -
  show "runtime_ok sample_runtime"
    by (simp add: runtime_ok_def sample_runtime_def)
  let ?f = "\<lambda>v. (- int (unat (RemainingEpoch v)), - VotingPower v)"
  have "\<not> ranks_before b a" if "?f a \<le> ?f b" for a b
    using that by (auto simp: ranks_before_def less_eq_prod_def word_less_def split: if_splits)
  moreover have "sorted_wrt (\<lambda>a b. ?f a \<le> ?f b) (sort_key ?f vs)" for vs
    using sorted_sort_key [of ?f vs] by (simp add: sorted_map)
  ultimately have "sorted_wrt (\<lambda>a b. \<not> ranks_before b a) (sort_key ?f vs)" for vs
    using sorted_wrt_mono_rel [of "sort_key ?f vs" "\<lambda>a b. ?f a \<le> ?f b" "\<lambda>a b. \<not> ranks_before b a"] by blast
  then show "sorts_validators sample_runtime"
    by (simp add: sorts_validators_def sample_runtime_def)
qed

theorem next_validator_set_witness:
  "let s = \<lparr>Validators = [NewValidator [1] [9] 10, NewValidator [2] [8] 20], totalVotingPower = None\<rparr>;
       vote = (\<lambda>a x. \<lparr>ev_Address = [a], ev_PubKey = Some [7], ev_Amount = Some x, ev_Salt = ''neatio'',
                      ev_VoteHash = zero_hash, ev_TxHash = zero_hash\<rparr>);
       vs = table_of [vote 1 0, vote 2 15, vote 3 5] in
   \<exists>s' out. updateEpochValidatorSet sample_runtime (Some vs) s =
     Inr (s', [\<lparr>rf_Address = [1], rf_Amount = Some 10, rf_Voteout = False\<rparr>,
               \<lparr>rf_Address = [2], rf_Amount = Some 5, rf_Voteout = False\<rparr>] @ out) \<and> Size s' \<le> 100"
proof -
  let ?s = "\<lparr>Validators = [NewValidator [1] [9] 10, NewValidator [2] [8] 20], totalVotingPower = None\<rparr>"
  let ?vote = "\<lambda>a x. \<lparr>ev_Address = [a], ev_PubKey = Some [7], ev_Amount = Some x, ev_Salt = ''neatio'',
      ev_VoteHash = zero_hash, ev_TxHash = zero_hash\<rparr>"
  let ?votes = "[?vote 1 0, ?vote 2 15, ?vote 3 5]"
  have v: "votes_of (table_of ?votes) = ?votes"
    by (rule table_of_ok) simp
  have d: "distinct_addresses ?s"
    by (simp add: distinct_addresses_def NewValidator_def)
  have "vote_refunds ?votes (powers ?s) =
      [\<lparr>rf_Address = [1], rf_Amount = Some 10, rf_Voteout = False\<rparr>,
       \<lparr>rf_Address = [2], rf_Amount = Some 5, rf_Voteout = False\<rparr>]"
    by (simp add: vote_refund_def vote_effect_def revealed_def powers_def lookup_def GetByAddress_def NewValidator_def)
  then show ?thesis
    using next_validator_set [OF sample_runtime_ok(2) d, of "Some (table_of ?votes)"]
    unfolding Let_def option.case v by fastforce
qed

subsection \<open>The shrinking slice\<close>

definition slice_ok :: "slice \<Rightarrow> bool" where
  "slice_ok s \<longleftrightarrow> sl_len s \<le> length (sl_arr s) \<and> (\<forall>p \<in> set (sl_arr s). p < length (sl_heap s)) \<and>
     distinct (map Address (slice_contents s))"

lemma slice_of_ok: "distinct_addresses s \<Longrightarrow> slice_ok (slice_of s)" "slice_contents (slice_of s) = Validators s"
  by (simp_all add: slice_ok_def slice_of_def slice_contents_def distinct_addresses_def map_nth)

lemma slice_Remove_ok:
  assumes "slice_ok s"
  shows "slice_ok (slice_Remove a s)"
    "slice_contents (slice_Remove a s) = filter (\<lambda>v. Address v \<noteq> a) (slice_contents s)"
    "length (sl_arr (slice_Remove a s)) = length (sl_arr s)"
proof -
  let ?c = "slice_contents s"
  have l: "sl_len s \<le> length (sl_arr s)" "length ?c = sl_len s" "\<forall>p \<in> set (sl_arr s). p < length (sl_heap s)"
      "distinct (map Address ?c)"
    using assms by (simp_all add: slice_ok_def slice_contents_def)
  have "slice_contents (slice_Remove a s) = filter (\<lambda>v. Address v \<noteq> a) ?c \<and>
      length (sl_arr (slice_Remove a s)) = length (sl_arr s) \<and> sl_len (slice_Remove a s) \<le> sl_len s \<and>
      set (sl_arr (slice_Remove a s)) \<subseteq> set (sl_arr s) \<and> sl_heap (slice_Remove a s) = sl_heap s"
  proof (cases "index_of a ?c")
    case None
    then have "filter (\<lambda>v. Address v \<noteq> a) ?c = ?c"
      by (auto simp: index_of_None filter_id_conv)
    then show ?thesis
      using None by (simp add: slice_Remove_def)
  next
    case (Some i)
    then have i: "i < sl_len s" "Address (?c ! i) = a"
      using index_of_Some [OF Some] l(2) by simp_all
    have "sl_len s - Suc 0 \<le> i \<Longrightarrow> sl_len s - Suc 0 = i"
      using i(1) by simp
    then have "slice_contents (slice_Remove a s) = take i ?c @ drop (Suc i) ?c"
      using i(1) l(1) Some
      by (auto simp: slice_Remove_def slice_contents_def min_def take_map drop_map)
    also have "\<dots> = filter (\<lambda>v. Address v \<noteq> a) ?c"
    proof -
      have c: "?c = take i ?c @ ?c ! i # drop (Suc i) ?c"
        using i(1) l(2) by (simp add: id_take_nth_drop)
      have "distinct (map Address (take i ?c @ ?c ! i # drop (Suc i) ?c))"
        using l(4) c by simp
      then have "a \<notin> Address ` set (take i ?c)" "a \<notin> Address ` set (drop (Suc i) ?c)"
        using i(2) by auto
      then have "filter (\<lambda>v. Address v \<noteq> a) (take i ?c) = take i ?c"
          "filter (\<lambda>v. Address v \<noteq> a) (drop (Suc i) ?c) = drop (Suc i) ?c"
        by (auto simp: filter_id_conv)
      then show ?thesis
        using i(2) by (subst (3) c) simp
    qed
    finally show ?thesis
      using i(1) l(1) Some set_take_subset set_drop_subset
      by (auto simp: slice_Remove_def dest: in_set_takeD in_set_dropD)
  qed
  then show "slice_contents (slice_Remove a s) = filter (\<lambda>v. Address v \<noteq> a) (slice_contents s)"
      "length (sl_arr (slice_Remove a s)) = length (sl_arr s)" "slice_ok (slice_Remove a s)"
    using l by (auto simp: slice_ok_def distinct_map_filter)
qed

lemma slice_set_power_ok:
  assumes "slice_ok s"
  shows "slice_ok (slice_set_power p x s)" "length (sl_arr (slice_set_power p x s)) = length (sl_arr s)"
proof -
  let ?h = "(sl_heap s)[p := (sl_heap s ! p)\<lparr>VotingPower := x\<rparr>]"
  have "Address (?h ! q) = Address (sl_heap s ! q)" if "q < length (sl_heap s)" for q
    using that by (cases "p = q") simp_all
  then have "map Address (slice_contents (slice_set_power p x s)) = map Address (slice_contents s)"
    using assms by (auto simp: slice_contents_def slice_set_power_def slice_ok_def dest: in_set_takeD)
  then show "slice_ok (slice_set_power p x s)" "length (sl_arr (slice_set_power p x s)) = length (sl_arr s)"
    using assms by (auto simp: slice_ok_def slice_set_power_def)
qed

lemma review_validator_ok:
  assumes "review_validator k (sl, refunds, db) = (sl', refunds', db')" "slice_ok sl" "\<forall>r \<in> set refunds. rf_Voteout r"
  shows "slice_ok sl'" "conserves db db'" "\<forall>r \<in> set refunds'. rf_Voteout r"
proof -
  let ?v = "sl_heap sl ! (sl_arr sl ! k)"
  let ?a = "BytesToAddress (Address ?v)"
  let ?db1 = "snd (GetBanned ?a db)"
  have c: "conserves db ?db1"
    by (rule reads_conserve)
  have "conserves db (snd (new_power ?a ?db1))" "conserves db (elapse_ban ?a (delete_candidate ?a ?db1))"
    using conserves_trans [OF c new_power_conserves]
      conserves_trans [OF conserves_trans [OF c delete_candidate_conserves] elapse_ban_conserves] by blast+
  then show "slice_ok sl'" "conserves db db'" "\<forall>r \<in> set refunds'. rf_Voteout r"
    using assms slice_Remove_ok(1) slice_set_power_ok(1)
    by (auto simp: review_validator_def Let_def split_beta split: if_splits)
qed

lemma review_fold_ok:
  assumes "fold review_validator ks (sl, refunds, db) = (sl', refunds', db')" "slice_ok sl"
    and "\<forall>r \<in> set refunds. rf_Voteout r"
  shows "slice_ok sl' \<and> conserves db db' \<and> (\<forall>r \<in> set refunds'. rf_Voteout r)"
  using assms
proof (induction ks arbitrary: sl refunds db)
  case (Cons k ks)
  obtain sl1 refunds1 db1 where 1: "review_validator k (sl, refunds, db) = (sl1, refunds1, db1)"
    using prod_cases3 by blast
  note ok = review_validator_ok [OF 1 Cons.prems(2,3)]
  have "slice_ok sl' \<and> conserves db1 db' \<and> (\<forall>r \<in> set refunds'. rf_Voteout r)"
    using Cons.IH [OF _ ok(1,3)] Cons.prems(1) 1 by simp
  then show ?case
    using conserves_trans [OF ok(2)] by blast
qed simp

lemma review_candidate_ok:
  assumes "runtime_ok R" "sound db"
  shows "\<exists>arr' db'. review_candidate R a (arr, db) = Some (arr', db') \<and> conserves db db'"
proof -
  let ?db1 = "snd (IsCandidate a db)" and ?db2 = "snd (net_proxied a (snd (IsCandidate a db)))"
  have c: "conserves db ?db1" "conserves db ?db2"
    using reads_conserve(1) conserves_trans [OF reads_conserve(1) net_proxied_conserves] by blast+
  then have "sound ?db2"
    using assms(2) by (simp add: conserving_def)
  then obtain db3 where "map_option snd (ForEachProxied (rt_proxied R) a (deposit_cb a) ((), ?db2)) = Some db3"
      and c3: "conserves ?db2 db3"
    using completingD [OF callbacks_complete(2) [OF assms(1)]] by blast
  then obtain u where f: "ForEachProxied (rt_proxied R) a (deposit_cb a) ((), ?db2) = Some (u, db3)"
    by auto
  have "conserves db (snd (GetPubkey a db3))"
    using conserves_trans [OF conserves_trans [OF c(2) c3] reads_conserve(6)] .
  then show ?thesis
    using c f by (simp add: review_candidate_def Let_def split_beta)
qed

lemma review_candidates_ok:
  assumes "runtime_ok R" "sound db"
  shows "\<exists>arr' db'. fold_opt (review_candidate R) as (arr, db) = Some (arr', db') \<and> conserves db db'"
  using assms(2)
proof (induction as arbitrary: arr db)
  case (Cons a as)
  obtain arr1 db1 where 1: "review_candidate R a (arr, db) = Some (arr1, db1)" "conserves db db1"
    using review_candidate_ok [OF assms(1) Cons.prems] by blast
  then have "sound db1"
    using Cons.prems by (simp add: conserving_def)
  then obtain arr2 db2 where "fold_opt (review_candidate R) as (arr1, db1) = Some (arr2, db2)" "conserves db1 db2"
    using Cons.IH by blast
  then show ?case
    using 1 conserves_trans by auto
qed simp

lemma store_votes_ok: "vt_ok vs \<Longrightarrow> \<exists>vs'. fold_opt StoreVote ws vs = Some vs' \<and> vt_ok vs'"
proof (induction ws arbitrary: vs)
  case (Cons w ws)
  then obtain vs1 where "StoreVote w vs = Some vs1" "vt_ok vs1"
    using StoreVote_eq StoreVote_votes(1) by blast
  then show ?case
    using Cons.IH by simp
qed simp

lemma candidate_votes_ok:
  assumes "runtime_ok R" "sound db" "vt_ok voteSet"
  shows "\<exists>voteSet' db'. candidate_votes R newVals voteSet db = Some (voteSet', db') \<and> conserves db db'"
proof (cases "candidateSet db = {}")
  case False
  let ?db1 = "fold drop_banned (rt_addresses R (candidateSet db)) db"
  let ?db2 = "fold (\<lambda>v. delete_candidate (BytesToAddress (Address v))) newVals ?db1"
  let ?db3 = "fold (\<lambda>v. delete_candidate (ev_Address v)) (votes_of voteSet) ?db2"
  have c: "conserves db ?db3"
    by (rule conserves_trans [OF conserves_trans [OF pres.conserving_fold pres.conserving_fold] pres.conserving_fold])
      (rule drop_banned_conserves delete_candidate_conserves)+
  then have "sound ?db3"
    using assms(2) by (simp add: conserving_def)
  then obtain arr db4 where "fold_opt (review_candidate R) (rt_addresses R (candidateSet ?db3)) ([], ?db3) = Some (arr, db4)"
      "conserves ?db3 db4"
    using review_candidates_ok [OF assms(1)] by blast
  moreover obtain vs' where "fold_opt StoreVote (rt_sort_votes R arr) voteSet = Some vs'"
    using store_votes_ok [OF assms(3)] by blast
  ultimately show ?thesis
    using False conserves_trans [OF c] by (simp add: candidate_votes_def Let_def)
qed (simp add: candidate_votes_def)

lemma vote_refunds_amounts: "r \<in> set (vote_refunds vs m) \<Longrightarrow> rf_Amount r \<noteq> None"
proof (induction vs arbitrary: m)
  case (Cons v vs)
  have "rf_Amount r \<noteq> None" if "r \<in> set (vote_refund v m)"
    using that by (cases "m (ev_Address v)"; cases "ev_Amount v") (auto simp: vote_refund_def split: if_splits)
  then show ?case
    using Cons by auto
qed simp

lemma switch_state_completes:
  assumes "runtime_ok R" "sorts_validators R" "sound db" "distinct_addresses (ep_Validators (ep e))"
    and "\<forall>vs. fst (GetEpochValidatorVoteSet W edb n) = Some vs \<longrightarrow> distinct (map ev_Address (votes_of vs))"
  shows "\<exists>vals e' db'. switch_state W R e n edb db = Some ((True, Some vals, None), e', db') \<and>
    distinct_addresses vals \<and> Size vals \<le> 100 \<and> conserves db db'"
proof -
  obtain db1 where db1: "refund_pending R db = Some db1" "conserves db db1"
    using completingD [OF refund_pending_completes [OF assms(1)] assms(3)] by blast
  let ?old = "fst (GetEpochValidatorVoteSet W edb n)"
  let ?votes = "case VoteSet_Copy ?old of None \<Rightarrow> NewEpochValidatorVoteSet | Some vs \<Rightarrow> vs"
  let ?s = "ValidatorSet_Copy (ep_Validators (ep e))"
  have votes: "vt_ok ?votes"
    using assms(5) table_of_ok(1) vt_ok_new by (cases ?old) (auto simp: VoteSet_Copy_def)
  have d: "distinct_addresses ?s"
    using assms(4) by (simp add: ValidatorSet_Copy_def distinct_addresses_def)
  obtain sl refunds db3 where rev: "review_validators ?s (snd (GetCandidateSet db1)) = (sl, refunds, db3)"
    using prod_cases3 by blast
  have sl: "slice_ok sl \<and> conserves (snd (GetCandidateSet db1)) db3 \<and> (\<forall>r \<in> set refunds. rf_Voteout r)"
    by (rule review_fold_ok [OF rev [unfolded review_validators_def]]) (simp_all add: slice_of_ok d)
  then have c3: "conserves db db3"
    using conserves_trans [OF conserves_trans [OF db1(2) reads_conserve(10)]] by blast
  then have "sound db3"
    using assms(3) by (simp add: conserving_def)
  then obtain voteSet db4 where cand: "candidate_votes R (Validators (slice_set sl)) ?votes db3 = Some (voteSet, db4)"
      and c4: "conserves db3 db4"
    using candidate_votes_ok [OF assms(1) _ votes] by blast
  have ds: "distinct_addresses (slice_set sl)"
    using sl by (simp add: slice_set_def distinct_addresses_def slice_ok_def)
  obtain vals out where upd: "updateEpochValidatorSet R (Some voteSet) (slice_set sl) =
        Inr (vals, vote_refunds (votes_of voteSet) (powers (slice_set sl)) @
          map knockout_refund out)"
      and vals: "distinct_addresses vals" "Size vals \<le> 100"
    using next_set_shape [OF assms(2) ds, of "Some voteSet"] by auto
  let ?refunds = "refunds @ vote_refunds (votes_of voteSet) (powers (slice_set sl)) @
      map knockout_refund out"
  have "sound db4"
    using c4 \<open>sound db3\<close> by (simp add: conserving_def)
  moreover have "completes (fold_opt (deposit_validator R) (Validators vals))"
    by (rule pres.completing_fold) (rule deposit_validator_completes [OF assms(1)])
  ultimately obtain db5 where db5: "fold_opt (deposit_validator R) (Validators vals) db4 = Some db5"
      "conserves db4 db5" "sound db5"
    using completingD unfolding conserving_def by blast
  have "completes (fold_opt (pay_refund R) ?refunds)"
    by (rule pres.completing_fold, rule pay_refund_completes [OF assms(1)])
      (use sl vote_refunds_amounts in \<open>auto simp: knockout_refund_def\<close>)
  then obtain db6 where db6: "fold_opt (pay_refund R) ?refunds db5 = Some db6" "conserves db5 db6"
    using completingD [OF _ db5(3)] by blast
  have "conserves db db6"
    using conserves_trans [OF conserves_trans [OF conserves_trans [OF c3 c4] db5(2)] db6(2)] .
  then show ?thesis
    using db1(1) rev cand upd db5(1) db6(1) vals
    by (simp add: switch_state_def Let_def split_beta)
qed

text \<open>
  C6: The switch to the next epoch always goes through and moves no value.  At the last block
  of an epoch whose successor is known, with a sound database, validators without duplicates
  and at most one vote per address, \<open>ShouldEnterNewEpoch\<close> returns a next validator set of
  distinct addresses, at most a hundred, without panic or error, whatever the order in which
  maps and tries are visited.  Every account keeps the sum of its free, deposited and delegated
  balance; every delegator keeps the net stake (proxied plus deposited less pending refund)
  with every candidate, and every candidate the total of it.
\<close>
theorem epoch_switch_completes:
  assumes "runtime_ok R" "sorts_validators R" "sound db" "distinct_addresses (ep_Validators (ep e))"
    and "height = EndBlock (ep e)" "nextEpoch (GetNextEpoch W edb e) = Some n"
    and "\<forall>vs. fst (GetEpochValidatorVoteSet W edb n) = Some vs \<longrightarrow> distinct (map ev_Address (votes_of vs))"
  shows "\<exists>vals e' db'. ShouldEnterNewEpoch W R height e edb db = Some ((True, Some vals, None), e', db') \<and>
    distinct_addresses vals \<and> Size vals \<le> 100 \<and> sound db' \<and>
    (\<forall>a. wealth (ledger db' a) = wealth (ledger db a) \<and> total_stake (ledger db' a) = total_stake (ledger db a) \<and>
       stake (ledger db' a) = stake (ledger db a))"
proof -
  have "ep (GetNextEpoch W edb e) = ep e"
    by (simp add: GetNextEpoch_def set_next_def split: option.split)
  then obtain vals e' db' where "switch_state W R (GetNextEpoch W edb e) n edb db = Some ((True, Some vals, None), e', db')"
      "distinct_addresses vals" "Size vals \<le> 100" "conserves db db'"
    using switch_state_completes [OF assms(1-3), of "GetNextEpoch W edb e" W edb n] assms(4,7) by auto
  then show ?thesis
    using assms(3,5,6) by (simp add: ShouldEnterNewEpoch_def Let_def conserving_def preserved_def)
qed

theorem epoch_switch_completes_witness:
  "let db = AddDepositBalance (BytesToAddress [1]) 10 (AddBalance (BytesToAddress [2]) 7 (NewStateDB sample_trie));
       n = Epoch (sample_epoch_data 4 EPOCH_SAVED) None None None None;
       e = Epoch ((sample_epoch_data 3 EPOCH_SAVED)\<lparr>ep_Validators :=
             \<lparr>Validators = [NewValidator [1] [9] 10], totalVotingPower = None\<rparr>\<rparr>) None None None (Some n) in
   \<exists>vals e' db'. ShouldEnterNewEpoch sample_wire sample_runtime (EndBlock (ep e)) e Map.empty db =
       Some ((True, Some vals, None), e', db') \<and>
     wealth (ledger db' (BytesToAddress [1])) = wealth (ledger db (BytesToAddress [1]))"
proof -
  let ?db = "AddDepositBalance (BytesToAddress [1]) 10 (AddBalance (BytesToAddress [2]) 7 (NewStateDB sample_trie))"
  let ?n = "Epoch (sample_epoch_data 4 EPOCH_SAVED) None None None None"
  let ?e = "Epoch ((sample_epoch_data 3 EPOCH_SAVED)\<lparr>ep_Validators :=
             \<lparr>Validators = [NewValidator [1] [9] 10], totalVotingPower = None\<rparr>\<rparr>) None None None (Some ?n)"
  have c: "caches_ok (NewStateDB sample_trie)"
    by (simp add: caches_ok_def NewStateDB_def)
  have t: "la_trie (ledger (NewStateDB sample_trie) a) = []" for a
    by (simp add: ledger_def peek_def NewStateDB_def sample_trie_def acct_def empty_acct_def proxiedTrie_def
        newObject_def sample_account_def new_account_def split: option.split)
  note r = refines_comp [OF refines_account(1) [of "BytesToAddress [2]" 7] refines_account(3) [of "BytesToAddress [1]" 10]]
  have "sound ?db"
    using refinesD(1,2) [OF r c] by (simp add: sound_def add_field_def t)
  moreover have "distinct_addresses (ep_Validators (ep ?e))"
    by (simp add: distinct_addresses_def)
  moreover have "nextEpoch (GetNextEpoch sample_wire Map.empty ?e) = Some ?n"
    by (simp add: GetNextEpoch_def)
  moreover have "\<forall>vs. fst (GetEpochValidatorVoteSet sample_wire Map.empty ?n) = Some vs \<longrightarrow>
      distinct (map ev_Address (votes_of vs))"
    by (simp add: GetEpochValidatorVoteSet_def LoadEpochVoteSet_def db_get_def Let_def)
  ultimately show ?thesis
    using epoch_switch_completes [OF sample_runtime_ok _ _ refl, of ?db ?e sample_wire Map.empty ?n]
    unfolding Let_def by blast
qed

subsection \<open>A banned validator can keep its seat\<close>

text \<open>Once the first validator is removed, the pointer to the second one is out of the loop's reach.\<close>

definition skipped :: "validator \<Rightarrow> slice \<Rightarrow> bool" where
  "skipped b s \<longleftrightarrow> slice_ok s \<and> distinct (map Address (sl_heap s)) \<and> 0 < sl_len s \<and>
     1 < length (sl_heap s) \<and> sl_heap s ! 1 = b \<and> (\<exists>ts. sl_arr s = 1 # ts \<and> 1 \<notin> set ts)"

lemma skipped_in: "skipped b s \<Longrightarrow> b \<in> set (slice_contents s)"
  by (cases "sl_len s") (auto simp: skipped_def slice_contents_def)

lemma skipped_Remove:
  assumes "skipped b s" "p < length (sl_heap s)" "p \<noteq> 1"
  shows "skipped b (slice_Remove (Address (sl_heap s ! p)) s)"
proof (cases "index_of (Address (sl_heap s ! p)) (slice_contents s)")
  case None
  then show ?thesis
    using assms(1) by (simp add: slice_Remove_def)
next
  case (Some i)
  obtain ts where ts: "sl_arr s = 1 # ts" "1 \<notin> set ts"
    using assms(1) by (auto simp: skipped_def)
  have s: "slice_ok s" "distinct (map Address (sl_heap s))" "0 < sl_len s" "1 < length (sl_heap s)" "sl_heap s ! 1 = b"
    using assms(1) by (simp_all add: skipped_def)
  have "slice_contents s ! 0 = b"
    using s(3,5) ts by (simp add: slice_contents_def nth_Cons' take_Cons')
  moreover have "Address (sl_heap s ! p) \<noteq> Address (sl_heap s ! 1)"
    using s(2,4) assms(2,3) by (simp add: distinct_conv_nth)
  ultimately have i: "0 < i" "i < sl_len s"
    using index_of_Some [OF Some] s(1,5) by (auto simp: slice_contents_def slice_ok_def intro: gr0I)
  then obtain j where j: "i = Suc j"
    by (cases i) simp_all
  let ?s = "slice_Remove (Address (sl_heap s ! p)) s"
  have "sl_arr ?s = 1 # take j ts @ drop (Suc j) (take (sl_len s - 1) ts) @ drop (sl_len s - 2) ts"
    using i by (simp add: slice_Remove_def Some j ts take_Cons' drop_Cons' numeral_2_eq_2)
  then have "\<exists>us. sl_arr ?s = 1 # us \<and> 1 \<notin> set us"
    using ts(2) by (auto dest: in_set_takeD in_set_dropD)
  moreover have "sl_heap ?s = sl_heap s" "sl_len ?s = sl_len s - 1"
    by (simp_all add: slice_Remove_def Some)
  ultimately show ?thesis
    using s i slice_Remove_ok(1) [OF s(1)] by (simp add: skipped_def)
qed

lemma skipped_set_power:
  assumes "skipped b s" "p \<noteq> 1"
  shows "skipped b (slice_set_power p x s)"
proof -
  have "map Address ((sl_heap s)[p := (sl_heap s ! p)\<lparr>VotingPower := x\<rparr>]) = map Address (sl_heap s)"
    by (cases "p < length (sl_heap s)") (simp_all add: map_update list_update_same_conv list_update_beyond)
  then show ?thesis
    using assms slice_set_power_ok(1) [of s p x] by (auto simp: skipped_def slice_set_power_def)
qed

lemma skipped_review:
  assumes "skipped b (fst st)" "0 < k" "k < length (sl_arr (fst st))"
  shows "skipped b (fst (review_validator k st))" "length (sl_arr (fst (review_validator k st))) = length (sl_arr (fst st))"
proof -
  obtain sl refunds db where st: "st = (sl, refunds, db)"
    by (rule prod_cases3)
  have ok: "slice_ok sl" and p: "sl_arr sl ! k \<noteq> 1" "sl_arr sl ! k < length (sl_heap sl)"
  proof -
    obtain ts where ts: "sl_arr sl = 1 # ts" "1 \<notin> set ts"
      using assms(1) by (auto simp: st skipped_def)
    have m: "ts ! (k - 1) \<in> set ts"
      using assms(2,3) ts(1) by (intro nth_mem) (simp add: st)
    have k: "sl_arr sl ! k = ts ! (k - 1)"
      using assms(2) by (simp add: ts(1) nth_Cons')
    show ok: "slice_ok sl"
      using assms(1) by (simp add: st skipped_def)
    show "sl_arr sl ! k \<noteq> 1"
      using m ts(2) unfolding k by metis
    show "sl_arr sl ! k < length (sl_heap sl)"
      using m ok ts(1) unfolding k slice_ok_def by (metis list.set_intros(2))
  qed
  show "skipped b (fst (review_validator k st))" "length (sl_arr (fst (review_validator k st))) = length (sl_arr (fst st))"
    using assms(1) skipped_Remove [OF _ p(2,1)] skipped_set_power [OF _ p(1)] slice_Remove_ok(3) [OF ok] slice_set_power_ok(2) [OF ok]
    by (auto simp: st review_validator_def Let_def split_beta)
qed

lemma skipped_fold:
  "skipped b (fst st) \<Longrightarrow> \<forall>k \<in> set ks. 0 < k \<and> k < length (sl_arr (fst st)) \<Longrightarrow>
   skipped b (fst (fold review_validator ks st))"
  by (induction ks arbitrary: st) (auto simp: skipped_review)

text \<open>
  C38: The loop that removes banned validators skips one.  It ranges over the slice it shrinks,
  so when the first of at least three validators is banned, the second is never looked at: it
  stays in the set with its old power, even if it is banned or has nothing staked.
\<close>
theorem banned_validator_survives:
  assumes "distinct_addresses s" "Validators s = a # b # c # vs"
    and "fst (GetBanned (BytesToAddress (Address a)) db)"
  shows "b \<in> set (slice_contents (fst (review_validators s db)))"
proof -
  let ?st = "review_validator 0 (slice_of s, [], db)"
  have sl: "fst ?st = slice_Remove (Address a) (slice_of s)"
  proof -
    have "sl_arr (slice_of s) ! 0 = 0" "sl_heap (slice_of s) ! 0 = a"
      using assms(2) by (simp_all add: slice_of_def del: upt_Suc)
    then show ?thesis
      using assms(3) by (simp add: review_validator_def Let_def split_beta)
  qed
  have ok: "slice_ok (fst ?st)" "length (sl_arr (fst ?st)) = Size s"
    using slice_Remove_ok(1,3) [OF slice_of_ok(1) [OF assms(1)], of "Address a"]
    unfolding sl by (simp_all add: slice_of_def Size_def)
  have arr: "sl_arr (fst ?st) = [1..<Size s] @ [Size s - 1]" "sl_len (fst ?st) = Size s - 1" "sl_heap (fst ?st) = Validators s"
    unfolding sl slice_Remove_def slice_of_ok(2) assms(2)
    using assms(2) by (simp_all add: slice_of_def Size_def upt_rec [of "Suc (Suc (length vs))"] del: upt_Suc)
  moreover have "[1..<Size s] = 1 # [2..<Size s]" "Size s - 1 \<noteq> 1"
    using assms(2) upt_conv_Cons [of 1 "Size s"] by (simp_all add: Size_def numeral_2_eq_2 del: upt_Suc)
  then have "\<exists>ts. sl_arr (fst ?st) = 1 # ts \<and> 1 \<notin> set ts"
    unfolding arr by (intro exI [of _ "[2..<Size s] @ [Size s - 1]"]) simp
  ultimately have "skipped b (fst ?st)"
    using ok assms(1,2) unfolding skipped_def by (simp add: distinct_addresses_def Size_def)
  then have "skipped b (fst (fold review_validator [1..<Size s] ?st))"
    using ok(2) by (intro skipped_fold) simp_all
  moreover have "[0..<Size s] = 0 # [1..<Size s]"
    using assms(2) upt_conv_Cons [of 0 "Size s"] by (simp add: Size_def del: upt_Suc)
  ultimately show ?thesis
    by (intro skipped_in) (simp add: review_validators_def)
qed

theorem banned_validator_survives_witness:
  "let s = \<lparr>Validators = [NewValidator [1] [9] 10, NewValidator [2] [8] 20, NewValidator [3] [7] 30], totalVotingPower = None\<rparr>;
       db = SetBanned (BytesToAddress [2]) True (SetBanned (BytesToAddress [1]) True (NewStateDB sample_trie)) in
   fst (GetBanned (BytesToAddress [2]) db) \<and>
   NewValidator [2] [8] 20 \<in> set (slice_contents (fst (review_validators s db)))"
proof -
  let ?s = "\<lparr>Validators = [NewValidator [1] [9] 10, NewValidator [2] [8] 20, NewValidator [3] [7] 30], totalVotingPower = None\<rparr>"
  let ?db = "SetBanned (BytesToAddress [2]) True (SetBanned (BytesToAddress [1]) True (NewStateDB sample_trie))"
  have c: "caches_ok (NewStateDB sample_trie)"
    by (simp add: caches_ok_def NewStateDB_def)
  have "BytesToAddress [1] \<noteq> BytesToAddress [2]"
    by code_simp
  then have b: "fst (GetBanned (BytesToAddress [1]) ?db)" "fst (GetBanned (BytesToAddress [2]) ?db)"
    using refinesD(2) [OF refines_comp [OF refines_account(9) refines_account(9)] c] by (simp_all add: fst_ledger)
  have "distinct_addresses ?s"
    by (simp add: distinct_addresses_def NewValidator_def)
  then show ?thesis
    using b banned_validator_survives [of ?s "NewValidator [1] [9] 10" "NewValidator [2] [8] 20" "NewValidator [3] [7] 30" "[]" ?db]
    unfolding Let_def by (simp add: NewValidator_def)
qed

end
