(* ===== verification/Functions.thy ===== *)
theory Functions
  imports Prelude ChainTypes
begin

section \<open>The functions of the chain contract\<close>

text \<open>
  The table of the functions a transaction to the contract can call, the registry of their
  callbacks, the gas pool of a block and the intrinsic gas of a transaction
  (\<open>neatabi/abi/abi.go\<close>, \<open>core/tx_callback.go\<close>, \<open>core/gaspool.go\<close>, \<open>core/state_transition.go\<close>).
\<close>

subsection \<open>Function types\<close>

record FunctionType =
  ft_id :: int
  ft_cross :: bool
  ft_main :: bool
  ft_side :: bool

definition neatabi_CreateSideChain :: FunctionType where
  "neatabi_CreateSideChain = \<lparr>ft_id = 0, ft_cross = True, ft_main = True, ft_side = False\<rparr>"

definition neatabi_JoinSideChain :: FunctionType where
  "neatabi_JoinSideChain = \<lparr>ft_id = 1, ft_cross = True, ft_main = True, ft_side = False\<rparr>"

definition neatabi_DepositInMainChain :: FunctionType where
  "neatabi_DepositInMainChain = \<lparr>ft_id = 2, ft_cross = True, ft_main = True, ft_side = False\<rparr>"

definition neatabi_DepositInSideChain :: FunctionType where
  "neatabi_DepositInSideChain = \<lparr>ft_id = 3, ft_cross = True, ft_main = False, ft_side = True\<rparr>"

definition neatabi_WithdrawFromSideChain :: FunctionType where
  "neatabi_WithdrawFromSideChain = \<lparr>ft_id = 4, ft_cross = True, ft_main = False, ft_side = True\<rparr>"

definition neatabi_WithdrawFromMainChain :: FunctionType where
  "neatabi_WithdrawFromMainChain = \<lparr>ft_id = 5, ft_cross = True, ft_main = True, ft_side = False\<rparr>"

definition neatabi_SaveDataToMainChain :: FunctionType where
  "neatabi_SaveDataToMainChain = \<lparr>ft_id = 6, ft_cross = True, ft_main = True, ft_side = False\<rparr>"

definition neatabi_SetBlockReward :: FunctionType where
  "neatabi_SetBlockReward = \<lparr>ft_id = 7, ft_cross = True, ft_main = False, ft_side = True\<rparr>"

definition neatabi_VoteNextEpoch :: FunctionType where
  "neatabi_VoteNextEpoch = \<lparr>ft_id = 10, ft_cross = False, ft_main = True, ft_side = True\<rparr>"

definition neatabi_RevealVote :: FunctionType where
  "neatabi_RevealVote = \<lparr>ft_id = 11, ft_cross = False, ft_main = True, ft_side = True\<rparr>"

definition neatabi_Delegate :: FunctionType where
  "neatabi_Delegate = \<lparr>ft_id = 12, ft_cross = False, ft_main = True, ft_side = True\<rparr>"

definition neatabi_UnDelegate :: FunctionType where
  "neatabi_UnDelegate = \<lparr>ft_id = 13, ft_cross = False, ft_main = True, ft_side = True\<rparr>"

definition neatabi_Register :: FunctionType where
  "neatabi_Register = \<lparr>ft_id = 14, ft_cross = False, ft_main = True, ft_side = True\<rparr>"

definition neatabi_UnRegister :: FunctionType where
  "neatabi_UnRegister = \<lparr>ft_id = 15, ft_cross = False, ft_main = True, ft_side = True\<rparr>"

definition neatabi_EditValidator :: FunctionType where
  "neatabi_EditValidator = \<lparr>ft_id = 16, ft_cross = False, ft_main = True, ft_side = True\<rparr>"

definition neatabi_WithdrawReward :: FunctionType where
  "neatabi_WithdrawReward = \<lparr>ft_id = 17, ft_cross = False, ft_main = True, ft_side = True\<rparr>"

definition neatabi_UnBanned :: FunctionType where
  "neatabi_UnBanned = \<lparr>ft_id = 18, ft_cross = False, ft_main = True, ft_side = True\<rparr>"

definition neatabi_SetCommission :: FunctionType where
  "neatabi_SetCommission = \<lparr>ft_id = 19, ft_cross = False, ft_main = True, ft_side = True\<rparr>"

definition neatabi_Unknown :: FunctionType where
  "neatabi_Unknown = \<lparr>ft_id = - 1, ft_cross = False, ft_main = False, ft_side = False\<rparr>"

definition IsCrossChainType :: "FunctionType \<Rightarrow> bool" where
  "IsCrossChainType t = ft_cross t"

definition AllowInMainChain :: "FunctionType \<Rightarrow> bool" where
  "AllowInMainChain t = ft_main t"

definition AllowInSideChain :: "FunctionType \<Rightarrow> bool" where
  "AllowInSideChain t = ft_side t"

definition RequiredGas :: "FunctionType \<Rightarrow> 64 word" where
  "RequiredGas t =
     (if t = neatabi_CreateSideChain then 42000
      else if t = neatabi_JoinSideChain then 21000
      else if t = neatabi_DepositInMainChain then 42000
      else if t = neatabi_DepositInSideChain then 0
      else if t = neatabi_WithdrawFromSideChain then 42000
      else if t = neatabi_WithdrawFromMainChain then 0
      else if t = neatabi_SaveDataToMainChain then 0
      else if t = neatabi_VoteNextEpoch then 21000
      else if t = neatabi_RevealVote then 21000
      else if t \<in> {neatabi_Delegate, neatabi_UnDelegate, neatabi_Register, neatabi_UnRegister} then 21000
      else if t = neatabi_SetBlockReward then 21000
      else if t = neatabi_EditValidator then 21000
      else if t = neatabi_WithdrawReward then 21000
      else if t = neatabi_UnBanned then 21000
      else if t = neatabi_SetCommission then 21000
      else 0)"

definition FunctionType_String :: "FunctionType \<Rightarrow> string" where
  "FunctionType_String t =
     (if t = neatabi_CreateSideChain then ''CreateSideChain''
      else if t = neatabi_JoinSideChain then ''JoinSideChain''
      else if t = neatabi_DepositInMainChain then ''DepositInMainChain''
      else if t = neatabi_DepositInSideChain then ''DepositInSideChain''
      else if t = neatabi_WithdrawFromSideChain then ''WithdrawFromSideChain''
      else if t = neatabi_WithdrawFromMainChain then ''WithdrawFromMainChain''
      else if t = neatabi_SaveDataToMainChain then ''SaveDataToMainChain''
      else if t = neatabi_VoteNextEpoch then ''VoteNextEpoch''
      else if t = neatabi_RevealVote then ''RevealVote''
      else if t = neatabi_Delegate then ''Delegate''
      else if t = neatabi_UnDelegate then ''UnDelegate''
      else if t = neatabi_Register then ''Register''
      else if t = neatabi_UnRegister then ''UnRegister''
      else if t = neatabi_SetBlockReward then ''SetBlockReward''
      else if t = neatabi_EditValidator then ''EditValidator''
      else if t = neatabi_WithdrawReward then ''WithdrawReward''
      else if t = neatabi_UnBanned then ''UnBanned''
      else if t = neatabi_SetCommission then ''SetCommission''
      else ''UnKnown'')"

definition StringToFunctionType :: "string \<Rightarrow> FunctionType" where
  "StringToFunctionType s =
     (if s = ''CreateSideChain'' then neatabi_CreateSideChain
      else if s = ''JoinSideChain'' then neatabi_JoinSideChain
      else if s = ''DepositInMainChain'' then neatabi_DepositInMainChain
      else if s = ''DepositInSideChain'' then neatabi_DepositInSideChain
      else if s = ''WithdrawFromSideChain'' then neatabi_WithdrawFromSideChain
      else if s = ''WithdrawFromMainChain'' then neatabi_WithdrawFromMainChain
      else if s = ''SaveDataToMainChain'' then neatabi_SaveDataToMainChain
      else if s = ''VoteNextEpoch'' then neatabi_VoteNextEpoch
      else if s = ''RevealVote'' then neatabi_RevealVote
      else if s = ''Delegate'' then neatabi_Delegate
      else if s = ''UnDelegate'' then neatabi_UnDelegate
      else if s = ''Register'' then neatabi_Register
      else if s = ''UnRegister'' then neatabi_UnRegister
      else if s = ''SetBlockReward'' then neatabi_SetBlockReward
      else if s = ''EditValidator'' then neatabi_EditValidator
      else if s = ''WithdrawReward'' then neatabi_WithdrawReward
      else if s = ''UnBanned'' then neatabi_UnBanned
      else if s = ''SetCommission'' then neatabi_SetCommission
      else neatabi_Unknown)"

lemmas neatabi_defs =
  neatabi_CreateSideChain_def
  neatabi_JoinSideChain_def
  neatabi_DepositInMainChain_def
  neatabi_DepositInSideChain_def
  neatabi_WithdrawFromSideChain_def
  neatabi_WithdrawFromMainChain_def
  neatabi_SaveDataToMainChain_def
  neatabi_SetBlockReward_def
  neatabi_VoteNextEpoch_def
  neatabi_RevealVote_def
  neatabi_Delegate_def
  neatabi_UnDelegate_def
  neatabi_Register_def
  neatabi_UnRegister_def
  neatabi_EditValidator_def
  neatabi_WithdrawReward_def
  neatabi_UnBanned_def
  neatabi_SetCommission_def
  neatabi_Unknown_def

definition FunctionTypes :: "FunctionType list" where
  "FunctionTypes =
     [neatabi_CreateSideChain,
      neatabi_JoinSideChain,
      neatabi_DepositInMainChain,
      neatabi_DepositInSideChain,
      neatabi_WithdrawFromSideChain,
      neatabi_WithdrawFromMainChain,
      neatabi_SaveDataToMainChain,
      neatabi_SetBlockReward,
      neatabi_VoteNextEpoch,
      neatabi_RevealVote,
      neatabi_Delegate,
      neatabi_UnDelegate,
      neatabi_Register,
      neatabi_UnRegister,
      neatabi_EditValidator,
      neatabi_WithdrawReward,
      neatabi_UnBanned,
      neatabi_SetCommission,
      neatabi_Unknown]"

text \<open>The first four bytes of the data name a method of the contract's interface, which is a parameter.\<close>

definition FunctionTypeFromId :: "(bytes \<Rightarrow> string option) \<Rightarrow> bytes \<Rightarrow> FunctionType option" where
  "FunctionTypeFromId MethodById sigdata = map_option StringToFunctionType (MethodById sigdata)"

subsection \<open>Callbacks\<close>

text \<open>
  The registries hold values of any type.  The two types of callbacks they are used with are
  told apart when a callback is fetched.
\<close>

datatype ('c, 'n) callback = CrossChainCb 'c | NonCrossChainCb 'n

type_synonym ('c, 'n) registry = "FunctionType \<rightharpoonup> ('c, 'n) callback"

text \<open>The flag tells whether the registration was refused.\<close>

definition RegisterValidateCb ::
  "FunctionType \<Rightarrow> ('c, 'n) callback \<Rightarrow> ('c, 'n) registry \<Rightarrow> bool \<times> ('c, 'n) registry" where
  "RegisterValidateCb function validateCb validateCbMap =
     (if validateCbMap function \<noteq> None then (True, validateCbMap)
      else (False, validateCbMap(function \<mapsto> validateCb)))"

definition GetValidateCb :: "('c, 'n) registry \<Rightarrow> FunctionType \<Rightarrow> ('c, 'n) callback option" where
  "GetValidateCb validateCbMap function = validateCbMap function"

definition RegisterApplyCb ::
  "FunctionType \<Rightarrow> ('c, 'n) callback \<Rightarrow> ('c, 'n) registry \<Rightarrow> bool \<times> ('c, 'n) registry" where
  "RegisterApplyCb function applyCb applyCbMap =
     (if applyCbMap function \<noteq> None then (True, applyCbMap)
      else (False, applyCbMap(function \<mapsto> applyCb)))"

definition GetApplyCb :: "('c, 'n) registry \<Rightarrow> FunctionType \<Rightarrow> ('c, 'n) callback option" where
  "GetApplyCb applyCbMap function = applyCbMap function"

subsection \<open>Gas\<close>

datatype gas_error = ErrGasLimitReached | ErrOutOfGas

type_synonym gas_pool = "64 word"

definition AddGas :: "64 word \<Rightarrow> gas_pool \<Rightarrow> gas_pool option" where
  "AddGas amount gp = (if gp > - 1 - amount then None else Some (gp + amount))"

definition SubGas :: "64 word \<Rightarrow> gas_pool \<Rightarrow> gas_error + gas_pool" where
  "SubGas amount gp = (if gp < amount then Inl ErrGasLimitReached else Inr (gp - amount))"

definition TxGas :: "64 word" where "TxGas = 21000"
definition TxGasContractCreation :: "64 word" where "TxGasContractCreation = 53000"
definition TxDataZeroGas :: "64 word" where "TxDataZeroGas = 4"
definition TxDataNonZeroGasFrontier :: "64 word" where "TxDataNonZeroGasFrontier = 68"

fun count_nz :: "bytes \<Rightarrow> 64 word \<Rightarrow> 64 word" where
  "count_nz [] nz = nz"
| "count_nz (byt # data) nz = count_nz data (if byt \<noteq> 0 then nz + 1 else nz)"

definition IntrinsicGas :: "bytes \<Rightarrow> bool \<Rightarrow> bool \<Rightarrow> gas_error + 64 word" where
  "IntrinsicGas data contractCreation homestead =
     (let gas = (if contractCreation \<and> homestead then TxGasContractCreation else TxGas) in
      if length data > 0 then
        let nz = count_nz data 0; nonZeroGas = TxDataNonZeroGasFrontier in
        if (- 1 - gas) div nonZeroGas < nz then Inl ErrOutOfGas
        else
          let gas1 = gas + nz * nonZeroGas;
              z = of_nat (length data) - nz in
          if (- 1 - gas1) div TxDataZeroGas < z then Inl ErrOutOfGas
          else Inr (gas1 + z * TxDataZeroGas)
      else Inr gas)"

lemma u64_less: "unat (w :: 64 word) < 2 ^ 64"
  using unsigned_less [of w] by simp

lemma u64_minus_one: "unat (- 1 - w :: 64 word) = 2 ^ 64 - 1 - unat w"
  by (subst unat_sub) (simp_all add: unsigned_minus_1_eq_mask mask_eq_exp_minus_1)

lemma AddGas_Some_iff: "AddGas amount gp = Some gp' \<longleftrightarrow> unat gp' = unat gp + unat amount"
proof -
  have m: "unat (- 1 - amount) = 2 ^ 64 - 1 - unat amount"
    by (rule u64_minus_one)
  have "\<not> gp > - 1 - amount \<longleftrightarrow> unat gp + unat amount < 2 ^ 64"
    unfolding word_less_nat_alt m using u64_less [of amount] by auto
  moreover have "unat (gp + amount) = unat gp + unat amount" if "unat gp + unat amount < 2 ^ 64"
    using that by (simp add: unat_word_ariths(1))
  ultimately show ?thesis
    using u64_less [of gp'] by (auto simp: AddGas_def word_unat_eq_iff split: if_splits)
qed

lemma SubGas_Inr_iff: "SubGas amount gp = Inr gp' \<longleftrightarrow> unat gp = unat gp' + unat amount"
proof -
  have "unat (gp - amount) = unat gp - unat amount" if "amount \<le> gp"
    using that by (simp add: unat_sub)
  moreover have "\<not> gp < amount" if "unat gp = unat gp' + unat amount"
    using that by (simp add: word_less_nat_alt)
  ultimately show ?thesis
    by (auto simp: SubGas_def word_unat_eq_iff word_le_nat_alt word_less_nat_alt not_less)
qed

text \<open>What is taken from the pool and not used can always be returned.\<close>

lemma gas_returned:
  assumes "SubGas limit gp = Inr gp1" "unat rest \<le> unat limit"
  shows "\<exists>gp2. AddGas rest gp1 = Some gp2 \<and> unat gp2 = unat gp - (unat limit - unat rest)"
proof -
  have g: "unat gp = unat gp1 + unat limit"
    using assms(1) by (simp add: SubGas_Inr_iff)
  then have "unat gp1 + unat rest < 2 ^ 64"
    using assms(2) u64_less [of gp] by simp
  then have "unat (gp1 + rest) = unat gp1 + unat rest"
    by (simp add: unat_word_ariths(1))
  then show ?thesis
    using g assms(2) by (intro exI [of _ "gp1 + rest"]) (simp add: AddGas_Some_iff)
qed

lemma div_less_word:
  fixes m g k n :: "64 word"
  assumes "k \<noteq> 0"
  shows "(- 1 - g) div k < n \<longleftrightarrow> 2 ^ 64 \<le> unat g + unat n * unat k"
proof -
  have k: "0 < unat k"
    using assms by (simp add: unat_gt_0)
  have m: "unat (- 1 - g) = 2 ^ 64 - 1 - unat g"
    by (rule u64_minus_one)
  have "(- 1 - g) div k < n \<longleftrightarrow> (2 ^ 64 - 1 - unat g) div unat k < unat n"
    unfolding word_less_nat_alt unat_div m ..
  also have "\<dots> \<longleftrightarrow> 2 ^ 64 - 1 - unat g < unat n * unat k"
    by (rule div_less_iff_less_mult [OF k])
  also have "\<dots> \<longleftrightarrow> 2 ^ 64 \<le> unat g + unat n * unat k"
    using u64_less [of g] by auto
  finally show ?thesis .
qed

lemma unat_add_mult:
  fixes g n k :: "64 word"
  assumes "unat g + unat n * unat k < 2 ^ 64"
  shows "unat (g + n * k) = unat g + unat n * unat k"
proof -
  have "unat (n * k) = unat n * unat k"
    using assms by (simp add: unat_word_ariths(2))
  then show ?thesis
    using assms by (simp add: unat_word_ariths(1))
qed

lemma count_nz_eq: "count_nz data nz = nz + of_nat (length (filter (\<lambda>b. b \<noteq> 0) data))"
  by (induction data nz rule: count_nz.induct) (simp_all add: algebra_simps)

text \<open>The gas of a transaction without a bound on the result.\<close>

definition intrinsic_gas_spec :: "bytes \<Rightarrow> bool \<Rightarrow> nat" where
  "intrinsic_gas_spec data create =
     (if create then 53000 else 21000) + 68 * length (filter (\<lambda>b. b \<noteq> 0) data) + 4 * length (filter (\<lambda>b. b = 0) data)"

text \<open>
  C12: The intrinsic gas computed in 64 bits, with the two guards against overflow, is the sum of
  the base price, 68 for every non-zero byte and 4 for every zero byte, computed without a bound,
  whenever that sum fits; exactly when it does not fit, the routine reports that the gas ran out.
  No intermediate result ever wraps around.
\<close>
theorem intrinsic_gas_exact:
  assumes "length data < 2 ^ 64"
  shows "IntrinsicGas data contractCreation homestead =
    (let g = intrinsic_gas_spec data (contractCreation \<and> homestead) in
     if g < 2 ^ 64 then Inr (of_nat g) else Inl ErrOutOfGas)"
proof -
  define n where "n = length (filter (\<lambda>b. b \<noteq> 0) data)"
  define z where "z = length (filter (\<lambda>b. b = 0) data)"
  define base :: "64 word" where "base = (if contractCreation \<and> homestead then TxGasContractCreation else TxGas)"
  have l: "length data = n + z"
    unfolding n_def z_def using sum_length_filter_compl [of "\<lambda>b. b \<noteq> 0" data] by simp
  have nz: "count_nz data 0 = of_nat n" "of_nat (length data) - of_nat n = (of_nat z :: 64 word)"
    by (simp_all add: count_nz_eq n_def [symmetric] l)
  have u: "unat (of_nat n :: 64 word) = n" "unat (of_nat z :: 64 word) = z"
    using assms l by (simp_all add: unat_of_nat)
  have k: "unat (68 :: 64 word) = 68" "unat (4 :: 64 word) = 4"
    by simp_all
  have g: "intrinsic_gas_spec data (contractCreation \<and> homestead) = unat base + n * 68 + z * 4"
    by (simp add: intrinsic_gas_spec_def base_def n_def z_def TxGas_def TxGasContractCreation_def)
  have e: "data = [] \<longleftrightarrow> n + z = 0"
    using l by (cases data) auto
  show ?thesis
  proof (cases "data = []")
    case True
    then have "intrinsic_gas_spec data (contractCreation \<and> homestead) = unat base"
      using g e by simp
    then show ?thesis
      using True u64_less [of base] by (simp add: IntrinsicGas_def base_def Let_def)
  next
    case False
    have i: "IntrinsicGas data contractCreation homestead =
        (if 2 ^ 64 \<le> unat base + n * 68 then Inl ErrOutOfGas
         else if 2 ^ 64 \<le> unat (base + of_nat n * 68) + z * 4 then Inl ErrOutOfGas
         else Inr (base + of_nat n * 68 + of_nat z * 4))"
      using False
      by (simp add: IntrinsicGas_def nz Let_def TxDataNonZeroGasFrontier_def TxDataZeroGas_def base_def [symmetric]
          div_less_word u)
    have j: "unat (base + of_nat n * 68) = unat base + n * 68" if "unat base + n * 68 < 2 ^ 64"
      using unat_add_mult [of base "of_nat n" 68] that by (simp add: u k)
    show ?thesis
      unfolding i g using j by (auto simp: Let_def)
  qed
qed

text \<open>A call with two zero bytes and one other byte.\<close>

theorem intrinsic_gas_exact_witness:
  "length [0, 7, 0 :: 8 word] < 2 ^ 64 \<and> IntrinsicGas [0, 7, 0] False True = Inr 21076"
  using intrinsic_gas_exact [of "[0, 7, 0]" False True] by (simp add: intrinsic_gas_spec_def)

lemma if_mem: "x \<in> S \<Longrightarrow> y \<in> S \<Longrightarrow> (if b then x else y) \<in> S"
  by simp

lemma function_cases:
  assumes "f \<in> set FunctionTypes"
    and "f = neatabi_CreateSideChain \<Longrightarrow> P"
    and "f = neatabi_JoinSideChain \<Longrightarrow> P"
    and "f = neatabi_DepositInMainChain \<Longrightarrow> P"
    and "f = neatabi_DepositInSideChain \<Longrightarrow> P"
    and "f = neatabi_WithdrawFromSideChain \<Longrightarrow> P"
    and "f = neatabi_WithdrawFromMainChain \<Longrightarrow> P"
    and "f = neatabi_SaveDataToMainChain \<Longrightarrow> P"
    and "f = neatabi_SetBlockReward \<Longrightarrow> P"
    and "f = neatabi_VoteNextEpoch \<Longrightarrow> P"
    and "f = neatabi_RevealVote \<Longrightarrow> P"
    and "f = neatabi_Delegate \<Longrightarrow> P"
    and "f = neatabi_UnDelegate \<Longrightarrow> P"
    and "f = neatabi_Register \<Longrightarrow> P"
    and "f = neatabi_UnRegister \<Longrightarrow> P"
    and "f = neatabi_EditValidator \<Longrightarrow> P"
    and "f = neatabi_WithdrawReward \<Longrightarrow> P"
    and "f = neatabi_UnBanned \<Longrightarrow> P"
    and "f = neatabi_SetCommission \<Longrightarrow> P"
    and "f = neatabi_Unknown \<Longrightarrow> P"
  shows P
  using assms unfolding FunctionTypes_def by auto

lemma String_table:
  "FunctionType_String neatabi_CreateSideChain = ''CreateSideChain''"
  "FunctionType_String neatabi_JoinSideChain = ''JoinSideChain''"
  "FunctionType_String neatabi_DepositInMainChain = ''DepositInMainChain''"
  "FunctionType_String neatabi_DepositInSideChain = ''DepositInSideChain''"
  "FunctionType_String neatabi_WithdrawFromSideChain = ''WithdrawFromSideChain''"
  "FunctionType_String neatabi_WithdrawFromMainChain = ''WithdrawFromMainChain''"
  "FunctionType_String neatabi_SaveDataToMainChain = ''SaveDataToMainChain''"
  "FunctionType_String neatabi_SetBlockReward = ''SetBlockReward''"
  "FunctionType_String neatabi_VoteNextEpoch = ''VoteNextEpoch''"
  "FunctionType_String neatabi_RevealVote = ''RevealVote''"
  "FunctionType_String neatabi_Delegate = ''Delegate''"
  "FunctionType_String neatabi_UnDelegate = ''UnDelegate''"
  "FunctionType_String neatabi_Register = ''Register''"
  "FunctionType_String neatabi_UnRegister = ''UnRegister''"
  "FunctionType_String neatabi_EditValidator = ''EditValidator''"
  "FunctionType_String neatabi_WithdrawReward = ''WithdrawReward''"
  "FunctionType_String neatabi_UnBanned = ''UnBanned''"
  "FunctionType_String neatabi_SetCommission = ''SetCommission''"
  "FunctionType_String neatabi_Unknown = ''UnKnown''"
  by (simp_all add: FunctionType_String_def neatabi_defs)

lemma String_read:
  "StringToFunctionType ''CreateSideChain'' = neatabi_CreateSideChain"
  "StringToFunctionType ''JoinSideChain'' = neatabi_JoinSideChain"
  "StringToFunctionType ''DepositInMainChain'' = neatabi_DepositInMainChain"
  "StringToFunctionType ''DepositInSideChain'' = neatabi_DepositInSideChain"
  "StringToFunctionType ''WithdrawFromSideChain'' = neatabi_WithdrawFromSideChain"
  "StringToFunctionType ''WithdrawFromMainChain'' = neatabi_WithdrawFromMainChain"
  "StringToFunctionType ''SaveDataToMainChain'' = neatabi_SaveDataToMainChain"
  "StringToFunctionType ''SetBlockReward'' = neatabi_SetBlockReward"
  "StringToFunctionType ''VoteNextEpoch'' = neatabi_VoteNextEpoch"
  "StringToFunctionType ''RevealVote'' = neatabi_RevealVote"
  "StringToFunctionType ''Delegate'' = neatabi_Delegate"
  "StringToFunctionType ''UnDelegate'' = neatabi_UnDelegate"
  "StringToFunctionType ''Register'' = neatabi_Register"
  "StringToFunctionType ''UnRegister'' = neatabi_UnRegister"
  "StringToFunctionType ''EditValidator'' = neatabi_EditValidator"
  "StringToFunctionType ''WithdrawReward'' = neatabi_WithdrawReward"
  "StringToFunctionType ''UnBanned'' = neatabi_UnBanned"
  "StringToFunctionType ''SetCommission'' = neatabi_SetCommission"
  "StringToFunctionType ''UnKnown'' = neatabi_Unknown"
  by (simp_all add: StringToFunctionType_def)

text \<open>
  C39: The names of the functions and the functions correspond one to one: reading the printed name of
  a function of the table gives the function back, so no two functions of the table share a
  name; whatever name is read gives a function of the table; and a name that reads as a function
  other than the unknown one is the name printed for it.
\<close>
theorem function_names_roundtrip:
  "(\<forall>f \<in> set FunctionTypes. StringToFunctionType (FunctionType_String f) = f) \<and>
   (\<forall>s. StringToFunctionType s \<in> set FunctionTypes) \<and>
   (\<forall>s. StringToFunctionType s \<noteq> neatabi_Unknown \<longrightarrow> FunctionType_String (StringToFunctionType s) = s)"
proof (intro conjI allI ballI impI)
  fix f assume "f \<in> set FunctionTypes"
  then show "StringToFunctionType (FunctionType_String f) = f"
    by (elim function_cases) (simp_all add: String_table String_read)
next
  fix s show "StringToFunctionType s \<in> set FunctionTypes"
    unfolding StringToFunctionType_def by (intro if_mem) (simp_all add: FunctionTypes_def)
next
  fix s assume n: "StringToFunctionType s \<noteq> neatabi_Unknown"
  have "s \<in> set (map FunctionType_String FunctionTypes)"
  proof (rule ccontr)
    assume "s \<notin> set (map FunctionType_String FunctionTypes)"
    then have "StringToFunctionType s = neatabi_Unknown"
      by (simp add: FunctionTypes_def String_table StringToFunctionType_def)
    then show False using n by simp
  qed
  then obtain f where "f \<in> set FunctionTypes" "s = FunctionType_String f"
    by auto
  then show "FunctionType_String (StringToFunctionType s) = s"
    by (elim function_cases) (simp_all add: String_table String_read)
qed

text \<open>The name of the delegation function, and a name of no function.\<close>

theorem function_names_roundtrip_witness:
  "StringToFunctionType (FunctionType_String neatabi_Delegate) = neatabi_Delegate \<and>
   StringToFunctionType ''Mint'' = neatabi_Unknown \<and> FunctionType_String (StringToFunctionType ''Register'') = ''Register''"
proof -
  have "neatabi_Delegate \<in> set FunctionTypes"
    by (simp add: FunctionTypes_def)
  moreover have "StringToFunctionType ''Mint'' = neatabi_Unknown" "StringToFunctionType ''Register'' \<noteq> neatabi_Unknown"
    by (simp_all add: StringToFunctionType_def neatabi_defs)
  ultimately show ?thesis
    using function_names_roundtrip by blast
qed

end
