(* ===== verification/Delegation.thy ===== *)
theory Delegation
  imports EpochSwitch Functions
begin

section \<open>Candidates and delegators\<close>

text \<open>
  The chain's built-in contract: the validation and apply callbacks of
  \<open>internal/neatapi/api.go\<close> by which accounts register as candidates, delegate, take stakes
  back, withdraw rewards, set commissions and lift bans, with the pending operations of
  \<open>core/types/pending_ops.go\<close> they record and \<open>core/pending_ops.go\<close> applies.  A callback
  runs on the state database, the pending operations and the engine's epoch; its outcome is an
  error or a value together with the state it leaves behind, an error not undoing what was done
  before it.  \<^term>\<open>None\<close> is a panic.  The sender of a transaction, the decoding of its
  arguments and the consensus key scheme are parameters.
\<close>

subsection \<open>Pending operations\<close>

datatype pending_op =
  CreateSideChainOp address string "16 word" int int int
| JoinSideChainOp address pubkey string int
| LaunchSideChainsOp "string list" "bytes option" "string list"
| SaveDataToMainChainOp bytes
| VoteNextEpochOp address hash hash
| RevealVoteOp address pubkey int string hash
| UpdateNextEpochOp address pubkey int string hash
| SwitchEpochOp string validator_set

fun Conflict :: "pending_op \<Rightarrow> pending_op \<Rightarrow> bool" where
  "Conflict (CreateSideChainOp _ chain _ _ _ _) (CreateSideChainOp _ chain1 _ _ _ _) \<longleftrightarrow> chain = chain1"
| "Conflict (JoinSideChainOp frm _ chain _) (JoinSideChainOp frm1 _ chain1 _) \<longleftrightarrow> chain = chain1 \<and> frm = frm1"
| "Conflict (LaunchSideChainsOp _ _ _) (LaunchSideChainsOp _ _ _) \<longleftrightarrow> True"
| "Conflict (SwitchEpochOp _ _) (SwitchEpochOp _ _) \<longleftrightarrow> True"
| "Conflict _ _ \<longleftrightarrow> False"

definition Append :: "pending_op \<Rightarrow> pending_op list \<Rightarrow> pending_op list \<times> bool" where
  "Append op1 ops = (if \<exists>op \<in> set ops. Conflict op op1 then (ops, False) else (ops @ [op1], True))"

subsection \<open>Transactions, the chain and errors\<close>

record transaction =
  tx_from :: address
  tx_value :: int
  tx_data :: bytes
  tx_hash :: hash

record register_args =
  ra_Pubkey :: bytes
  ra_Signature :: bytes
  ra_Commission :: "8 word"

record undelegate_args =
  ua_Candidate :: address
  ua_Amount :: int

record edit_args =
  ea_Moniker :: string
  ea_Website :: string
  ea_Identity :: string
  ea_Details :: string

record contract_ext =
  unpack_withdraw :: "bytes \<Rightarrow> address option"
  unpack_register :: "bytes \<Rightarrow> register_args option"
  unpack_delegate :: "bytes \<Rightarrow> address option"
  unpack_undelegate :: "bytes \<Rightarrow> undelegate_args option"
  unpack_commission :: "bytes \<Rightarrow> 8 word option"
  unpack_edit :: "bytes \<Rightarrow> edit_args option"
  CheckConsensusPubKey :: "address \<Rightarrow> bytes \<Rightarrow> bytes \<Rightarrow> bool"
  KeyString :: "pubkey \<Rightarrow> string"

text \<open>What the callbacks read of the chain: the epoch database and the current height.\<close>

record chain =
  bc_wire :: wire
  bc_edb :: store
  bc_height :: uint64
  bc_runtime :: runtime

datatype api_error =
  ErrUnpack | ErrNoReward | ErrMaxCandidate | ErrAlreadyCandidate | ErrMinimumRegisterAmount
| ErrConsensusPubKey | ErrCommission | ErrCannotCandidate | ErrNotCandidate | ErrBannedUnRegister
| ErrCannotUnRegister | ErrDelegateAmount | ErrExceedDelegationAddressLimit | ErrCannotDelegate
| ErrCancelSelfDelegate | ErrCannotUnBond | ErrInsufficientProxiedBalance | ErrEpochNil
| ErrBlockHeight | ErrNegativePower | ErrPubKeyFormat | ErrOpsConflict | ErrNotValidator
| ErrArgsTooLong | ErrShouldNotUnbanned | ErrStillBanned int

record dstate =
  ds_db :: statedb
  ds_ops :: "pending_op list"
  ds_epoch :: "epoch option"

type_synonym 'a act = "dstate \<Rightarrow> ((api_error + 'a) \<times> dstate) option"

definition act_return :: "'a \<Rightarrow> 'a act" where
  "act_return x s = Some (Inr x, s)"

definition act_fail :: "api_error \<Rightarrow> 'a act" where
  "act_fail e s = Some (Inl e, s)"

definition act_bind :: "'a act \<Rightarrow> ('a \<Rightarrow> 'b act) \<Rightarrow> 'b act" where
  "act_bind m f s =
     (case m s of
        None \<Rightarrow> None
      | Some (Inl e, s1) \<Rightarrow> Some (Inl e, s1)
      | Some (Inr x, s1) \<Rightarrow> f x s1)"

definition act_read :: "(statedb \<Rightarrow> 'a \<times> statedb) \<Rightarrow> 'a act" where
  "act_read r s = (let (x, db1) = r (ds_db s) in Some (Inr x, s\<lparr>ds_db := db1\<rparr>))"

definition act_try :: "(statedb \<Rightarrow> ('a \<times> statedb) option) \<Rightarrow> 'a act" where
  "act_try r s = map_option (\<lambda>(x, db1). (Inr x, s\<lparr>ds_db := db1\<rparr>)) (r (ds_db s))"

definition act_write :: "(statedb \<Rightarrow> statedb) \<Rightarrow> unit act" where
  "act_write f s = Some (Inr (), s\<lparr>ds_db := f (ds_db s)\<rparr>)"

definition act_check :: "bool \<Rightarrow> api_error \<Rightarrow> unit act" where
  "act_check b e = (if b then act_return () else act_fail e)"

text \<open>Decoding the arguments after the four bytes of the selector; slicing shorter data panics.\<close>

definition act_unpack :: "(bytes \<Rightarrow> 'a option) \<Rightarrow> transaction \<Rightarrow> 'a act" where
  "act_unpack u tx s =
     (if length (tx_data tx) < 4 then None
      else case u (drop 4 (tx_data tx)) of None \<Rightarrow> act_fail ErrUnpack s | Some args \<Rightarrow> act_return args s)"

subsection \<open>The epoch of the current block\<close>

definition current_epoch :: "chain \<Rightarrow> dstate \<Rightarrow> epoch option option" where
  "current_epoch C s =
     (case ds_epoch s of
        None \<Rightarrow> Some None
      | Some e \<Rightarrow> GetEpochByBlockNumber (bc_wire C) (bc_edb C) (bc_height C) e)"

definition getEpoch :: "chain \<Rightarrow> epoch act" where
  "getEpoch C s =
     (case current_epoch C s of
        None \<Rightarrow> None
      | Some None \<Rightarrow> act_fail ErrEpochNil s
      | Some (Some e) \<Rightarrow> act_return e s)"

text \<open>Whether an address is a supernode; without an epoch the lookup is a panic.\<close>

definition is_supernode :: "chain \<Rightarrow> address \<Rightarrow> bool act" where
  "is_supernode C a s =
     (case current_epoch C s of
        Some (Some e) \<Rightarrow>
          act_return (case snd (GetByAddress (ep_Validators (ep e)) a) of
                        None \<Rightarrow> False | Some v \<Rightarrow> RemainingEpoch v > 0) s
      | _ \<Rightarrow> None)"

definition updateValidation :: "chain \<Rightarrow> unit act" where
  "updateValidation C =
     act_bind (getEpoch C) (\<lambda>e.
       act_check (\<not> (bc_height C = 1 \<or> bc_height C = StartBlock (ep e) \<or>
                     bc_height C = StartBlock (ep e) + 1 \<or> bc_height C = EndBlock (ep e))) ErrBlockHeight)"

text \<open>The votes of an epoch are loaded on demand and kept when the epoch is the engine's.\<close>

definition epoch_votes :: "chain \<Rightarrow> epoch \<Rightarrow> vote_table option act" where
  "epoch_votes C e s =
     (let (v, e1) = GetEpochValidatorVoteSet (bc_wire C) (bc_edb C) e in
      act_return v
        (case ds_epoch s of
           Some cur \<Rightarrow> if covers cur (bc_height C) then s\<lparr>ds_epoch := Some e1\<rparr> else s
         | None \<Rightarrow> s))"

definition updateValidatorThreshold :: nat where "updateValidatorThreshold = 100"

text \<open>Comparing with a vote whose amount is not revealed yet is a panic.\<close>

fun some_below :: "int \<Rightarrow> epoch_vote list \<Rightarrow> bool option" where
  "some_below x [] = Some False"
| "some_below x (v # vs) =
     (case ev_Amount v of None \<Rightarrow> None | Some y \<Rightarrow> if y < x then Some True else some_below x vs)"

definition wants_update :: "int \<Rightarrow> vote_table option \<Rightarrow> bool option" where
  "wants_update netProxied voteSet =
     (case voteSet of
        None \<Rightarrow> Some True
      | Some vs \<Rightarrow> if length (Votes vs) \<ge> updateValidatorThreshold then some_below netProxied (votes_of vs)
                   else Some True)"

definition act_append :: "pending_op \<Rightarrow> unit act" where
  "act_append op s =
     (let (ops, ok) = Append op (ds_ops s) in
      if ok then Some (Inr (), s\<lparr>ds_ops := ops\<rparr>) else Some (Inl ErrOpsConflict, s))"

definition updateNextEpochValidatorVoteSet :: "chain \<Rightarrow> transaction \<Rightarrow> address \<Rightarrow> unit act" where
  "updateNextEpochValidatorVoteSet C tx candidate =
     act_bind (getEpoch C) (\<lambda>e.
     act_bind (act_read (net_proxied candidate)) (\<lambda>netProxied.
     act_bind (act_check (\<not> netProxied < 0) ErrNegativePower) (\<lambda>_.
     act_bind (epoch_votes C e) (\<lambda>votes s.
       case wants_update netProxied votes of
         None \<Rightarrow> None
       | Some False \<Rightarrow> act_return () s
       | Some True \<Rightarrow>
           act_bind (act_read (IsCandidate candidate)) (\<lambda>cand.
             if \<not> cand then act_return ()
             else
               act_bind (act_try (\<lambda>db. ForEachProxied (rt_proxied (bc_runtime C)) candidate (deposit_cb candidate) ((), db))) (\<lambda>_.
               act_bind (act_read (GetPubkey candidate)) (\<lambda>pubkey.
               let pubkeyBytes = FromHex pubkey in
               if pubkey = '''' \<or> length pubkeyBytes \<noteq> 128 then act_fail ErrPubKeyFormat
               else act_append (UpdateNextEpochOp candidate pubkeyBytes netProxied ''neatio'' (tx_hash tx))))) s))))"

subsection \<open>Withdrawing rewards\<close>

definition withDrawRewardValidation :: "contract_ext \<Rightarrow> transaction \<Rightarrow> address act" where
  "withDrawRewardValidation X tx =
     act_bind (act_unpack (unpack_withdraw X) tx) (\<lambda>delegateAddress.
     act_bind (act_read (GetRewardBalanceByDelegateAddress (tx_from tx) delegateAddress)) (\<lambda>reward.
     act_bind (act_check (\<not> reward < 1) ErrNoReward) (\<lambda>_. act_return delegateAddress)))"

definition withdrawRewardValidateCb :: "contract_ext \<Rightarrow> transaction \<Rightarrow> unit act" where
  "withdrawRewardValidateCb X tx = act_bind (withDrawRewardValidation X tx) (\<lambda>_. act_return ())"

definition withdrawRewardApplyCb :: "contract_ext \<Rightarrow> transaction \<Rightarrow> unit act" where
  "withdrawRewardApplyCb X tx =
     act_bind (withDrawRewardValidation X tx) (\<lambda>delegateAddress.
     act_bind (act_read (GetRewardBalanceByDelegateAddress (tx_from tx) delegateAddress)) (\<lambda>reward.
     act_bind (act_try (\<lambda>db. map_option (Pair ()) (SubRewardBalanceByDelegateAddress (tx_from tx) delegateAddress reward db))) (\<lambda>_.
     act_write (AddBalance (tx_from tx) reward))))"

subsection \<open>Registering\<close>

definition minimumRegisterAmount :: int where "minimumRegisterAmount = 1000000000000000000"
definition maxCandidateNumber :: nat where "maxCandidateNumber = 1000"
definition maxDelegationAddresses :: int where "maxDelegationAddresses = 1000"
definition maxEditValidatorLength :: nat where "maxEditValidatorLength = 100"

definition registerValidation :: "contract_ext \<Rightarrow> chain \<Rightarrow> transaction \<Rightarrow> register_args act" where
  "registerValidation X C tx =
     act_bind (act_read GetCandidateSet) (\<lambda>candidateSet.
     act_bind (act_check (\<not> card candidateSet > maxCandidateNumber) ErrMaxCandidate) (\<lambda>_.
     act_bind (act_read (IsCleanAddress (tx_from tx))) (\<lambda>clean.
     act_bind (act_check clean ErrAlreadyCandidate) (\<lambda>_.
     act_bind (act_check (\<not> tx_value tx < minimumRegisterAmount) ErrMinimumRegisterAmount) (\<lambda>_.
     act_bind (act_unpack (unpack_register X) tx) (\<lambda>args.
     act_bind (act_check (CheckConsensusPubKey X (tx_from tx) (ra_Pubkey args) (ra_Signature args)) ErrConsensusPubKey) (\<lambda>_.
     act_bind (act_check (\<not> ra_Commission args > 100) ErrCommission) (\<lambda>_.
     act_bind (is_supernode C (tx_from tx)) (\<lambda>supernode.
     act_bind (act_check (\<not> supernode) ErrCannotCandidate) (\<lambda>_. act_return args))))))))))"

definition registerValidateCb :: "contract_ext \<Rightarrow> chain \<Rightarrow> transaction \<Rightarrow> unit act" where
  "registerValidateCb X C tx = act_bind (registerValidation X C tx) (\<lambda>_. act_return ())"

text \<open>Copying into the fixed-size key truncates or pads with zeros.\<close>

definition blsPK :: "bytes \<Rightarrow> pubkey" where
  "blsPK b = take 128 (b @ replicate 128 0)"

definition registerApplyCb :: "contract_ext \<Rightarrow> chain \<Rightarrow> transaction \<Rightarrow> unit act" where
  "registerApplyCb X C tx =
     (let frm = tx_from tx; amount = tx_value tx in
      act_bind (registerValidation X C tx) (\<lambda>args.
      act_bind (updateValidation C) (\<lambda>_.
      act_bind (act_write (\<lambda>db. AddProxiedBalanceByUser frm frm amount (AddDelegateBalance frm amount (SubBalance frm amount db)))) (\<lambda>_.
      act_bind (act_write (\<lambda>db. MarkAddressCandidate frm (ApplyForCandidate frm (KeyString X (blsPK (ra_Pubkey args))) (ra_Commission args) db))) (\<lambda>_.
      updateNextEpochValidatorVoteSet C tx frm)))))"

text \<open>The state of the loop is the flag \<open>allRefund\<close>.\<close>

definition unregister_cb :: "address \<Rightarrow> address \<Rightarrow> accountProxiedBalance \<Rightarrow> bool \<times> statedb \<Rightarrow> bool \<times> statedb" where
  "unregister_cb frm key b st =
     (let p = apb_ProxiedBalance b; d = apb_DepositProxiedBalance b;
          db1 = AddBalance key p (SubDelegateBalance key p (SubProxiedBalanceByUser frm key p (snd st)))
      in if d > 0 then (False, MarkDelegateAddressRefund frm (AddPendingRefundBalanceByUser frm key d db1))
         else (fst st, db1))"

definition unRegisterValidation :: "chain \<Rightarrow> transaction \<Rightarrow> unit act" where
  "unRegisterValidation C tx =
     act_bind (act_read (IsCandidate (tx_from tx))) (\<lambda>candidate.
     act_bind (act_check candidate ErrNotCandidate) (\<lambda>_.
     act_bind (act_read (GetBanned (tx_from tx))) (\<lambda>banned.
     act_bind (act_check (\<not> banned) ErrBannedUnRegister) (\<lambda>_.
     act_bind (is_supernode C (tx_from tx)) (\<lambda>supernode.
     act_bind (act_check (\<not> supernode) ErrCannotUnRegister) (\<lambda>_.
     act_bind (getEpoch C) (\<lambda>_. act_return ())))))))"

definition unRegisterValidateCb :: "chain \<Rightarrow> transaction \<Rightarrow> unit act" where
  "unRegisterValidateCb C tx = unRegisterValidation C tx"

text \<open>The candidate set is read before and after for the log, which may reload it.\<close>

definition unRegisterApplyCb :: "chain \<Rightarrow> transaction \<Rightarrow> unit act" where
  "unRegisterApplyCb C tx =
     (let frm = tx_from tx in
      act_bind (unRegisterValidation C tx) (\<lambda>_.
      act_bind (act_try (\<lambda>db. ForEachProxied (rt_proxied (bc_runtime C)) frm (unregister_cb frm) (True, db))) (\<lambda>allRefund.
      act_bind (act_write (CancelCandidate frm allRefund)) (\<lambda>_.
      act_bind (act_read GetCandidateSet) (\<lambda>_.
      act_bind (act_write (ClearCandidateSetByAddress frm)) (\<lambda>_.
      act_bind (act_read GetCandidateSet) (\<lambda>_. act_return ())))))))"

subsection \<open>Delegating\<close>

definition delegateValidation :: "contract_ext \<Rightarrow> chain \<Rightarrow> transaction \<Rightarrow> address act" where
  "delegateValidation X C tx =
     act_bind (act_check (\<not> tx_value tx < 0) ErrDelegateAmount) (\<lambda>_.
     act_bind (act_unpack (unpack_delegate X) tx) (\<lambda>candidate.
     act_bind (act_read (IsCandidate candidate)) (\<lambda>isCandidate.
     act_bind (act_check isCandidate ErrNotCandidate) (\<lambda>_.
     act_bind (act_read (GetDepositProxiedBalanceByUser candidate (tx_from tx))) (\<lambda>depositBalance.
     act_bind (if depositBalance = 0
               then act_bind (act_read (GetProxiedAddressNumber candidate)) (\<lambda>n.
                      act_check (\<not> n \<ge> maxDelegationAddresses) ErrExceedDelegationAddressLimit)
               else act_return ()) (\<lambda>_.
     act_bind (is_supernode C candidate) (\<lambda>supernode.
     act_bind (act_check (\<not> (supernode \<and> depositBalance = 0)) ErrCannotDelegate) (\<lambda>_. act_return candidate))))))))"

definition delegateValidateCb :: "contract_ext \<Rightarrow> chain \<Rightarrow> transaction \<Rightarrow> unit act" where
  "delegateValidateCb X C tx = act_bind (delegateValidation X C tx) (\<lambda>_. act_return ())"

definition delegateApplyCb :: "contract_ext \<Rightarrow> chain \<Rightarrow> transaction \<Rightarrow> unit act" where
  "delegateApplyCb X C tx =
     (let frm = tx_from tx; amount = tx_value tx in
      act_bind (delegateValidation X C tx) (\<lambda>candidate.
      act_bind (updateValidation C) (\<lambda>_.
      act_bind (act_write (\<lambda>db. AddProxiedBalanceByUser candidate frm amount (AddDelegateBalance frm amount (SubBalance frm amount db)))) (\<lambda>_.
      act_bind (act_read (GetBanned frm)) (\<lambda>banned.
      if \<not> banned then updateNextEpochValidatorVoteSet C tx candidate else act_return ())))))"

definition unDelegateValidation :: "contract_ext \<Rightarrow> chain \<Rightarrow> transaction \<Rightarrow> undelegate_args act" where
  "unDelegateValidation X C tx =
     act_bind (act_unpack (unpack_undelegate X) tx) (\<lambda>args.
     act_bind (act_check (tx_from tx \<noteq> ua_Candidate args) ErrCancelSelfDelegate) (\<lambda>_.
     act_bind (is_supernode C (ua_Candidate args)) (\<lambda>supernode.
     act_bind (act_check (\<not> supernode) ErrCannotUnBond) (\<lambda>_.
     act_bind (act_read (GetProxiedBalanceByUser (ua_Candidate args) (tx_from tx))) (\<lambda>proxiedBalance.
     act_bind (act_read (GetDepositProxiedBalanceByUser (ua_Candidate args) (tx_from tx))) (\<lambda>depositProxiedBalance.
     act_bind (act_read (GetPendingRefundBalanceByUser (ua_Candidate args) (tx_from tx))) (\<lambda>pendingRefundBalance.
     act_bind (act_check (\<not> ua_Amount args > proxiedBalance + (depositProxiedBalance - pendingRefundBalance))
                 ErrInsufficientProxiedBalance) (\<lambda>_.
     act_bind (getEpoch C) (\<lambda>_. act_return args)))))))))"

definition unDelegateValidateCb :: "contract_ext \<Rightarrow> chain \<Rightarrow> transaction \<Rightarrow> unit act" where
  "unDelegateValidateCb X C tx = act_bind (unDelegateValidation X C tx) (\<lambda>_. act_return ())"

definition unDelegateApplyCb :: "contract_ext \<Rightarrow> chain \<Rightarrow> transaction \<Rightarrow> unit act" where
  "unDelegateApplyCb X C tx =
     (let frm = tx_from tx in
      act_bind (unDelegateValidation X C tx) (\<lambda>args.
      act_bind (updateValidation C) (\<lambda>_.
      act_bind (act_read (GetProxiedBalanceByUser (ua_Candidate args) frm)) (\<lambda>proxiedBalance.
      let c = ua_Candidate args; amount = ua_Amount args;
          immediatelyRefund = (if amount \<le> proxiedBalance then amount else proxiedBalance)
      in act_bind (if amount \<le> proxiedBalance then act_return ()
                   else act_write (\<lambda>db. MarkDelegateAddressRefund c
                          (AddPendingRefundBalanceByUser c frm (amount - proxiedBalance) db))) (\<lambda>_.
         act_write (\<lambda>db. AddBalance frm immediatelyRefund (SubDelegateBalance frm immediatelyRefund
                     (SubProxiedBalanceByUser c frm immediatelyRefund db))))))))"

subsection \<open>Commissions, descriptions and bans\<close>

definition setCommissionValidation :: "contract_ext \<Rightarrow> transaction \<Rightarrow> 8 word act" where
  "setCommissionValidation X tx =
     act_bind (act_read (IsCandidate (tx_from tx))) (\<lambda>candidate.
     act_bind (act_check candidate ErrNotCandidate) (\<lambda>_.
     act_bind (act_unpack (unpack_commission X) tx) (\<lambda>commission.
     act_bind (act_check (\<not> commission > 100) ErrCommission) (\<lambda>_. act_return commission))))"

definition setCommisstionValidateCb :: "contract_ext \<Rightarrow> transaction \<Rightarrow> unit act" where
  "setCommisstionValidateCb X tx = act_bind (setCommissionValidation X tx) (\<lambda>_. act_return ())"

definition setCommisstionApplyCb :: "contract_ext \<Rightarrow> transaction \<Rightarrow> unit act" where
  "setCommisstionApplyCb X tx =
     act_bind (setCommissionValidation X tx) (\<lambda>commission. act_write (SetCommission (tx_from tx) commission))"

definition editValidatorValidateCb :: "contract_ext \<Rightarrow> transaction \<Rightarrow> unit act" where
  "editValidatorValidateCb X tx =
     act_bind (act_read (IsCandidate (tx_from tx))) (\<lambda>candidate.
     act_bind (act_check candidate ErrNotValidator) (\<lambda>_.
     act_bind (act_unpack (unpack_edit X) tx) (\<lambda>args.
     act_check (\<not> (length (ea_Details args) > maxEditValidatorLength \<or> length (ea_Identity args) > maxEditValidatorLength \<or>
                   length (ea_Moniker args) > maxEditValidatorLength \<or> length (ea_Website args) > maxEditValidatorLength))
       ErrArgsTooLong)))"

definition unBannedValidation :: "chain \<Rightarrow> transaction \<Rightarrow> unit act" where
  "unBannedValidation C tx =
     act_bind (act_read (IsCandidate (tx_from tx))) (\<lambda>candidate.
     act_bind (act_check candidate ErrNotCandidate) (\<lambda>_.
     act_bind (updateValidation C) (\<lambda>_.
     act_bind (act_read (GetBanned (tx_from tx))) (\<lambda>banned.
     act_bind (act_check banned ErrShouldNotUnbanned) (\<lambda>_.
     act_bind (act_read (GetBannedTime (tx_from tx))) (\<lambda>bannedEpoch.
     act_check (\<not> bannedEpoch > 0) (ErrStillBanned bannedEpoch)))))))"

definition unBannedValidateCb :: "chain \<Rightarrow> transaction \<Rightarrow> unit act" where
  "unBannedValidateCb C tx = unBannedValidation C tx"

definition unBannedApplyCb :: "chain \<Rightarrow> transaction \<Rightarrow> unit act" where
  "unBannedApplyCb C tx =
     act_bind (unBannedValidation C tx) (\<lambda>_.
     act_write (\<lambda>db. ClearBannedSetByAddress (tx_from tx) (SetBanned (tx_from tx) False db)))"

subsection \<open>The callbacks of the contract\<close>

text \<open>
  The callbacks in the order of their registration; a refused registration goes unnoticed.
  Editing a validator has no apply callback, and no cross-chain function has callbacks.
\<close>

type_synonym contract_cb = "transaction \<Rightarrow> unit act"

definition validateCbs :: "contract_ext \<Rightarrow> chain \<Rightarrow> (FunctionType \<times> contract_cb) list" where
  "validateCbs X C =
     [(neatabi_WithdrawReward, withdrawRewardValidateCb X),
      (neatabi_Delegate, delegateValidateCb X C),
      (neatabi_UnDelegate, unDelegateValidateCb X C),
      (neatabi_Register, registerValidateCb X C),
      (neatabi_UnRegister, unRegisterValidateCb C),
      (neatabi_SetCommission, setCommisstionValidateCb X),
      (neatabi_EditValidator, editValidatorValidateCb X),
      (neatabi_UnBanned, unBannedValidateCb C)]"

definition applyCbs :: "contract_ext \<Rightarrow> chain \<Rightarrow> (FunctionType \<times> contract_cb) list" where
  "applyCbs X C =
     [(neatabi_WithdrawReward, withdrawRewardApplyCb X),
      (neatabi_Delegate, delegateApplyCb X C),
      (neatabi_UnDelegate, unDelegateApplyCb X C),
      (neatabi_Register, registerApplyCb X C),
      (neatabi_UnRegister, unRegisterApplyCb C),
      (neatabi_SetCommission, setCommisstionApplyCb X),
      (neatabi_UnBanned, unBannedApplyCb C)]"

definition validateCbMap :: "contract_ext \<Rightarrow> chain \<Rightarrow> ('c, contract_cb) registry" where
  "validateCbMap X C =
     fold (\<lambda>(f, cb) m. snd (RegisterValidateCb f (NonCrossChainCb cb) m)) (validateCbs X C) Map.empty"

definition applyCbMap :: "contract_ext \<Rightarrow> chain \<Rightarrow> ('c, contract_cb) registry" where
  "applyCbMap X C =
     fold (\<lambda>(f, cb) m. snd (RegisterApplyCb f (NonCrossChainCb cb) m)) (applyCbs X C) Map.empty"

subsection \<open>Applying the pending operations\<close>

text \<open>
  After consensus the operations of a block are applied to the engine's epoch and the epoch
  database.  A vote goes to the epoch of the current block, which is the engine's own or one
  loaded for the occasion; only the former is kept in memory.  Operations on side chains belong
  to the cross-chain helper and are the parameter \<open>side\<close>, as are \<open>time.Now()\<close> and the
  number of the mined block; the events that start and stop mining are left out.
\<close>

type_synonym op_state = "epoch \<times> store"

definition vote_on_epoch ::
  "chain \<Rightarrow> (epoch \<Rightarrow> store \<Rightarrow> (epoch \<times> store) option) \<Rightarrow> op_state \<Rightarrow> (bool \<times> op_state) option" where
  "vote_on_epoch C vote st =
     (let (cur, edb) = st in
      case GetEpochByBlockNumber (bc_wire C) edb (bc_height C) cur of
        Some (Some e) \<Rightarrow>
          map_option (\<lambda>(e1, edb1). (True, (if covers cur (bc_height C) then e1 else cur, edb1))) (vote e edb)
      | _ \<Rightarrow> None)"

definition ApplyOp ::
  "(pending_op \<Rightarrow> op_state \<Rightarrow> (bool \<times> op_state) option) \<Rightarrow> int \<Rightarrow> chain \<Rightarrow> pending_op \<Rightarrow> op_state \<Rightarrow>
   (bool \<times> op_state) option" where
  "ApplyOp side now C op st =
     (case op of
        VoteNextEpochOp frm voteHash txHash \<Rightarrow> vote_on_epoch C (VoteNextEpoch (bc_wire C) frm voteHash txHash) st
      | RevealVoteOp frm pubkey amount salt txHash \<Rightarrow>
          vote_on_epoch C (RevealVote (bc_wire C) frm pubkey amount salt txHash) st
      | UpdateNextEpochOp frm pubkey amount salt txHash \<Rightarrow>
          vote_on_epoch C (UpdateNextEpoch (bc_wire C) frm pubkey amount txHash) st
      | SwitchEpochOp chainId newValidators \<Rightarrow>
          (case EnterNewEpoch (bc_wire C) now newValidators (fst st) (snd st) of
             (Inl err, e, edb) \<Rightarrow> Some (False, (e, edb))
           | (Inr nextEp, e, edb) \<Rightarrow> Some (True, (nextEp, edb)))
      | _ \<Rightarrow> side op st)"

fun apply_ops ::
  "(pending_op \<Rightarrow> op_state \<Rightarrow> (bool \<times> op_state) option) \<Rightarrow> int \<Rightarrow> chain \<Rightarrow> pending_op list \<Rightarrow> op_state \<Rightarrow>
   op_state option" where
  "apply_ops side now C [] st = Some st"
| "apply_ops side now C (op # ops) st =
     (case ApplyOp side now C op st of None \<Rightarrow> None | Some (_, st1) \<Rightarrow> apply_ops side now C ops st1)"

end
