(* ===== verification/DelegationBooks.thy ===== *)
theory DelegationBooks
  imports Delegation
begin

section \<open>The books of the delegation contract\<close>

text \<open>
  What the callbacks of the contract do to the ledger.  A small calculus of assertions on the
  ledger carries the callbacks; the accounts are then read through three quantities: the estate
  of an account, the backing of its delegated balance by the entries of the candidates, and the
  candidates' totals.
\<close>

subsection \<open>Assertions\<close>

definition holds :: "ledger \<Rightarrow> 'a act \<Rightarrow> (api_error + 'a \<Rightarrow> ledger \<Rightarrow> bool) \<Rightarrow> bool" where
  "holds L m Q \<longleftrightarrow> (\<forall>s r s'. sound (ds_db s) \<longrightarrow> ledger (ds_db s) = L \<longrightarrow> m s = Some (r, s') \<longrightarrow>
     sound (ds_db s') \<and> Q r (ledger (ds_db s')))"

named_theorems holds_rules \<open>rules for the actions of a callback\<close>

lemma holds_return [holds_rules]: "Q (Inr x) L \<Longrightarrow> holds L (act_return x) Q"
  by (simp add: holds_def act_return_def)

lemma holds_fail [holds_rules]: "Q (Inl e) L \<Longrightarrow> holds L (act_fail e) Q"
  by (simp add: holds_def act_fail_def)

lemma holds_check [holds_rules]:
  "(b \<Longrightarrow> Q (Inr ()) L) \<Longrightarrow> (\<not> b \<Longrightarrow> Q (Inl e) L) \<Longrightarrow> holds L (act_check b e) Q"
  by (simp add: act_check_def holds_return holds_fail)

lemma holds_bind [holds_rules]:
  assumes "holds L m (\<lambda>r L'. case r of Inl e \<Rightarrow> Q (Inl e) L' | Inr x \<Rightarrow> holds L' (f x) Q)"
  shows "holds L (act_bind m f) Q"
  unfolding holds_def
proof (intro allI impI)
  fix s r s' assume s: "sound (ds_db s)" "ledger (ds_db s) = L" and m: "act_bind m f s = Some (r, s')"
  obtain r1 s1 where 1: "m s = Some (r1, s1)"
    using m by (cases "m s") (auto simp: act_bind_def)
  have q: "sound (ds_db s1)" "case r1 of Inl e \<Rightarrow> Q (Inl e) (ledger (ds_db s1)) | Inr x \<Rightarrow> holds (ledger (ds_db s1)) (f x) Q"
    using assms s 1 by (auto simp: holds_def)
  show "sound (ds_db s') \<and> Q r (ledger (ds_db s'))"
    using m q 1 by (cases r1) (auto simp: act_bind_def holds_def)
qed

lemma holds_conseq: "holds L m Q \<Longrightarrow> (\<And>r L'. Q r L' \<Longrightarrow> Q' r L') \<Longrightarrow> holds L m Q'"
  by (auto simp: holds_def)

lemma holds_Let: "holds L (m x) Q \<Longrightarrow> holds L (let y = x in m y) Q"
  by (simp add: Let_def)

lemma holds_if [holds_rules]:
  "(b \<Longrightarrow> holds L m Q) \<Longrightarrow> (\<not> b \<Longrightarrow> holds L n Q) \<Longrightarrow> holds L (if b then m else n) Q"
  by simp

lemma holds_unpack [holds_rules]:
  "(\<And>x. u (drop 4 (tx_data tx)) = Some x \<Longrightarrow> Q (Inr x) L) \<Longrightarrow> Q (Inl ErrUnpack) L \<Longrightarrow> holds L (act_unpack u tx) Q"
  by (auto simp: holds_def act_unpack_def act_fail_def act_return_def split: if_splits option.splits)

lemma holds_getEpoch [holds_rules]:
  "(\<And>e. Q (Inr e) L) \<Longrightarrow> Q (Inl ErrEpochNil) L \<Longrightarrow> holds L (getEpoch C) Q"
  by (auto simp: holds_def getEpoch_def act_fail_def act_return_def split: option.splits)

lemma holds_supernode [holds_rules]: "(\<And>b. Q (Inr b) L) \<Longrightarrow> holds L (is_supernode C a) Q"
  by (auto simp: holds_def is_supernode_def act_return_def split: option.splits)

lemma holds_votes [holds_rules]: "(\<And>v. Q (Inr v) L) \<Longrightarrow> holds L (epoch_votes C e) Q"
  by (auto simp: holds_def epoch_votes_def act_return_def Let_def split_beta split: option.splits if_splits)

lemma holds_append [holds_rules]:
  "Q (Inr ()) L \<Longrightarrow> Q (Inl ErrOpsConflict) L \<Longrightarrow> holds L (act_append op) Q"
  by (auto simp: holds_def act_append_def Let_def split_beta split: if_splits)

lemma holds_panic [holds_rules]: "holds L (\<lambda>s. None) Q"
  by (simp add: holds_def)

text \<open>Reads return what is in the ledger and leave it as it is.\<close>

interpretation same: ledger_relation "\<lambda>L L'. L' = L"
  by unfold_locales simp_all

lemma holds_read:
  assumes "\<And>db. fst (r db) = v (ledger db)" "\<And>db. conserving (\<lambda>L L'. L' = L) db (snd (r db))" "Q (Inr (v L)) L"
  shows "holds L (act_read r) Q"
  unfolding holds_def
proof (intro allI impI)
  fix s x s' assume s: "sound (ds_db s)" "ledger (ds_db s) = L" "act_read r s = Some (x, s')"
  have "sound (snd (r (ds_db s)))" "ledger (snd (r (ds_db s))) = L"
    using assms(2) [of "ds_db s"] s by (simp_all add: conserving_def)
  then show "sound (ds_db s') \<and> Q x (ledger (ds_db s'))"
    using s(2,3) assms(1,3) by (auto simp: act_read_def Let_def split_beta)
qed

lemma holds_read_any:
  assumes "\<And>db. conserving (\<lambda>L L'. L' = L) db (snd (r db))" "\<And>x. Q (Inr x) L"
  shows "holds L (act_read r) Q"
  unfolding holds_def
proof (intro allI impI)
  fix s x s' assume s: "sound (ds_db s)" "ledger (ds_db s) = L" "act_read r s = Some (x, s')"
  have "sound (snd (r (ds_db s)))" "ledger (snd (r (ds_db s))) = L"
    using assms(1) [of "ds_db s"] s by (simp_all add: conserving_def)
  then show "sound (ds_db s') \<and> Q x (ledger (ds_db s'))"
    using s(3) assms(2) by (auto simp: act_read_def Let_def split_beta)
qed

lemma holds_reads [holds_rules]:
  "QB (Inr (la_candidate (L a))) L \<Longrightarrow> holds L (act_read (IsCandidate a)) QB"
  "QS (Inr (la_pubkey (L a))) L \<Longrightarrow> holds L (act_read (GetPubkey a)) QS"
  "QB (Inr (la_banned (L a))) L \<Longrightarrow> holds L (act_read (GetBanned a)) QB"
  "Q (Inr (la_bannedTime (L a))) L \<Longrightarrow> holds L (act_read (GetBannedTime a)) Q"
  "Q (Inr (int (length (la_trie (L a))))) L \<Longrightarrow> holds L (act_read (GetProxiedAddressNumber a)) Q"
  "Q (Inr (apb_ProxiedBalance (la_apb (L a) u))) L \<Longrightarrow> holds L (act_read (GetProxiedBalanceByUser a u)) Q"
  "Q (Inr (apb_DepositProxiedBalance (la_apb (L a) u))) L \<Longrightarrow> holds L (act_read (GetDepositProxiedBalanceByUser a u)) Q"
  "Q (Inr (apb_PendingRefundBalance (la_apb (L a) u))) L \<Longrightarrow> holds L (act_read (GetPendingRefundBalanceByUser a u)) Q"
  "Q (Inr (la_reward (L a) u)) L \<Longrightarrow> holds L (act_read (GetRewardBalanceByDelegateAddress a u)) Q"
  by (rule holds_read, simp only: fst_ledger, rule same.reads_conserve, assumption)+

lemma holds_reads_any [holds_rules]:
  "(\<And>S. QS (Inr S) L) \<Longrightarrow> holds L (act_read GetCandidateSet) QS"
  "(\<And>b. QB (Inr b) L) \<Longrightarrow> holds L (act_read (IsCleanAddress a)) QB"
  by (rule holds_read_any, rule same.reads_conserve, assumption)+

lemma ledger_read_object: "ledger (snd (read_object a f d db)) = ledger db"
  by (simp add: read_object_def getStateObject_eq split_beta)

lemma holds_net [holds_rules]:
  assumes "Q (Inr (total_stake (L a))) L"
  shows "holds L (act_read (net_proxied a)) Q"
proof (rule holds_read [where v = "\<lambda>L. total_stake (L a)"])
  show c: "conserving (\<lambda>L L'. L' = L) db (snd (net_proxied a db))" for db
    unfolding net_proxied_def Let_def split_beta snd_conv
    by (rule same.conserving_trans [OF same.conserving_trans]) (rule same.reads_conserve)+
  have "ledger (snd (GetTotalProxiedBalance a db)) = ledger db" "ledger (snd (GetTotalDepositProxiedBalance a db)) = ledger db" for db
    by (simp_all add: GetTotalProxiedBalance_def GetTotalDepositProxiedBalance_def ledger_read_object)
  then show "fst (net_proxied a db) = total_stake (ledger db a)" for db
    by (simp add: net_proxied_def Let_def split_beta fst_ledger total_stake_def)
qed (rule assms)

text \<open>Writes have the effect of their refinement.\<close>

lemma holds_write:
  assumes "refines D G" "\<And>a. la_trie (G L a) = la_trie (L a)" "Q (Inr ()) (G L)"
  shows "holds L (act_write D) Q"
  unfolding holds_def
proof (intro allI impI)
  fix s r s' assume s: "sound (ds_db s)" "ledger (ds_db s) = L" "act_write D s = Some (r, s')"
  then have "caches_ok (ds_db s)"
    by (simp add: sound_def)
  note d = refinesD(1,2) [OF assms(1) this]
  show "sound (ds_db s') \<and> Q r (ledger (ds_db s'))"
    using s d assms(2,3) by (auto simp: act_write_def sound_def)
qed

context ledger_relation
begin

lemma holds_ForEach:
  assumes "\<forall>t. set (order t) = set t" "\<And>k b. refines (D k b) (G k b)"
    and "\<And>k L. rel L (G k (la_apb (L c) k) L)" "\<And>k b L. la_trie (G k b L c) = la_trie (L c)"
    and "\<And>k b st. cb k b st = (h k b (fst st), D k b (snd st))"
    and "\<And>x L'. rel L L' \<Longrightarrow> Q (Inr x) L'"
  shows "holds L (act_try (\<lambda>db. ForEachProxied order c cb (x, db))) Q"
  unfolding holds_def
proof (intro allI impI)
  fix s r s' assume s: "sound (ds_db s)" "ledger (ds_db s) = L"
    "act_try (\<lambda>db. ForEachProxied order c cb (x, db)) s = Some (r, s')"
  obtain x' db' where "ForEachProxied order c cb (x, ds_db s) = Some (x', db')" "conserving rel (ds_db s) db'"
    using ForEach_completes [OF assms(1-5) s(1), of x] by blast
  then show "sound (ds_db s') \<and> Q r (ledger (ds_db s'))"
    using s assms(6) by (auto simp: act_try_def conserving_def)
qed

end

subsection \<open>Estates and backing\<close>

text \<open>
  The estate of an account is its wealth and its rewards.  Its delegated balance is backed by
  the entries under its name with the candidates of a finite set; the totals a candidate
  records are compared with its entries over a finite set of delegators.
\<close>

definition estate :: "ledger_account \<Rightarrow> int" where
  "estate A = wealth A + la_field A F_Reward"

definition unbacked :: "address set \<Rightarrow> ledger \<Rightarrow> address \<Rightarrow> int" where
  "unbacked U L u = la_field (L u) F_Delegate
     - (\<Sum>c \<in> U. apb_ProxiedBalance (la_apb (L c) u) + apb_DepositProxiedBalance (la_apb (L c) u))"

definition unlisted :: "address set \<Rightarrow> ledger_account \<Rightarrow> int \<times> int \<times> int" where
  "unlisted U A =
     (la_field A F_Proxied - (\<Sum>u \<in> U. apb_ProxiedBalance (la_apb A u)),
      la_field A F_DepositProxied - (\<Sum>u \<in> U. apb_DepositProxiedBalance (la_apb A u)),
      la_field A F_PendingRefund - (\<Sum>u \<in> U. apb_PendingRefundBalance (la_apb A u)))"

text \<open>
  The estates move by \<open>e\<close> and what is not backed by \<open>b\<close>, over every finite set of addresses
  that is large enough.
\<close>

definition moved :: "(address \<Rightarrow> int) \<Rightarrow> (address \<Rightarrow> int) \<Rightarrow> ledger \<Rightarrow> ledger \<Rightarrow> bool" where
  "moved e b L L' \<longleftrightarrow>
     (\<forall>a. estate (L' a) = estate (L a) + e a \<and> la_trie (L' a) = la_trie (L a)) \<and>
     (\<exists>U0. finite U0 \<and> (\<forall>U. finite U \<longrightarrow> U0 \<subseteq> U \<longrightarrow>
        (\<forall>a. unbacked U L' a = unbacked U L a + b a \<and> unlisted U (L' a) = unlisted U (L a))))"

abbreviation kept :: "ledger \<Rightarrow> ledger \<Rightarrow> bool" where
  "kept \<equiv> moved (\<lambda>_. 0) (\<lambda>_. 0)"

definition at :: "address \<Rightarrow> int \<Rightarrow> address \<Rightarrow> int" where
  "at a x = (\<lambda>a'. if a' = a then x else 0)"

lemma moved_trans:
  assumes "moved e b L M" "moved e' b' M N" "e'' = (\<lambda>a. e a + e' a)" "b'' = (\<lambda>a. b a + b' a)"
  shows "moved e'' b'' L N"
proof -
  obtain U1 where 1: "finite U1" "\<And>U a. finite U \<Longrightarrow> U1 \<subseteq> U \<Longrightarrow>
      unbacked U M a = unbacked U L a + b a \<and> unlisted U (M a) = unlisted U (L a)"
    using assms(1) unfolding moved_def by metis
  obtain U2 where 2: "finite U2" "\<And>U a. finite U \<Longrightarrow> U2 \<subseteq> U \<Longrightarrow>
      unbacked U N a = unbacked U M a + b' a \<and> unlisted U (N a) = unlisted U (M a)"
    using assms(2) unfolding moved_def by metis
  have "\<forall>a. estate (N a) = estate (L a) + e'' a \<and> la_trie (N a) = la_trie (L a)"
    using assms by (simp add: moved_def)
  moreover have "\<forall>U. finite U \<longrightarrow> U1 \<union> U2 \<subseteq> U \<longrightarrow>
      (\<forall>a. unbacked U N a = unbacked U L a + b'' a \<and> unlisted U (N a) = unlisted U (L a))"
    using 1(2) 2(2) assms(4) by auto
  ultimately show ?thesis
    using 1(1) 2(1) unfolding moved_def by (meson finite_UnI)
qed

lemma moved_refl: "kept L L"
  by (auto simp: moved_def)

interpretation books: ledger_relation kept
proof unfold_locales
  show "kept L N" if "kept L M" "kept M N" for L M N
    by (rule moved_trans [OF that]) simp_all
qed (simp_all add: moved_refl moved_def)

text \<open>An update of one account that touches none of the balances involved.\<close>

lemma moved_other:
  assumes "\<And>a f. la_field (L' a) f = la_field (L a) f" "\<And>a. la_apb (L' a) = la_apb (L a)" "\<And>a. la_trie (L' a) = la_trie (L a)"
  shows "kept L L'"
  unfolding moved_def by (auto simp: estate_def wealth_def unbacked_def unlisted_def assms)

lemma add_field_simps [simp]:
  "la_field (add_field f a x L b) g = la_field (L b) g + (if b = a \<and> g = f then x else 0)"
  "la_apb (add_field f a x L b) = la_apb (L b)" "la_trie (add_field f a x L b) = la_trie (L b)"
  by (simp_all add: add_field_def)

lemma add_reward_simps [simp]:
  "la_field (add_reward a k x L b) g = la_field (L b) g" "la_apb (add_reward a k x L b) = la_apb (L b)"
  "la_trie (add_reward a k x L b) = la_trie (L b)"
  by (simp_all add: add_reward_def)

lemma entry_simps [simp]:
  "apb_ProxiedBalance (la_apb (add_proxied c u x L a) v) =
     apb_ProxiedBalance (la_apb (L a) v) + (if v = u then at c x a else 0)"
  "apb_DepositProxiedBalance (la_apb (add_proxied c u x L a) v) = apb_DepositProxiedBalance (la_apb (L a) v)"
  "apb_PendingRefundBalance (la_apb (add_proxied c u x L a) v) = apb_PendingRefundBalance (la_apb (L a) v)"
  "apb_DepositProxiedBalance (la_apb (add_deposit_proxied c u x L a) v) =
     apb_DepositProxiedBalance (la_apb (L a) v) + (if v = u then at c x a else 0)"
  "apb_ProxiedBalance (la_apb (add_deposit_proxied c u x L a) v) = apb_ProxiedBalance (la_apb (L a) v)"
  "apb_PendingRefundBalance (la_apb (add_deposit_proxied c u x L a) v) = apb_PendingRefundBalance (la_apb (L a) v)"
  "apb_PendingRefundBalance (la_apb (add_pending c u x L a) v) =
     apb_PendingRefundBalance (la_apb (L a) v) + (if v = u then at c x a else 0)"
  "apb_ProxiedBalance (la_apb (add_pending c u x L a) v) = apb_ProxiedBalance (la_apb (L a) v)"
  "apb_DepositProxiedBalance (la_apb (add_pending c u x L a) v) = apb_DepositProxiedBalance (la_apb (L a) v)"
  by (simp_all add: add_proxied_def add_deposit_proxied_def add_pending_def upd_apb_def at_def)

lemma entry_fields [simp]:
  "la_field (add_proxied c u x L a) f = la_field (L a) f + (if f = F_Proxied then at c x a else 0)"
  "la_field (add_deposit_proxied c u x L a) f = la_field (L a) f + (if f = F_DepositProxied then at c x a else 0)"
  "la_field (add_pending c u x L a) f = la_field (L a) f + (if f = F_PendingRefund then at c x a else 0)"
  "la_trie (add_proxied c u x L a) = la_trie (L a)" "la_trie (add_deposit_proxied c u x L a) = la_trie (L a)"
  "la_trie (add_pending c u x L a) = la_trie (L a)"
  by (simp_all add: add_proxied_def add_deposit_proxied_def add_pending_def upd_apb_def at_def)

lemma sum_at:
  fixes x :: int
  assumes "finite U" "u \<in> U"
  shows "(\<Sum>v \<in> U. if v = u then x else 0) = x" "(\<Sum>c \<in> U. at u x c) = x"
  using assms by (simp_all add: at_def)

lemma moved_fields:
  "moved (at a x) (\<lambda>_. 0) L (add_field F_Balance a x L)" "moved (at a x) (\<lambda>_. 0) L (add_field F_Deposit a x L)"
  "moved (at a x) (at a x) L (add_field F_Delegate a x L)"
  "moved (at a x) (\<lambda>_. 0) L (add_field F_Reward a x (add_reward a k x L))"
  unfolding moved_def by (auto simp: estate_def wealth_def unbacked_def unlisted_def at_def intro!: exI [of _ "{}"])

lemma moved_entries:
  "moved (\<lambda>_. 0) (at u (- x)) L (add_proxied c u x L)"
  "moved (\<lambda>_. 0) (at u (- x)) L (add_deposit_proxied c u x L)" "kept L (add_pending c u x L)"
  unfolding moved_def
  by (auto simp: estate_def wealth_def unbacked_def unlisted_def sum.distrib sum_at algebra_simps at_def
      sum.delta intro!: exI [of _ "{c, u}"])

subsection \<open>The writes of the callbacks\<close>

text \<open>Putting a stake in, taking it out, and the flags of a candidate.\<close>

definition stake_in :: "address \<Rightarrow> address \<Rightarrow> int \<Rightarrow> ledger \<Rightarrow> ledger" where
  "stake_in c u x L = add_proxied c u x (add_field F_Delegate u x (add_field F_Balance u (- x) L))"

definition stake_out :: "address \<Rightarrow> address \<Rightarrow> int \<Rightarrow> ledger \<Rightarrow> ledger" where
  "stake_out c u x L = add_field F_Balance u x (add_field F_Delegate u (- x) (add_proxied c u (- x) L))"

definition to_deposit :: "address \<Rightarrow> address \<Rightarrow> int \<Rightarrow> ledger \<Rightarrow> ledger" where
  "to_deposit c u x L = add_deposit_proxied c u x (add_proxied c u (- x) L)"

lemma kept_stakes: "kept L (stake_in c u x L)" "kept L (stake_out c u x L)" "kept L (to_deposit c u x L)"
proof -
  show "kept L (stake_in c u x L)"
    unfolding stake_in_def
    by (rule moved_trans [OF moved_trans [OF moved_fields(1) moved_fields(3) refl refl] moved_entries(1)])
      (simp_all add: at_def fun_eq_iff)
  show "kept L (stake_out c u x L)"
    unfolding stake_out_def
    by (rule moved_trans [OF moved_trans [OF moved_entries(1) moved_fields(3) refl refl] moved_fields(1)])
      (simp_all add: at_def fun_eq_iff)
  show "kept L (to_deposit c u x L)"
    unfolding to_deposit_def
    by (rule moved_trans [OF moved_entries(1) moved_entries(2)]) (simp_all add: at_def fun_eq_iff)
qed

lemma refines_stakes:
  "refines (\<lambda>db. AddProxiedBalanceByUser c u x (AddDelegateBalance u x (SubBalance u x db))) (stake_in c u x)"
  "refines (\<lambda>db. AddBalance u x (SubDelegateBalance u x (SubProxiedBalanceByUser c u x db))) (stake_out c u x)"
  "refines (\<lambda>db. AddDepositProxiedBalanceByUser c u x (SubProxiedBalanceByUser c u x db)) (to_deposit c u x)"
  "refines (\<lambda>db. MarkDelegateAddressRefund c (AddPendingRefundBalanceByUser c u x db)) (add_pending c u x)"
  using refines_comp [OF refines_comp [OF refines_account(2) [of u x] refines_account(5) [of u x]] refines_user(1) [of c u x]]
    refines_comp [OF refines_comp [OF refines_user(2) [of c u x] refines_account(6) [of u x]] refines_account(1) [of u x]]
    refines_comp [OF refines_user(2) [of c u x] refines_user(3) [of c u x]]
    refines_comp [OF refines_user(5) [of c u x] refines_sets(1) [of c]]
  by (simp_all add: stake_in_def [abs_def] stake_out_def [abs_def] to_deposit_def [abs_def])

lemma stakes_trie [simp]:
  "la_trie (stake_in c u x L a) = la_trie (L a)" "la_trie (stake_out c u x L a) = la_trie (L a)"
  "la_trie (to_deposit c u x L a) = la_trie (L a)"
  by (simp_all add: stake_in_def stake_out_def to_deposit_def)

lemma holds_stakes [holds_rules]:
  "Q (Inr ()) (stake_in c u x L) \<Longrightarrow>
     holds L (act_write (\<lambda>db. AddProxiedBalanceByUser c u x (AddDelegateBalance u x (SubBalance u x db)))) Q"
  "Q (Inr ()) (stake_out c u x L) \<Longrightarrow>
     holds L (act_write (\<lambda>db. AddBalance u x (SubDelegateBalance u x (SubProxiedBalanceByUser c u x db)))) Q"
  "Q (Inr ()) (add_pending c u x L) \<Longrightarrow>
     holds L (act_write (\<lambda>db. MarkDelegateAddressRefund c (AddPendingRefundBalanceByUser c u x db))) Q"
  by (rule holds_write, rule refines_stakes, simp, assumption)+

text \<open>Writes to the flags of one account, of which only the account's balances matter here.\<close>

definition flags_only :: "ledger \<Rightarrow> ledger \<Rightarrow> bool" where
  "flags_only L L' \<longleftrightarrow> (\<forall>a. la_field (L' a) = la_field (L a) \<and> la_apb (L' a) = la_apb (L a) \<and>
     la_reward (L' a) = la_reward (L a) \<and> la_trie (L' a) = la_trie (L a))"

lemma flags_kept: "flags_only L L' \<Longrightarrow> kept L L'"
  by (rule moved_other) (simp_all add: flags_only_def)

lemma holds_flags:
  assumes "refines D G" "flags_only L (G L)" "\<And>L'. flags_only L L' \<Longrightarrow> Q (Inr ()) L'"
  shows "holds L (act_write D) Q"
  by (rule holds_write [OF assms(1)]) (use assms(2,3) in \<open>simp_all add: flags_only_def\<close>)

lemma holds_candidacy [holds_rules]:
  "(\<And>L'. flags_only L L' \<Longrightarrow> Q (Inr ()) L') \<Longrightarrow>
     holds L (act_write (\<lambda>db. MarkAddressCandidate a (ApplyForCandidate a p c db))) Q"
  "(\<And>L'. flags_only L L' \<Longrightarrow> Q (Inr ()) L') \<Longrightarrow> holds L (act_write (CancelCandidate a b)) Q"
  "(\<And>L'. flags_only L L' \<Longrightarrow> Q (Inr ()) L') \<Longrightarrow> holds L (act_write (ClearCandidateSetByAddress a)) Q"
  "(\<And>L'. flags_only L L' \<Longrightarrow> Q (Inr ()) L') \<Longrightarrow> holds L (act_write (SetCommission a c)) Q"
  "(\<And>L'. flags_only L L' \<Longrightarrow> Q (Inr ()) L') \<Longrightarrow>
     holds L (act_write (\<lambda>db. ClearBannedSetByAddress a (SetBanned a b db))) Q"
  by (rule holds_flags [OF refines_comp [OF refines_candidacy(1) refines_sets(2)]]
      holds_flags [OF refines_candidacy(2)] holds_flags [OF refines_sets(4)] holds_flags [OF refines_account(7)]
      holds_flags [OF refines_comp [OF refines_account(9) refines_sets(5)]]; simp add: flags_only_def)+

lemma holds_choice [holds_rules]:
  "holds L m Q \<Longrightarrow> holds L n Q \<Longrightarrow> holds L (\<lambda>s. case w of None \<Rightarrow> None | Some False \<Rightarrow> n s | Some True \<Rightarrow> m s) Q"
  by (cases w; cases "the w") (simp_all add: holds_panic)

subsection \<open>The callbacks on the ledger\<close>

text \<open>The validations only read, and what they let through is what the callbacks rely on.\<close>

lemma holds_validations [holds_rules]:
  "(\<And>c. QA (Inr c) L) \<Longrightarrow> (\<And>e. QA (Inl e) L) \<Longrightarrow> holds L (withDrawRewardValidation X tx) QA"
  "(\<And>args. minimumRegisterAmount \<le> tx_value tx \<Longrightarrow> QR (Inr args) L) \<Longrightarrow> (\<And>e. QR (Inl e) L) \<Longrightarrow>
     holds L (registerValidation X C tx) QR"
  "Q (Inr ()) L \<Longrightarrow> (\<And>e. Q (Inl e) L) \<Longrightarrow> holds L (unRegisterValidation C tx) Q"
  "(\<And>c. 0 \<le> tx_value tx \<Longrightarrow> QA (Inr c) L) \<Longrightarrow> (\<And>e. QA (Inl e) L) \<Longrightarrow> holds L (delegateValidation X C tx) QA"
  "(\<And>c. QC (Inr c) L) \<Longrightarrow> (\<And>e. QC (Inl e) L) \<Longrightarrow> holds L (setCommissionValidation X tx) QC"
  "Q (Inr ()) L \<Longrightarrow> (\<And>e. Q (Inl e) L) \<Longrightarrow> holds L (updateValidation C) Q"
  unfolding withDrawRewardValidation_def registerValidation_def unRegisterValidation_def delegateValidation_def
    setCommissionValidation_def updateValidation_def
  by (rule holds_rules | simp only: sum.case not_less)+

lemma holds_unBannedValidation [holds_rules]:
  "Q (Inr ()) L \<Longrightarrow> (\<And>e. Q (Inl e) L) \<Longrightarrow> holds L (unBannedValidation C tx) Q"
  unfolding unBannedValidation_def by (rule holds_rules | simp only: sum.case)+

definition free_stake :: "ledger \<Rightarrow> address \<Rightarrow> address \<Rightarrow> int" where
  "free_stake L c u = apb_ProxiedBalance (la_apb (L c) u) +
     (apb_DepositProxiedBalance (la_apb (L c) u) - apb_PendingRefundBalance (la_apb (L c) u))"

lemma holds_unDelegateValidation [holds_rules]:
  "(\<And>args. unpack_undelegate X (drop 4 (tx_data tx)) = Some args \<Longrightarrow>
      ua_Amount args \<le> free_stake L (ua_Candidate args) (tx_from tx) \<Longrightarrow> Q (Inr args) L) \<Longrightarrow>
   (\<And>e. Q (Inl e) L) \<Longrightarrow> holds L (unDelegateValidation X C tx) Q"
  unfolding unDelegateValidation_def free_stake_def by (rule holds_rules | simp only: sum.case not_less)+

text \<open>The effect of withdrawing a reward and of giving up a candidacy on one entry.\<close>

definition pay_reward :: "address \<Rightarrow> address \<Rightarrow> int \<Rightarrow> ledger \<Rightarrow> ledger" where
  "pay_reward a k x L = add_field F_Balance a x (add_field F_Reward a (- x) (add_reward a k (- x) L))"

definition give_up :: "address \<Rightarrow> address \<Rightarrow> accountProxiedBalance \<Rightarrow> ledger \<Rightarrow> ledger" where
  "give_up c u b L =
     (let L1 = stake_out c u (apb_ProxiedBalance b) L; d = apb_DepositProxiedBalance b
      in if d > 0 then add_pending c u d L1 else L1)"

definition give_up_db :: "address \<Rightarrow> address \<Rightarrow> accountProxiedBalance \<Rightarrow> statedb \<Rightarrow> statedb" where
  "give_up_db c u b db =
     (let p = apb_ProxiedBalance b; d = apb_DepositProxiedBalance b;
          db1 = AddBalance u p (SubDelegateBalance u p (SubProxiedBalanceByUser c u p db))
      in if d > 0 then MarkDelegateAddressRefund c (AddPendingRefundBalanceByUser c u d db1) else db1)"

lemma unregister_cb_eq:
  "unregister_cb c u b st = (if apb_DepositProxiedBalance b > 0 then False else fst st, give_up_db c u b (snd st))"
  by (simp add: unregister_cb_def give_up_db_def Let_def)

lemma refines_give_up: "refines (give_up_db c u b) (give_up c u b)"
  using refines_stakes(2) [of u "apb_ProxiedBalance b" c]
    refines_comp [OF refines_stakes(2) [of u "apb_ProxiedBalance b" c] refines_stakes(4) [of c u "apb_DepositProxiedBalance b"]]
  by (cases "apb_DepositProxiedBalance b > 0")
    (simp_all add: give_up_db_def [abs_def] give_up_def [abs_def] Let_def)

lemma give_up_trie [simp]: "la_trie (give_up c u b L a) = la_trie (L a)"
  by (simp add: give_up_def Let_def)

lemma holds_reward:
  assumes "Q (Inr ()) (pay_reward a k x L)"
  shows "holds L (act_bind (act_try (\<lambda>db. map_option (Pair ()) (SubRewardBalanceByDelegateAddress a k x db)))
    (\<lambda>_. act_write (AddBalance a x))) Q"
proof (rule holds_bind)
  let ?L1 = "add_field F_Reward a (- x) (add_reward a k (- x) L)"
  have w: "holds ?L1 (act_write (AddBalance a x)) Q"
    by (rule holds_write [OF refines_account(1)]) (use assms in \<open>simp_all add: pay_reward_def\<close>)
  show "holds L (act_try (\<lambda>db. map_option (Pair ()) (SubRewardBalanceByDelegateAddress a k x db)))
    (\<lambda>r L'. case r of Inl e \<Rightarrow> Q (Inl e) L' | Inr _ \<Rightarrow> holds L' (act_write (AddBalance a x)) Q)"
    unfolding holds_def [of L]
  proof (intro allI impI)
    fix s r s' assume s: "sound (ds_db s)" "ledger (ds_db s) = L"
      "act_try (\<lambda>db. map_option (Pair ()) (SubRewardBalanceByDelegateAddress a k x db)) s = Some (r, s')"
    then obtain db' where d: "SubRewardBalanceByDelegateAddress a k x (ds_db s) = Some db'" "r = Inr ()" "ds_db s' = db'"
      by (auto simp: act_try_def split: option.splits)
    have "caches_ok db'" "ledger db' = ?L1"
      using SubReward_refines [OF _ d(1)] s by (auto simp: sound_def)
    then show "sound (ds_db s') \<and> (case r of Inl e \<Rightarrow> Q (Inl e) (ledger (ds_db s'))
        | Inr _ \<Rightarrow> holds (ledger (ds_db s')) (act_write (AddBalance a x)) Q)"
      using w d s(1,2) by (simp add: sound_def)
  qed
qed

text \<open>
  A relation between ledgers that the callbacks keep: it is enough that it is kept by the
  single movements of stakes, each under what the code has checked.
\<close>

locale contract_relation = ledger_relation rel
  for rel :: "ledger \<Rightarrow> ledger \<Rightarrow> bool" +
  assumes rel_flags: "flags_only L L' \<Longrightarrow> rel L L'"
    and rel_reward: "rel L (pay_reward a k x L)"
    and rel_in: "0 \<le> x \<Longrightarrow> rel L (stake_in c u x L)"
    and rel_out: "x \<le> apb_ProxiedBalance (la_apb (L c) u) \<Longrightarrow> rel L (stake_out c u x L)"
    and rel_deposit: "rel L (to_deposit c u (apb_ProxiedBalance (la_apb (L c) u)) L)"
    and rel_later: "\<not> x \<le> apb_ProxiedBalance (la_apb (L c) u) \<Longrightarrow> x \<le> free_stake L c u \<Longrightarrow>
      rel L (stake_out c u (apb_ProxiedBalance (la_apb (L c) u))
        (add_pending c u (x - apb_ProxiedBalance (la_apb (L c) u)) L))"
begin

lemma holds_deposit:
  assumes "runtime_ok R" "\<And>L'. rel L L' \<Longrightarrow> Q (Inr ()) L'"
  shows "holds L (act_try (\<lambda>db. ForEachProxied (rt_proxied R) c (deposit_cb c) ((), db))) Q"
  by (rule holds_ForEach [where D = "\<lambda>k b db. AddDepositProxiedBalanceByUser c k (apb_ProxiedBalance b)
        (SubProxiedBalanceByUser c k (apb_ProxiedBalance b) db)" and G = "\<lambda>k b. to_deposit c k (apb_ProxiedBalance b)"
        and h = "\<lambda>k b x. x", OF _ refines_stakes(3) rel_deposit])
    (use assms runtime_okD(1) in \<open>auto simp: deposit_cb_def\<close>)

lemma holds_update:
  assumes "runtime_ok (bc_runtime C)" "\<And>r L'. rel L L' \<Longrightarrow> Q r L'"
  shows "holds L (updateNextEpochValidatorVoteSet C tx c) Q"
proof -
  have q: "Q r L" for r
    using assms(2) rel_refl by blast
  show ?thesis
    unfolding updateNextEpochValidatorVoteSet_def Let_def
    by (rule holds_rules holds_deposit [OF assms(1)] q assms(2) | simp only: sum.case | assumption)+
qed

text \<open>The callbacks that record a vote end with an update of it.\<close>

lemma holds_updating:
  assumes "runtime_ok (bc_runtime C)" "rel L M"
  shows "holds M (updateNextEpochValidatorVoteSet C tx c) (\<lambda>r L'. rel L L')"
  by (rule holds_update [OF assms(1)]) (rule rel_trans [OF assms(2)])

lemma holds_register:
  assumes "runtime_ok (bc_runtime C)"
  shows "holds L (registerApplyCb X C tx) (\<lambda>r L'. rel L L')"
proof -
  have v: "rel L (stake_in (tx_from tx) (tx_from tx) (tx_value tx) L)" if "minimumRegisterAmount \<le> tx_value tx"
    using that by (intro rel_in) (simp add: minimumRegisterAmount_def)
  show ?thesis
    unfolding registerApplyCb_def Let_def
    by (rule holds_rules holds_updating [OF assms] rel_refl | simp only: sum.case
        | erule rel_trans [OF v rel_flags])+
qed

lemma holds_delegate:
  assumes "runtime_ok (bc_runtime C)"
  shows "holds L (delegateApplyCb X C tx) (\<lambda>r L'. rel L L')"
  unfolding delegateApplyCb_def Let_def
  by (rule holds_rules holds_updating [OF assms] rel_refl | simp only: sum.case | erule rel_in)+

lemma holds_unDelegate: "holds L (unDelegateApplyCb X C tx) (\<lambda>r L'. rel L L')"
  unfolding unDelegateApplyCb_def Let_def
  by (rule holds_rules rel_refl | simp only: sum.case if_True if_False if_not_P | simp only: if_P | erule rel_out
      | erule (1) rel_later)+

lemma holds_withdrawReward: "holds L (withdrawRewardApplyCb X tx) (\<lambda>r L'. rel L L')"
  unfolding withdrawRewardApplyCb_def
  by (rule holds_validations holds_reads holds_reward rel_refl rel_reward holds_bind | simp only: sum.case)+

lemma holds_setCommission: "holds L (setCommisstionApplyCb X tx) (\<lambda>r L'. rel L L')"
  unfolding setCommisstionApplyCb_def
  by (rule holds_rules rel_refl | simp only: sum.case | erule rel_flags)+

lemma holds_unBanned: "holds L (unBannedApplyCb C tx) (\<lambda>r L'. rel L L')"
  unfolding unBannedApplyCb_def
  by (rule holds_rules rel_refl | simp only: sum.case | erule rel_flags)+

text \<open>Giving up a candidacy, where the relation allows it.\<close>

lemma holds_unRegister:
  assumes "runtime_ok (bc_runtime C)" "\<And>k L. rel L (give_up (tx_from tx) k (la_apb (L (tx_from tx)) k) L)"
  shows "holds L (unRegisterApplyCb C tx) (\<lambda>r L'. rel L L')"
proof -
  have l: "holds L (act_try (\<lambda>db. ForEachProxied (rt_proxied (bc_runtime C)) (tx_from tx) (unregister_cb (tx_from tx)) (x, db))) Q"
    if "\<And>x L'. rel L L' \<Longrightarrow> Q (Inr x) L'" for Q x
    by (rule holds_ForEach [where D = "give_up_db (tx_from tx)" and G = "give_up (tx_from tx)"
          and h = "\<lambda>k b x. if apb_DepositProxiedBalance b > 0 then False else x", OF _ refines_give_up assms(2) give_up_trie])
      (use assms that runtime_okD(1) in \<open>auto simp: unregister_cb_eq\<close>)
  have f: "rel L N" if "rel L M" "flags_only M N" for M N
    by (rule rel_trans [OF that(1) rel_flags [OF that(2)]])
  have f2: "rel L N'" if "rel L M" "flags_only M N" "flags_only N N'" for M N N'
    by (rule f [OF f [OF that(1,2)] that(3)])
  show ?thesis
    unfolding unRegisterApplyCb_def Let_def
    by (rule l holds_rules rel_refl | simp only: sum.case | erule (2) f2)+
qed

end

subsection \<open>What giving up a candidacy does to the entries\<close>

lemma holds_ForEach_exact:
  assumes "\<forall>t. set (order t) = set t" "\<And>k b. refines (D k b) (G k b)" "\<And>k b L. la_trie (G k b L c) = la_trie (L c)"
    and "\<And>k b st. cb k b st = (h k b (fst st), D k b (snd st))" "\<And>a. distinct (map fst (la_trie (L a))) \<Longrightarrow>
      la_trie (snd (each c (\<lambda>k b st. (h k b (fst st), G k b (snd st))) (map fst (order (la_trie (L c)))) (x, L)) a) = la_trie (L a)"
    and "\<And>r. distinct (map fst (la_trie (L c))) \<Longrightarrow>
      r = each c (\<lambda>k b st. (h k b (fst st), G k b (snd st))) (map fst (order (la_trie (L c)))) (x, L) \<Longrightarrow> Q (Inr (fst r)) (snd r)"
  shows "holds L (act_try (\<lambda>db. ForEachProxied order c cb (x, db))) Q"
  unfolding holds_def
proof (intro allI impI)
  let ?F = "\<lambda>k b st. (h k b (fst st), G k b (snd st))"
  fix s r s' assume s: "sound (ds_db s)" "ledger (ds_db s) = L"
    "act_try (\<lambda>db. ForEachProxied order c cb (x, db)) s = Some (r, s')"
  have "cb_refines c cb ?F"
    unfolding cb_refines_def assms(4) using refinesD [OF assms(2)] assms(3) by simp
  moreover have c: "caches_ok (ds_db s)" "\<And>a. distinct (map fst (la_trie (L a)))"
    using s(1,2) by (auto simp: sound_def)
  ultimately obtain x' db' where f: "ForEachProxied order c cb (x, ds_db s) = Some (x', db')" "caches_ok db'"
      "(x', ledger db') = each c ?F (map fst (order (la_trie (L c)))) (x, L)"
    using ForEach_refines [of c cb ?F "ds_db s" order x] assms(1) s(2) by auto
  have q: "Q (Inr x') (ledger db')"
    using assms(6) [OF c(2) f(3)] by simp
  have "la_trie (ledger db' a) = la_trie (L a)" for a
    using assms(5) [OF c(2), of a] unfolding f(3) [symmetric] by simp
  then show "sound (ds_db s') \<and> Q r (ledger (ds_db s'))"
    using s f(1,2) q c(2) by (auto simp: act_try_def sound_def)
qed

lemma each_entries:
  assumes "\<And>k b x L. la_apb (snd (F k b (x, L)) c) = (la_apb (L c))(k := E b (la_apb (L c) k))" "distinct ks"
  shows "la_apb (snd (each c F ks st) c) k =
    (if k \<in> set ks then E (la_apb (snd st c) k) (la_apb (snd st c) k) else la_apb (snd st c) k)"
  using assms(2)
proof (induction ks arbitrary: st)
  case (Cons k0 ks)
  have "la_apb (snd (F k0 (la_apb (snd st c) k0) st) c) = (la_apb (snd st c))(k0 := E (la_apb (snd st c) k0) (la_apb (snd st c) k0))"
    using assms(1) [of k0 _ "fst st" "snd st"] by simp
  then show ?case
    using Cons by (simp add: each_def)
qed (simp add: each_def)

lemma each_keeps:
  assumes "\<And>k b x L. g (snd (F k b (x, L))) = g L"
  shows "g (snd (each c F ks st)) = g (snd st)"
proof (induction ks arbitrary: st)
  case (Cons k ks)
  then show ?case
    using assms [of k _ "fst st" "snd st"] by (simp add: each_def)
qed (simp add: each_def)

definition left_entry :: "accountProxiedBalance \<Rightarrow> accountProxiedBalance" where
  "left_entry b = b\<lparr>apb_ProxiedBalance := 0,
     apb_PendingRefundBalance := apb_PendingRefundBalance b +
       (if apb_DepositProxiedBalance b > 0 then apb_DepositProxiedBalance b else 0)\<rparr>"

lemma give_up_entries:
  "la_apb (give_up c u b L c) = (la_apb (L c))(u := (la_apb (L c) u)
     \<lparr>apb_ProxiedBalance := apb_ProxiedBalance (la_apb (L c) u) - apb_ProxiedBalance b,
      apb_PendingRefundBalance := apb_PendingRefundBalance (la_apb (L c) u) +
        (if apb_DepositProxiedBalance b > 0 then apb_DepositProxiedBalance b else 0)\<rparr>)"
  "c' \<noteq> c \<Longrightarrow> la_apb (give_up c u b L c') = la_apb (L c')"
  by (auto simp: give_up_def stake_out_def Let_def add_proxied_def add_pending_def upd_apb_def add_field_def fun_eq_iff)

definition left_by :: "address \<Rightarrow> ledger \<Rightarrow> ledger \<Rightarrow> bool" where
  "left_by c L L' \<longleftrightarrow> (\<forall>a k. la_apb (L' a) k =
     (if a = c \<and> k \<in> fst ` set (la_trie (L c)) then left_entry (la_apb (L c) k) else la_apb (L a) k))"

lemma holds_leaving:
  assumes "runtime_ok (bc_runtime C)"
  shows "holds L (unRegisterApplyCb C tx) (\<lambda>r L'. (case r of Inl e \<Rightarrow> L' = L | Inr _ \<Rightarrow> left_by (tx_from tx) L L'))"
proof -
  let ?c = "tx_from tx"
  let ?F = "\<lambda>k b st. (if apb_DepositProxiedBalance b > 0 then False else fst st, give_up ?c k b (snd st))"
  let ?ks = "map fst (rt_proxied (bc_runtime C) (la_trie (L ?c)))"
  note o = runtime_okD [OF assms]
  have ks: "set ?ks = fst ` set (la_trie (L ?c))"
    using o(1) by simp
  have e: "left_by ?c L (snd (each ?c ?F ?ks (x, L)))" if "distinct (map fst (la_trie (L ?c)))" for x
    unfolding left_by_def
  proof (intro allI)
    fix a k
    show "la_apb (snd (each ?c ?F ?ks (x, L)) a) k =
        (if a = ?c \<and> k \<in> fst ` set (la_trie (L ?c)) then left_entry (la_apb (L ?c) k) else la_apb (L a) k)"
    proof (cases "a = ?c")
      case True
      have "distinct ?ks"
        by (rule o(2) [OF that])
      then show ?thesis
        unfolding True by (subst each_entries [of ?F, OF _ \<open>distinct ?ks\<close>], simp only: snd_conv give_up_entries(1))
          (simp add: ks [simplified] left_entry_def)
    next
      case False
      then have "la_apb (snd (each ?c ?F ?ks (x, L)) a) = la_apb (snd (x, L) a)"
        by (intro each_keeps [where g = "\<lambda>L. la_apb (L a)"]) (simp add: give_up_entries(2))
      then show ?thesis
        using False by simp
    qed
  qed
  have t: "la_trie (snd (each ?c ?F ?ks (x, L)) a) = la_trie (L a)" for x a
    using each_keeps [where g = "\<lambda>L. la_trie (L a)" and F = ?F and st = "(x, L)"] by simp
  have l: "holds L (act_try (\<lambda>db. ForEachProxied (rt_proxied (bc_runtime C)) ?c (unregister_cb ?c) (x, db))) Q"
    if "\<And>x L'. left_by ?c L L' \<Longrightarrow> Q (Inr x) L'" for Q x
    by (rule holds_ForEach_exact [where D = "give_up_db ?c" and G = "give_up ?c"
          and h = "\<lambda>k b x. if apb_DepositProxiedBalance b > 0 then False else x", OF o(1) refines_give_up give_up_trie])
      (use e that t in \<open>auto simp: unregister_cb_eq\<close>)
  have f: "left_by ?c L N'" if "left_by ?c L M" "flags_only M N" "flags_only N N'" for M N N'
    using that by (simp add: left_by_def flags_only_def)
  show ?thesis
    unfolding unRegisterApplyCb_def Let_def
    by (rule l holds_rules refl | simp only: sum.case | erule (2) f)+
qed

subsection \<open>The books\<close>

lemma kept_moves: "kept L (pay_reward a k x L)" "kept L (give_up c u b L)"
proof -
  show "kept L (pay_reward a k x L)"
    unfolding pay_reward_def by (rule moved_trans [OF moved_fields(4) moved_fields(1)]) (simp_all add: at_def fun_eq_iff)
  show "kept L (give_up c u b L)"
    unfolding give_up_def Let_def
    using kept_stakes(2) books.rel_trans [OF kept_stakes(2) moved_entries(3)] by simp
qed

interpretation accounts: contract_relation kept
  by unfold_locales (auto intro: flags_kept kept_moves kept_stakes books.rel_trans [OF moved_entries(3) kept_stakes(2)])

definition solvent :: "ledger \<Rightarrow> bool" where
  "solvent L \<longleftrightarrow> (\<forall>c u. 0 \<le> apb_ProxiedBalance (la_apb (L c) u) \<and> 0 \<le> apb_DepositProxiedBalance (la_apb (L c) u) \<and>
     0 \<le> apb_PendingRefundBalance (la_apb (L c) u) \<and>
     apb_PendingRefundBalance (la_apb (L c) u) \<le> apb_DepositProxiedBalance (la_apb (L c) u))"

definition stays_solvent :: "ledger \<Rightarrow> ledger \<Rightarrow> bool" where
  "stays_solvent L L' \<longleftrightarrow> (solvent L \<longrightarrow> solvent L') \<and> (\<forall>a. la_trie (L' a) = la_trie (L a))"

lemma solvent_entries:
  assumes "\<And>c u. la_apb (L' c) u = la_apb (L c) u"
  shows "solvent L' = solvent L"
  using assms by (simp add: solvent_def)

interpretation solvency: contract_relation stays_solvent
proof unfold_locales
  show "stays_solvent L L'" if "flags_only L L'" for L L'
    using that by (simp add: stays_solvent_def flags_only_def solvent_def)
  show "stays_solvent L (pay_reward a k x L)" for L a k x
    by (simp add: stays_solvent_def solvent_def pay_reward_def)
  show "stays_solvent L (stake_in c u x L)" if "0 \<le> x" for L c u x
    using that by (auto simp: stays_solvent_def solvent_def stake_in_def at_def)
  show "stays_solvent L (stake_out c u x L)" if "x \<le> apb_ProxiedBalance (la_apb (L c) u)" for L c u x
    using that by (auto simp: stays_solvent_def solvent_def stake_out_def at_def)
  show "stays_solvent L (to_deposit c u (apb_ProxiedBalance (la_apb (L c) u)) L)" for L c u
    by (auto simp: stays_solvent_def solvent_def to_deposit_def at_def intro: add_increasing2)
  show "stays_solvent L (stake_out c u (apb_ProxiedBalance (la_apb (L c) u))
      (add_pending c u (x - apb_ProxiedBalance (la_apb (L c) u)) L))"
    if "\<not> x \<le> apb_ProxiedBalance (la_apb (L c) u)" "x \<le> free_stake L c u" for L c u x
    using that by (auto simp: stays_solvent_def solvent_def stake_out_def at_def free_stake_def algebra_simps
        add_increasing intro: order_trans)
qed (auto simp: stays_solvent_def)

text \<open>Candidate \<open>[1]\<close> with the delegator \<open>[2]\<close>, part of whose deposit is due for refund.\<close>

definition sample_stakes :: state_trie where
  "sample_stakes = sample_trie\<lparr>st_trie :=
     [[1] \<mapsto> new_account\<lparr>Balance := 50, Candidate := True, ProxiedBalance := 5, DepositProxiedBalance := 7,
        PendingRefundBalance := 3, ProxiedRoot := Some [([2], \<lparr>apb_ProxiedBalance = 5,
        apb_DepositProxiedBalance = 7, apb_PendingRefundBalance = 3\<rparr>)]\<rparr>,
      [2] \<mapsto> new_account\<lparr>Balance := 20, DelegateBalance := 12, RewardBalance := 4, RewardRoot := [([1], 4)]\<rparr>],
     st_candidateSet := {[1]}\<rparr>"

definition sample_chain :: chain where
  "sample_chain =
     \<lparr>bc_wire = \<lparr>epoch_bytes = (\<lambda>_. []), read_epoch = (\<lambda>_. None), votes_bytes = (\<lambda>_. []), read_votes = (\<lambda>_. None),
        scheme_bytes = (\<lambda>_. []), read_scheme = (\<lambda>_. None), read_time = (\<lambda>t. t)\<rparr>,
      bc_edb = Map.empty, bc_height = 350,
      bc_runtime = \<lparr>rt_addresses = sorted_list_of_set, rt_proxied = (\<lambda>t. t), rt_sort_votes = (\<lambda>vs. vs),
        rt_sort_validators = (\<lambda>vs. vs)\<rparr>\<rparr>"

definition sample_contract :: contract_ext where
  "sample_contract = \<lparr>unpack_withdraw = (\<lambda>b. Some b), unpack_register = (\<lambda>b. None), unpack_delegate = (\<lambda>b. Some b),
     unpack_undelegate = (\<lambda>b. Some \<lparr>ua_Candidate = b, ua_Amount = 8\<rparr>),
     unpack_commission = (\<lambda>b. None), unpack_edit = (\<lambda>b. None), CheckConsensusPubKey = (\<lambda>a b c. True), KeyString = (\<lambda>k. '''')\<rparr>"

definition sample_state :: dstate where
  "sample_state = \<lparr>ds_db = NewStateDB sample_stakes, ds_ops = [],
     ds_epoch = Some (Epoch (sample_epoch_data 3 EPOCH_SAVED) None None None None)\<rparr>"

definition sample_call :: "address \<Rightarrow> bytes \<Rightarrow> transaction" where
  "sample_call a args = \<lparr>tx_from = a, tx_value = 0, tx_data = [0, 0, 0, 0] @ args, tx_hash = zero_hash\<rparr>"

subsection \<open>The registered callbacks\<close>

lemma Register_lookup [simp]:
  "snd (RegisterApplyCb g c m) f = (if f = g \<and> m g = None then Some c else m f)"
  "snd (RegisterValidateCb g c m) f = (if f = g \<and> m g = None then Some c else m f)"
  by (simp_all add: RegisterApplyCb_def RegisterValidateCb_def)

lemma registered:
  "fold (\<lambda>(f, cb) m. snd (RegisterApplyCb f (NonCrossChainCb cb) m)) cbs m f =
     (case m f of Some c \<Rightarrow> Some c | None \<Rightarrow> map_option NonCrossChainCb (map_of cbs f))"
  by (induction cbs arbitrary: m) (auto split: option.splits)

lemma registered_validate:
  "fold (\<lambda>(f, cb) m. snd (RegisterValidateCb f (NonCrossChainCb cb) m)) cbs m f =
     (case m f of Some c \<Rightarrow> Some c | None \<Rightarrow> map_option NonCrossChainCb (map_of cbs f))"
  by (induction cbs arbitrary: m) (auto split: option.splits)

lemma CbMaps:
  "applyCbMap X C f = map_option NonCrossChainCb (map_of (applyCbs X C) f)"
  "validateCbMap X C f = map_option NonCrossChainCb (map_of (validateCbs X C) f)"
  by (simp_all add: applyCbMap_def validateCbMap_def registered registered_validate)

lemma apply_callback_cases:
  assumes "GetApplyCb (applyCbMap X C) f = Some (NonCrossChainCb cb)"
  obtains "f = neatabi_WithdrawReward" "cb = withdrawRewardApplyCb X"
  | "f = neatabi_Delegate" "cb = delegateApplyCb X C"
  | "f = neatabi_UnDelegate" "cb = unDelegateApplyCb X C"
  | "f = neatabi_Register" "cb = registerApplyCb X C"
  | "f = neatabi_UnRegister" "cb = unRegisterApplyCb C"
  | "f = neatabi_SetCommission" "cb = setCommisstionApplyCb X"
  | "f = neatabi_UnBanned" "cb = unBannedApplyCb C"
  using assms by (auto simp: GetApplyCb_def CbMaps applyCbs_def split: if_splits)

context contract_relation
begin

lemma callback_rel:
  assumes "runtime_ok (bc_runtime C)" "GetApplyCb (applyCbMap X C) f = Some (NonCrossChainCb cb)"
    and "f = neatabi_UnRegister \<Longrightarrow> \<forall>c k L. rel L (give_up c k (la_apb (L c) k) L)"
  shows "holds L (cb tx) (\<lambda>r L'. rel L L')"
  using assms(2)
proof (cases rule: apply_callback_cases)
  case 5
  then show ?thesis
    using holds_unRegister [OF assms(1)] assms(3) by blast
qed (simp_all add: holds_withdrawReward holds_delegate holds_unDelegate holds_register holds_setCommission holds_unBanned assms(1))

end

text \<open>
  C4: The contract keeps its books.  Whatever registered callback runs and however it ends, with an
  error or not, every account keeps its estate (the sum of its free, deposited and delegated balance
  and its rewards); and over every large enough finite set of addresses, the delegated balance of an
  account stays as far from the sum of its entries with the candidates as it was, and each of the three totals a
  candidate records stays as far from the sum of its delegators' entries as it was.  So books that
  were balanced stay balanced.
\<close>
theorem contract_books_balance:
  assumes "runtime_ok (bc_runtime C)" "sound (ds_db s)"
    and "GetApplyCb (applyCbMap X C) f = Some (NonCrossChainCb cb)" "cb tx s = Some (r, s')"
  shows "(\<forall>a. estate (ledger (ds_db s') a) = estate (ledger (ds_db s) a)) \<and>
    (\<exists>U0. finite U0 \<and> (\<forall>U a. finite U \<and> U0 \<subseteq> U \<longrightarrow>
       unbacked U (ledger (ds_db s')) a = unbacked U (ledger (ds_db s)) a \<and>
       unlisted U (ledger (ds_db s') a) = unlisted U (ledger (ds_db s) a)))"
proof -
  have "kept (ledger (ds_db s)) (ledger (ds_db s'))"
    using accounts.callback_rel [OF assms(1,3)] kept_moves(2) assms(2,4) by (auto simp: holds_def)
  then show ?thesis
    unfolding moved_def by auto
qed

text \<open>The entries of the samples below.\<close>

lemma sample_sound: "sound (NewStateDB sample_stakes)" "solvent (ledger (NewStateDB sample_stakes))"
    "runtime_ok (bc_runtime sample_chain)"
  by (auto simp: sound_def caches_ok_def NewStateDB_def sample_stakes_def sample_trie_def ledger_def peek_def acct_def
      empty_acct_def proxiedTrie_def newObject_def new_account_def solvent_def apb_or_zero_def proxied_read_def
      sample_chain_def runtime_ok_def NewAccountProxiedBalance_def split: option.splits if_splits)

lemma sample_state_sound: "sound (ds_db sample_state)" "solvent (ledger (ds_db sample_state))"
  by (simp_all add: sample_state_def sample_sound)

lemma ranE:
  assumes "case m of Some (Inr _, s') \<Rightarrow> P s' | _ \<Rightarrow> False"
  obtains s' where "m = Some (Inr (), s' :: dstate)" "P s'"
proof (cases m)
  case (Some x)
  obtain r s' where x: "x = (r, s')"
    by (cases x)
  show thesis
    using assms that [of s'] Some x by (cases r) simp_all
qed (use assms in simp)

lemma withdrawal_runs:
  "case withdrawRewardApplyCb sample_contract (sample_call [2] [1]) sample_state of
     Some (Inr _, s') \<Rightarrow> fst (GetBalance [2] (ds_db s')) = 24 | _ \<Rightarrow> False"
  by code_simp

text \<open>Delegator \<open>[2]\<close> withdraws its reward.\<close>

theorem contract_books_balance_witness:
  "\<exists>s'. withdrawRewardApplyCb sample_contract (sample_call [2] [1]) sample_state = Some (Inr (), s') \<and>
     fst (GetBalance [2] (ds_db s')) = 24 \<and>
     estate (ledger (ds_db s') [2]) = estate (ledger (ds_db sample_state) [2])"
proof -
  obtain s' where s': "withdrawRewardApplyCb sample_contract (sample_call [2] [1]) sample_state = Some (Inr (), s')"
      "fst (GetBalance [2] (ds_db s')) = 24"
    using withdrawal_runs by (rule ranE)
  have "GetApplyCb (applyCbMap sample_contract sample_chain) neatabi_WithdrawReward =
      Some (NonCrossChainCb (withdrawRewardApplyCb sample_contract))"
    by (simp add: GetApplyCb_def CbMaps applyCbs_def)
  note e = conjunct1 [OF contract_books_balance [OF sample_sound(3) sample_state_sound(1) this s'(1)]]
  show ?thesis
    by (intro exI [of _ s'] conjI) (rule s' spec [OF e])+
qed

text \<open>
  C5: Except for giving up a candidacy, the contract stays solvent: if in every entry of every candidate
  the stake, the deposit and the pending refund are non-negative and the pending refund does not exceed the deposit
  out of which it will be paid, the same holds after any callback, whatever its arguments and
  however it ends.
\<close>
theorem contract_stays_solvent:
  assumes "runtime_ok (bc_runtime C)" "sound (ds_db s)"
    and "GetApplyCb (applyCbMap X C) f = Some (NonCrossChainCb cb)" "f \<noteq> neatabi_UnRegister"
    and "cb tx s = Some (r, s')" "solvent (ledger (ds_db s))"
  shows "solvent (ledger (ds_db s'))"
  using solvency.callback_rel [OF assms(1,3), of "ledger (ds_db s)" tx] assms(2,4-6)
  by (auto simp: holds_def stays_solvent_def)

lemma unDelegate_returns:
  assumes "case act_bind (unDelegateValidation X C tx) (\<lambda>_. updateValidation C) s of
      Some (Inr _, _) \<Rightarrow> True | _ \<Rightarrow> False"
  shows "\<exists>s'. unDelegateApplyCb X C tx s = Some (Inr (), s')"
proof -
  obtain args s1 where v: "unDelegateValidation X C tx s = Some (Inr args, s1)"
    using assms by (auto simp: act_bind_def split: option.splits sum.splits)
  moreover obtain s2 where "updateValidation C s1 = Some (Inr (), s2)"
    using assms v by (auto simp: act_bind_def split: option.splits sum.splits)
  ultimately show ?thesis
    by (simp add: unDelegateApplyCb_def Let_def act_bind_def act_read_def act_write_def act_return_def split_beta)
qed

text \<open>Delegator \<open>[2]\<close> takes back eight: five at once and three of its deposit later.\<close>

theorem contract_stays_solvent_witness:
  "\<exists>s'. unDelegateApplyCb sample_contract sample_chain (sample_call [2] [1]) sample_state = Some (Inr (), s') \<and>
     solvent (ledger (ds_db s'))"
proof -
  have "case act_bind (unDelegateValidation sample_contract sample_chain (sample_call [2] [1]))
      (\<lambda>_. updateValidation sample_chain) sample_state of Some (Inr _, _) \<Rightarrow> True | _ \<Rightarrow> False"
    by code_simp
  then obtain s' where s': "unDelegateApplyCb sample_contract sample_chain (sample_call [2] [1]) sample_state = Some (Inr (), s')"
    using unDelegate_returns by blast
  have "GetApplyCb (applyCbMap sample_contract sample_chain) neatabi_UnDelegate =
      Some (NonCrossChainCb (unDelegateApplyCb sample_contract sample_chain))"
    by (simp add: GetApplyCb_def CbMaps applyCbs_def neatabi_defs)
  moreover have "neatabi_UnDelegate \<noteq> neatabi_UnRegister"
    by (simp add: neatabi_defs)
  ultimately show ?thesis
    using contract_stays_solvent [where C = sample_chain and X = sample_contract and f = neatabi_UnDelegate
        and cb = "unDelegateApplyCb sample_contract sample_chain", OF sample_sound(3) sample_state_sound(1) _ _ s' sample_state_sound(2)]
      s' by blast
qed

text \<open>
  C13: Giving up a candidacy does not look at refunds that are already pending.  When it succeeds
  every listed delegator's free stake is paid out and its whole deposit is added to its pending
  refund, whatever was pending before; entries of other candidates are as before.  A solvent contract stays
  solvent exactly when no listed delegator had a refund pending: otherwise the pending refund
  exceeds the deposit by what was pending, and the next epoch pays that amount twice.
\<close>
theorem unregister_overdraws:
  assumes "runtime_ok (bc_runtime C)" "sound (ds_db s)" "solvent (ledger (ds_db s))"
    and "unRegisterApplyCb C tx s = Some (Inr (), s')"
  shows "(\<forall>u \<in> fst ` set (la_trie (ledger (ds_db s) (tx_from tx))).
      let b = la_apb (ledger (ds_db s) (tx_from tx)) u in
      la_apb (ledger (ds_db s') (tx_from tx)) u =
        b\<lparr>apb_ProxiedBalance := 0,
          apb_PendingRefundBalance := apb_DepositProxiedBalance b + apb_PendingRefundBalance b\<rparr>) \<and>
    (solvent (ledger (ds_db s')) \<longleftrightarrow>
       (\<forall>u \<in> fst ` set (la_trie (ledger (ds_db s) (tx_from tx))).
          apb_PendingRefundBalance (la_apb (ledger (ds_db s) (tx_from tx)) u) = 0))"
    (is "?A \<and> ?B")
proof -
  let ?c = "tx_from tx" and ?L = "ledger (ds_db s)" and ?L' = "ledger (ds_db s')"
  have l: "left_by ?c ?L ?L'"
    using holds_leaving [OF assms(1), of ?L tx] assms(2,4) by (auto simp: holds_def)
  have n: "0 \<le> apb_ProxiedBalance (la_apb (?L a) u)" "0 \<le> apb_DepositProxiedBalance (la_apb (?L a) u)"
      "0 \<le> apb_PendingRefundBalance (la_apb (?L a) u)"
      "apb_PendingRefundBalance (la_apb (?L a) u) \<le> apb_DepositProxiedBalance (la_apb (?L a) u)" for a u
    using assms(3) by (simp_all add: solvent_def)
  have e: "left_entry (la_apb (?L a) u) = (la_apb (?L a) u)\<lparr>apb_ProxiedBalance := 0,
      apb_PendingRefundBalance := apb_DepositProxiedBalance (la_apb (?L a) u) + apb_PendingRefundBalance (la_apb (?L a) u)\<rparr>" for a u
    using n(2) [of a u] by (auto simp: left_entry_def)
  have in_trie: "la_apb (?L' ?c) u = (la_apb (?L ?c) u)\<lparr>apb_ProxiedBalance := 0, apb_PendingRefundBalance :=
      apb_DepositProxiedBalance (la_apb (?L ?c) u) + apb_PendingRefundBalance (la_apb (?L ?c) u)\<rparr>"
    if "u \<in> fst ` set (la_trie (?L ?c))" for u
    using l that by (simp add: left_by_def e)
  then have ?A
    unfolding Let_def by blast
  moreover have ?B
  proof
    assume "solvent ?L'"
    then have le: "apb_PendingRefundBalance (la_apb (?L' ?c) u) \<le> apb_DepositProxiedBalance (la_apb (?L' ?c) u)" for u
      unfolding solvent_def by blast
    show "\<forall>u \<in> fst ` set (la_trie (?L ?c)). apb_PendingRefundBalance (la_apb (?L ?c) u) = 0"
    proof
      fix u assume "u \<in> fst ` set (la_trie (?L ?c))"
      from le [of u, unfolded in_trie [OF this]] show "apb_PendingRefundBalance (la_apb (?L ?c) u) = 0"
        using n(3) [of ?c u] by simp
    qed
  next
    assume z: "\<forall>u \<in> fst ` set (la_trie (?L ?c)). apb_PendingRefundBalance (la_apb (?L ?c) u) = 0"
    have "0 \<le> apb_ProxiedBalance b \<and> 0 \<le> apb_DepositProxiedBalance b \<and> 0 \<le> apb_PendingRefundBalance b \<and>
        apb_PendingRefundBalance b \<le> apb_DepositProxiedBalance b" if "b = la_apb (?L' a) u" for a u b
    proof (cases "a = ?c \<and> u \<in> fst ` set (la_trie (?L ?c))")
      case True
      then show ?thesis
        unfolding that using in_trie [of u] z n(2) [of ?c u] by simp
    next
      case False
      then have "b = la_apb (?L a) u"
        unfolding that using l by (auto simp: left_by_def)
      then show ?thesis
        using n [of a u] by simp
    qed
    then show "solvent ?L'"
      unfolding solvent_def by blast
  qed
  ultimately show ?thesis ..
qed

lemma unregistration_runs:
  "case unRegisterApplyCb sample_chain (sample_call [1] []) sample_state of
     Some (Inr _, s') \<Rightarrow> fst (GetPendingRefundBalanceByUser [1] [2] (ds_db s')) = 10 \<and>
       fst (GetDepositProxiedBalanceByUser [1] [2] (ds_db s')) = 7 | _ \<Rightarrow> False"
  by code_simp

text \<open>With three pending of a deposit of seven, ten are pending afterwards.\<close>

theorem unregister_overdraws_witness:
  "\<exists>s'. unRegisterApplyCb sample_chain (sample_call [1] []) sample_state = Some (Inr (), s') \<and>
     fst (GetPendingRefundBalanceByUser [1] [2] (ds_db s')) = 10 \<and> \<not> solvent (ledger (ds_db s'))"
proof -
  obtain s' where s': "unRegisterApplyCb sample_chain (sample_call [1] []) sample_state = Some (Inr (), s')"
      "fst (GetPendingRefundBalanceByUser [1] [2] (ds_db s')) = 10"
    using unregistration_runs by (rule ranE) blast
  have s: "ds_db sample_state = NewStateDB sample_stakes" "tx_from (sample_call [1] []) = [1]"
    by (simp_all add: sample_state_def sample_call_def)
  have b: "[2] \<in> fst ` set (la_trie (ledger (NewStateDB sample_stakes) [1]))"
      "apb_PendingRefundBalance (la_apb (ledger (NewStateDB sample_stakes) [1]) [2]) = 3"
    by (simp_all add: NewStateDB_def sample_stakes_def sample_trie_def ledger_def peek_def acct_def
      proxiedTrie_def newObject_def apb_or_zero_def proxied_read_def)
  have "\<not> solvent (ledger (ds_db s'))"
    using unregister_overdraws [OF sample_sound(3) sample_state_sound s'(1)] b unfolding s by fastforce
  then show ?thesis
    using s' by blast
qed

subsection \<open>Validating and applying\<close>

lemma holds_validate:
  assumes "GetValidateCb (validateCbMap X C) f = Some (NonCrossChainCb v)"
  shows "holds L (v tx) (\<lambda>r L'. L' = L)"
proof -
  have e: "holds L (editValidatorValidateCb X tx) (\<lambda>r L'. L' = L)"
    unfolding editValidatorValidateCb_def by (rule holds_rules refl | simp only: sum.case)+
  have "holds L (withdrawRewardValidateCb X tx) (\<lambda>r L'. L' = L)" "holds L (delegateValidateCb X C tx) (\<lambda>r L'. L' = L)"
      "holds L (unDelegateValidateCb X C tx) (\<lambda>r L'. L' = L)" "holds L (registerValidateCb X C tx) (\<lambda>r L'. L' = L)"
      "holds L (unRegisterValidateCb C tx) (\<lambda>r L'. L' = L)" "holds L (setCommisstionValidateCb X tx) (\<lambda>r L'. L' = L)"
      "holds L (unBannedValidateCb C tx) (\<lambda>r L'. L' = L)"
    unfolding withdrawRewardValidateCb_def delegateValidateCb_def unDelegateValidateCb_def registerValidateCb_def
      unRegisterValidateCb_def setCommisstionValidateCb_def unBannedValidateCb_def
    by (rule holds_rules refl | simp only: sum.case)+
  then show ?thesis
    using assms e by (auto simp: GetValidateCb_def CbMaps validateCbs_def split: if_splits)
qed

text \<open>An apply callback starts with the validation its validate callback consists of.\<close>

definition agrees :: "unit act \<Rightarrow> unit act \<Rightarrow> bool" where
  "agrees v a \<longleftrightarrow> (\<forall>s. (\<forall>e s1. v s = Some (Inl e, s1) \<longrightarrow> a s = Some (Inl e, s1)) \<and> (v s = None \<longrightarrow> a s = None))"

lemma agrees_bind:
  "agrees (act_bind m (\<lambda>_. act_return ())) (act_bind m k)" "agrees n (act_bind n k')"
  by (auto simp: agrees_def act_bind_def act_return_def split: option.splits sum.splits prod.splits)

lemma agreesD:
  assumes "agrees v a"
  shows "v s = Some (Inl e, s1) \<Longrightarrow> a s = Some (Inl e, s1)" "v s = None \<Longrightarrow> a s = None"
  using assms by (simp_all add: agrees_def)

lemma agrees_passes:
  assumes "agrees v a" "a s = Some (Inr (), s1)"
  shows "\<exists>s2. v s = Some (Inr (), s2)"
proof (cases "v s")
  case None
  then show ?thesis
    using agreesD(2) [OF assms(1)] assms(2) by simp
next
  case (Some x)
  obtain r s2 where x: "x = (r, s2)"
    by (cases x)
  show ?thesis
    using agreesD(1) [OF assms(1), of s _ s2] Some x assms(2) by (cases r) simp_all
qed

lemma callbacks_agree:
  "agrees (withdrawRewardValidateCb X tx) (withdrawRewardApplyCb X tx)"
  "agrees (delegateValidateCb X C tx) (delegateApplyCb X C tx)"
  "agrees (unDelegateValidateCb X C tx) (unDelegateApplyCb X C tx)"
  "agrees (registerValidateCb X C tx) (registerApplyCb X C tx)"
  "agrees (unRegisterValidateCb C tx) (unRegisterApplyCb C tx)"
  "agrees (setCommisstionValidateCb X tx) (setCommisstionApplyCb X tx)"
  "agrees (unBannedValidateCb C tx) (unBannedApplyCb C tx)"
  unfolding withdrawRewardValidateCb_def withdrawRewardApplyCb_def delegateValidateCb_def
    delegateApplyCb_def unDelegateValidateCb_def unDelegateApplyCb_def registerValidateCb_def registerApplyCb_def
    unRegisterValidateCb_def unRegisterApplyCb_def setCommisstionValidateCb_def setCommisstionApplyCb_def
    unBannedValidateCb_def unBannedApplyCb_def Let_def
  by (rule agrees_bind)+

lemma validate_callbacks:
  "map_of (validateCbs X C) neatabi_WithdrawReward = Some (withdrawRewardValidateCb X)"
  "map_of (validateCbs X C) neatabi_Delegate = Some (delegateValidateCb X C)"
  "map_of (validateCbs X C) neatabi_UnDelegate = Some (unDelegateValidateCb X C)"
  "map_of (validateCbs X C) neatabi_Register = Some (registerValidateCb X C)"
  "map_of (validateCbs X C) neatabi_UnRegister = Some (unRegisterValidateCb C)"
  "map_of (validateCbs X C) neatabi_SetCommission = Some (setCommisstionValidateCb X)"
  "map_of (validateCbs X C) neatabi_UnBanned = Some (unBannedValidateCb C)"
  by (simp_all add: validateCbs_def neatabi_defs)

text \<open>
  C14: The pool and the block agree on what is invalid.  A transaction that a registered
  validate callback rejects or panics on is rejected with the same error, or panicked on, by the apply callback of the same
  function in the same state, before anything is written; so a call that can be applied passes
  validation.  Validating never changes the ledger.
\<close>
theorem validation_agrees:
  assumes "GetValidateCb (validateCbMap X C) f = Some (NonCrossChainCb v)"
    and "GetApplyCb (applyCbMap X C) f = Some (NonCrossChainCb a)" "sound (ds_db s)"
  shows "(\<forall>e s1. v tx s = Some (Inl e, s1) \<longrightarrow> a tx s = Some (Inl e, s1)) \<and>
    (v tx s = None \<longrightarrow> a tx s = None) \<and>
    (\<forall>s1. a tx s = Some (Inr (), s1) \<longrightarrow> (\<exists>s2. v tx s = Some (Inr (), s2))) \<and>
    (\<forall>r s1. v tx s = Some (r, s1) \<longrightarrow> ledger (ds_db s1) = ledger (ds_db s))"
proof -
  have g: "agrees (v tx) (a tx)"
    using assms(1) by (cases rule: apply_callback_cases [OF assms(2)])
      (simp_all only: GetValidateCb_def CbMaps validate_callbacks option.map option.inject callback.inject, auto intro: callbacks_agree)
  have "\<exists>s2. v tx s = Some (Inr (), s2)" if "a tx s = Some (Inr (), s1)" for s1
    using g that by (rule agrees_passes)
  moreover have "ledger (ds_db s1) = ledger (ds_db s)" if "v tx s = Some (r, s1)" for r s1
    using holds_validate [OF assms(1), of "ledger (ds_db s)" tx] assms(3) that unfolding holds_def by blast
  ultimately show ?thesis
    using agreesD [OF g] by (intro conjI allI impI)
qed

lemma failedE:
  assumes "case m of Some (Inl e, s') \<Rightarrow> P e | _ \<Rightarrow> False"
  obtains e s' where "m = Some (Inl e, s')" "P e"
proof (cases m)
  case (Some x)
  then show thesis
    using assms that by (cases x; cases "fst x") auto
qed (use assms in simp)

lemma rejection_runs:
  "case unRegisterValidateCb sample_chain (sample_call [2] []) sample_state of
     Some (Inl e, s1) \<Rightarrow> e = ErrNotCandidate | _ \<Rightarrow> False"
  by code_simp

text \<open>Account \<open>[2]\<close> is no candidate and cannot give up a candidacy.\<close>

theorem validation_agrees_witness:
  "\<exists>s1. unRegisterValidateCb sample_chain (sample_call [2] []) sample_state = Some (Inl ErrNotCandidate, s1) \<and>
     unRegisterApplyCb sample_chain (sample_call [2] []) sample_state = Some (Inl ErrNotCandidate, s1) \<and>
     ledger (ds_db s1) = ledger (ds_db sample_state)"
proof -
  obtain s1 where s1: "unRegisterValidateCb sample_chain (sample_call [2] []) sample_state = Some (Inl ErrNotCandidate, s1)"
    using rejection_runs by (rule failedE) simp
  have v: "GetValidateCb (validateCbMap sample_contract sample_chain) neatabi_UnRegister =
      Some (NonCrossChainCb (unRegisterValidateCb sample_chain))"
    by (simp add: GetValidateCb_def CbMaps validate_callbacks)
  have a: "GetApplyCb (applyCbMap sample_contract sample_chain) neatabi_UnRegister =
      Some (NonCrossChainCb (unRegisterApplyCb sample_chain))"
    by (simp add: GetApplyCb_def CbMaps applyCbs_def neatabi_defs)
  note validation_agrees [OF v a sample_state_sound(1), of "sample_call [2] []"]
  then show ?thesis
    using s1 by (intro exI [of _ s1] conjI) simp_all
qed

end
