(* ===== verification/Transactions.thy ===== *)
theory Transactions
  imports DelegationBooks
begin

section \<open>Applying transactions\<close>

text \<open>
  How a block applies a transaction: the calls of the chain contract
  (\<open>core/state_processor1.go\<close>) and the messages to the virtual machine
  (\<open>core/state_transition.go\<close>, \<open>core/state_transition1.go\<close>), with the gas bought, used and
  returned.  Whether a sender can be recovered from the signature, the selectors of the contract's
  interface, the hash of the state trie, the bloom filter of the logs and the execution of byte code are parameters.
\<close>

subsection \<open>Chain configuration\<close>

record ChainConfig =
  NeatChainId :: string
  HomesteadBlock :: "int option"
  EIP158Block :: "int option"
  ByzantiumBlock :: "int option"

definition isForked :: "int option \<Rightarrow> int \<Rightarrow> bool" where
  "isForked s head = (case s of None \<Rightarrow> False | Some b \<Rightarrow> b \<le> head)"

definition IsHomestead :: "ChainConfig \<Rightarrow> int \<Rightarrow> bool" where
  "IsHomestead c num = isForked (HomesteadBlock c) num"

definition IsEIP158 :: "ChainConfig \<Rightarrow> int \<Rightarrow> bool" where
  "IsEIP158 c num = isForked (EIP158Block c) num"

definition IsByzantium :: "ChainConfig \<Rightarrow> int \<Rightarrow> bool" where
  "IsByzantium c num = isForked (ByzantiumBlock c) num"

definition IsMainChain :: "ChainConfig \<Rightarrow> bool" where
  "IsMainChain c \<longleftrightarrow> NeatChainId c = ''neatio'' \<or> NeatChainId c = ''testnet''"

subsection \<open>Messages, receipts and errors\<close>

text \<open>A transaction as a message; the sender it names is the recovered one when recovery succeeds.\<close>

record message =
  msg_tx :: transaction
  msg_Nonce :: uint64
  msg_Gas :: uint64
  msg_GasPrice :: int
  msg_To :: "address option"
  msg_CheckNonce :: bool

record receipt =
  PostState :: "bytes option"
  rc_Status :: uint64
  CumulativeGasUsed :: uint64
  rc_Bloom :: bytes
  rc_Logs :: "log_entry list"
  rc_TxHash :: hash
  ContractAddress :: "address option"
  rc_GasUsed :: uint64
  rc_BlockHash :: hash
  rc_BlockNumber :: int
  TransactionIndex :: int

definition NewReceipt :: "bytes option \<Rightarrow> bool \<Rightarrow> uint64 \<Rightarrow> receipt" where
  "NewReceipt root failed cumulativeGasUsed =
     \<lparr>PostState = root, rc_Status = (if failed then 0 else 1), CumulativeGasUsed = cumulativeGasUsed, rc_Bloom = [],
      rc_Logs = [], rc_TxHash = zero_hash, ContractAddress = None, rc_GasUsed = 0, rc_BlockHash = zero_hash,
      rc_BlockNumber = 0, TransactionIndex = 0\<rparr>"

datatype tx_error =
  ErrMethodId | ErrNotAllowedInMainChain | ErrNotAllowedInSideChain | ErrNonceTooHigh | ErrNonceTooLow
| ErrInsufficientForGas int int | ErrInsufficientForAmount int int | GasError gas_error | ContractError api_error
| ErrInsufficientBalanceForGas | ErrInsufficientBalance | ErrInvalidSender

text \<open>
  What a transaction changes: the state of the callbacks, the gas pool of the block, the gas used
  so far and the fees collected so far.
\<close>

record tx_state =
  ts_state :: dstate
  ts_gp :: gas_pool
  ts_usedGas :: uint64
  ts_totalUsedMoney :: int

text \<open>
  The parameters: whether the signer of the configuration at a block number recovers a sender,
  method selectors, trie hash and bloom filter.
\<close>

record tx_ext =
  Sender_ok :: "ChainConfig \<Rightarrow> int \<Rightarrow> message \<Rightarrow> bool"
  MethodById :: "bytes \<Rightarrow> string option"
  trie_root :: "state_trie \<Rightarrow> bytes"
  CreateBloom :: "log_entry list \<Rightarrow> bytes"

definition upd_db :: "(statedb \<Rightarrow> statedb) \<Rightarrow> tx_state \<Rightarrow> tx_state" where
  "upd_db f st = st\<lparr>ts_state := (ts_state st)\<lparr>ds_db := f (ds_db (ts_state st))\<rparr>\<rparr>"

definition read_db :: "(statedb \<Rightarrow> 'a \<times> statedb) \<Rightarrow> tx_state \<Rightarrow> 'a \<times> tx_state" where
  "read_db r st = (let (x, db1) = r (ds_db (ts_state st)) in (x, upd_db (\<lambda>_. db1) st))"

definition gas_value :: "uint64 \<Rightarrow> int \<Rightarrow> int" where
  "gas_value gas price = uint gas * price"

subsection \<open>Calls of the chain contract\<close>

text \<open>
  The callback of a function: a function without one does nothing, and a callback of the wrong
  type is a panic.
\<close>

definition run_callback ::
  "contract_ext \<Rightarrow> chain \<Rightarrow> FunctionType \<Rightarrow> transaction \<Rightarrow> dstate \<Rightarrow> ((api_error + unit) \<times> dstate) option" where
  "run_callback X C function tx s =
     (case GetApplyCb (applyCbMap X C :: (contract_cb, contract_cb) registry) function of
        None \<Rightarrow> Some (Inr (), s)
      | Some applyCb \<Rightarrow>
          if IsCrossChainType function
          then (case applyCb of CrossChainCb fn \<Rightarrow> fn tx s | NonCrossChainCb _ \<Rightarrow> None)
          else (case applyCb of NonCrossChainCb fn \<Rightarrow> fn tx s | CrossChainCb _ \<Rightarrow> None))"

definition check_nonce :: "message \<Rightarrow> tx_state \<Rightarrow> (tx_error + unit) \<times> tx_state" where
  "check_nonce msg st =
     (if \<not> msg_CheckNonce msg then (Inr (), st)
      else let (nonce, st1) = read_db (GetNonce (tx_from (msg_tx msg))) st in
           if nonce < msg_Nonce msg then (Inl ErrNonceTooHigh, st1)
           else if nonce > msg_Nonce msg then (Inl ErrNonceTooLow, st1)
           else (Inr (), st1))"

definition use_contract ::
  "contract_ext \<Rightarrow> chain \<Rightarrow> FunctionType \<Rightarrow> message \<Rightarrow> tx_state \<Rightarrow> ((tx_error + uint64) \<times> tx_state) option" where
  "use_contract X C function msg st =
     (let tx = msg_tx msg; frm = tx_from tx; gas = RequiredGas function in
      if msg_Gas msg < gas then Some (Inl (GasError ErrOutOfGas), st)
      else
        let (balance, st1) = read_db (GetBalance frm) st in
        if balance < tx_value tx
        then Some (Inl (ErrInsufficientForAmount (tx_value tx) (fst (read_db (GetBalance frm) st1))), st1)
        else
          case run_callback X C function tx (ts_state st1) of
            None \<Rightarrow> None
          | Some (Inl e, s) \<Rightarrow> Some (Inl (ContractError e), st1\<lparr>ts_state := s\<rparr>)
          | Some (Inr _, s) \<Rightarrow>
              let remainingGas = msg_Gas msg - gas;
                  st2 = upd_db (AddBalance frm (gas_value remainingGas (msg_GasPrice msg))) (st1\<lparr>ts_state := s\<rparr>)
              in case AddGas remainingGas (ts_gp st2) of
                   None \<Rightarrow> None
                 | Some gp \<Rightarrow>
                     Some (Inr gas, st2\<lparr>ts_gp := gp, ts_usedGas := ts_usedGas st2 + gas,
                                        ts_totalUsedMoney := ts_totalUsedMoney st2 + gas_value gas (msg_GasPrice msg)\<rparr>))"

definition contract_call ::
  "tx_ext \<Rightarrow> contract_ext \<Rightarrow> chain \<Rightarrow> ChainConfig \<Rightarrow> message \<Rightarrow> tx_state \<Rightarrow> ((tx_error + uint64) \<times> tx_state) option" where
  "contract_call P X C config msg st =
     (let tx = msg_tx msg; data = tx_data tx; frm = tx_from tx in
      if length data < 4 then None
      else
        case FunctionTypeFromId (MethodById P) (take 4 data) of
          None \<Rightarrow> Some (Inl ErrMethodId, st)
        | Some function \<Rightarrow>
            if IsMainChain config \<and> \<not> AllowInMainChain function then Some (Inl ErrNotAllowedInMainChain, st)
            else if \<not> IsMainChain config \<and> \<not> AllowInSideChain function then Some (Inl ErrNotAllowedInSideChain, st)
            else
              case check_nonce msg st of
                (Inl e, st1) \<Rightarrow> Some (Inl e, st1)
              | (Inr _, st1) \<Rightarrow>
                  let gasValue = gas_value (msg_Gas msg) (msg_GasPrice msg);
                      (balance, st2) = read_db (GetBalance frm) st1
                  in if balance < gasValue
                     then Some (Inl (ErrInsufficientForGas gasValue (fst (read_db (GetBalance frm) st2))), st2)
                     else case SubGas (msg_Gas msg) (ts_gp st2) of
                            Inl e \<Rightarrow> Some (Inl (GasError e), st2)
                          | Inr gp \<Rightarrow>
                              use_contract X C function msg (upd_db (SubBalance frm gasValue) (st2\<lparr>ts_gp := gp\<rparr>)))"

text \<open>
  The rest of the contract branch, after \<open>contract_call\<close>, which is its part up to the fees: the state is finalised, the receipt written, and only then the
  sender's nonce raised.  Without the Byzantium rules the root of the trie goes into the receipt.
\<close>

definition finalise_tx :: "tx_ext \<Rightarrow> ChainConfig \<Rightarrow> int \<Rightarrow> bool \<Rightarrow> tx_state \<Rightarrow> (bytes option \<times> tx_state) option" where
  "finalise_tx P config number deleteEmpty st =
     (if IsByzantium config number
      then map_option (\<lambda>db. (None, upd_db (\<lambda>_. db) st)) (Finalise True (ds_db (ts_state st)))
      else map_option (\<lambda>db. (Some (trie_root P (trie_of db)), upd_db (\<lambda>_. db) st))
             (Finalise deleteEmpty (ds_db (ts_state st))))"

definition make_receipt ::
  "tx_ext \<Rightarrow> int \<Rightarrow> transaction \<Rightarrow> bytes option \<Rightarrow> bool \<Rightarrow> uint64 \<Rightarrow> address option \<Rightarrow> tx_state \<Rightarrow> receipt" where
  "make_receipt P number tx root failed gas created st =
     (let db = ds_db (ts_state st);
          logs = (case logs db (tx_hash tx) of None \<Rightarrow> [] | Some ls \<Rightarrow> ls) in
      (NewReceipt root failed (ts_usedGas st))\<lparr>rc_TxHash := tx_hash tx, rc_GasUsed := gas, ContractAddress := created,
         rc_Logs := logs, rc_Bloom := CreateBloom P logs, rc_BlockHash := bhash db, rc_BlockNumber := number,
         TransactionIndex := txIndex db\<rparr>)"

definition apply_contract_tx ::
  "tx_ext \<Rightarrow> contract_ext \<Rightarrow> chain \<Rightarrow> ChainConfig \<Rightarrow> int \<Rightarrow> message \<Rightarrow> tx_state \<Rightarrow>
   ((tx_error + receipt) \<times> tx_state) option" where
  "apply_contract_tx P X C config number msg st =
     (case contract_call P X C config msg st of
        None \<Rightarrow> None
      | Some (Inl e, st1) \<Rightarrow> Some (Inl e, st1)
      | Some (Inr gas, st1) \<Rightarrow>
          (case finalise_tx P config number (IsEIP158 config number) st1 of
             None \<Rightarrow> None
           | Some (root, st2) \<Rightarrow>
               let frm = tx_from (msg_tx msg);
                   rcpt = make_receipt P number (msg_tx msg) root False gas None st2;
                   (nonce, st3) = read_db (GetNonce frm) st2
               in Some (Inr rcpt, upd_db (SetNonce frm (nonce + 1)) st3)))"

subsection \<open>Messages to the virtual machine\<close>

text \<open>
  Running byte code is a parameter: it turns the gas it is given and the state into output, the gas left, an
  error and a new state.
\<close>

datatype vm_error = VMInsufficientBalance | VMError string

type_synonym vm_result = "bytes \<times> uint64 \<times> vm_error option"

record evm =
  evm_Create :: "address \<Rightarrow> bytes \<Rightarrow> uint64 \<Rightarrow> int \<Rightarrow> statedb \<Rightarrow> vm_result \<times> statedb"
  evm_Call :: "address \<Rightarrow> address \<Rightarrow> bytes \<Rightarrow> uint64 \<Rightarrow> int \<Rightarrow> statedb \<Rightarrow> vm_result \<times> statedb"
  CreateAddress :: "address \<Rightarrow> uint64 \<Rightarrow> address"

text \<open>Sender and recipient are created when they do not exist.\<close>

definition ensure_account :: "address \<Rightarrow> tx_state \<Rightarrow> tx_state" where
  "ensure_account a st =
     (let (exists, st1) = read_db (Exist a) st in if exists then st1 else upd_db (CreateAccount a) st1)"

definition useGas :: "uint64 \<Rightarrow> uint64 \<Rightarrow> gas_error + uint64" where
  "useGas amount gas = (if gas < amount then Inl ErrOutOfGas else Inr (gas - amount))"

definition buyGas :: "message \<Rightarrow> tx_state \<Rightarrow> (tx_error + uint64) \<times> tx_state" where
  "buyGas msg st =
     (let sender = tx_from (msg_tx msg);
          st1 = ensure_account sender st;
          mgval = gas_value (msg_Gas msg) (msg_GasPrice msg);
          (balance, st2) = read_db (GetBalance sender) st1
      in if balance < mgval then (Inl ErrInsufficientBalanceForGas, st2)
         else case SubGas (msg_Gas msg) (ts_gp st2) of
                Inl e \<Rightarrow> (Inl (GasError e), st2)
              | Inr gp \<Rightarrow> (Inr (msg_Gas msg), upd_db (SubBalance sender mgval) (st2\<lparr>ts_gp := gp\<rparr>)))"

definition preCheck :: "message \<Rightarrow> tx_state \<Rightarrow> (tx_error + uint64) \<times> tx_state" where
  "preCheck msg st =
     (case check_nonce msg (ensure_account (tx_from (msg_tx msg)) st) of
        (Inl e, st1) \<Rightarrow> (Inl e, st1)
      | (Inr _, st1) \<Rightarrow> buyGas msg st1)"

text \<open>The gas left after the refund, which is capped to half of the used gas.\<close>

definition refund_amount :: "uint64 \<Rightarrow> uint64 \<Rightarrow> uint64 \<Rightarrow> uint64" where
  "refund_amount initialGas gas counter =
     (let refund = (initialGas - gas) div 2 in if refund > counter then counter else refund)"

definition refundGas :: "message \<Rightarrow> uint64 \<Rightarrow> uint64 \<Rightarrow> tx_state \<Rightarrow> (uint64 \<times> tx_state) option" where
  "refundGas msg initialGas gas st =
     (let gas1 = gas + refund_amount initialGas gas (sdb_refund (ds_db (ts_state st)));
          sender = tx_from (msg_tx msg);
          st1 = upd_db (AddBalance sender (gas_value gas1 (msg_GasPrice msg))) (ensure_account sender st)
      in map_option (\<lambda>gp. (gas1, st1\<lparr>ts_gp := gp\<rparr>)) (AddGas gas1 (ts_gp st1)))"

definition run_vm :: "evm \<Rightarrow> message \<Rightarrow> uint64 \<Rightarrow> tx_state \<Rightarrow> vm_result \<times> tx_state" where
  "run_vm V msg gas st =
     (let tx = msg_tx msg; sender = tx_from tx in
      case msg_To msg of
        None \<Rightarrow>
          let (r, db1) = evm_Create V sender (tx_data tx) gas (tx_value tx) (ds_db (ts_state st))
          in (r, upd_db (\<lambda>_. db1) st)
      | Some recipient \<Rightarrow>
          let (nonce, st1) = read_db (GetNonce sender) st;
              st2 = ensure_account recipient (upd_db (SetNonce sender (nonce + 1)) st1);
              (r, db1) = evm_Call V sender recipient (tx_data tx) gas (tx_value tx) (ds_db (ts_state st2))
          in (r, upd_db (\<lambda>_. db1) st2))"

text \<open>The outcome is the output, the gas used, the fee and whether the byte code failed.\<close>

definition TransitionDbEx ::
  "evm \<Rightarrow> ChainConfig \<Rightarrow> int \<Rightarrow> message \<Rightarrow> tx_state \<Rightarrow>
   ((tx_error + bytes \<times> uint64 \<times> int \<times> bool) \<times> tx_state) option" where
  "TransitionDbEx V config number msg st =
     (case preCheck msg st of
        (Inl e, st1) \<Rightarrow> Some (Inl e, st1)
      | (Inr initialGas, st1) \<Rightarrow>
          let st2 = ensure_account (tx_from (msg_tx msg)) st1 in
          case IntrinsicGas (tx_data (msg_tx msg)) (msg_To msg = None) (IsHomestead config number) of
            Inl e \<Rightarrow> Some (Inl (GasError e), st2)
          | Inr intrinsic \<Rightarrow>
              (case useGas intrinsic initialGas of
                 Inl e \<Rightarrow> Some (Inl (GasError e), st2)
               | Inr gas \<Rightarrow>
                   let ((ret, gas1, vmerr), st3) = run_vm V msg gas st2 in
                   if vmerr = Some VMInsufficientBalance then Some (Inl ErrInsufficientBalance, st3)
                   else
                     (case refundGas msg initialGas gas1 st3 of
                        None \<Rightarrow> None
                      | Some (gas2, st4) \<Rightarrow>
                          let gasUsed = initialGas - gas2 in
                          Some (Inr (ret, gasUsed, gas_value gasUsed (msg_GasPrice msg), vmerr \<noteq> None), st4))))"

definition apply_vm_tx ::
  "tx_ext \<Rightarrow> evm \<Rightarrow> ChainConfig \<Rightarrow> int \<Rightarrow> message \<Rightarrow> tx_state \<Rightarrow> ((tx_error + receipt) \<times> tx_state) option" where
  "apply_vm_tx P V config number msg st =
     (case TransitionDbEx V config number msg st of
        None \<Rightarrow> None
      | Some (Inl e, st1) \<Rightarrow> Some (Inl e, st1)
      | Some (Inr (_, gas, money, failed), st1) \<Rightarrow>
          (case finalise_tx P config number False st1 of
             None \<Rightarrow> None
           | Some (root, st2) \<Rightarrow>
               let st3 = st2\<lparr>ts_usedGas := ts_usedGas st2 + gas, ts_totalUsedMoney := ts_totalUsedMoney st2 + money\<rparr>;
                   created = (if msg_To msg = None then Some (CreateAddress V (tx_from (msg_tx msg)) (msg_Nonce msg)) else None)
               in Some (Inr (make_receipt P number (msg_tx msg) root failed gas created st3), st3)))"

subsection \<open>Transactions and blocks\<close>

definition ChainContractMagicAddr :: address where
  "ChainContractMagicAddr = BytesToAddress (text_bytes ''NEATFFFFFFFFFFFFFFFFFFFFFFFFFFFF'')"

definition IsNeatChainContractAddr :: "address option \<Rightarrow> bool" where
  "IsNeatChainContractAddr addr \<longleftrightarrow> addr = Some ChainContractMagicAddr"

definition ApplyTransactionEx ::
  "tx_ext \<Rightarrow> evm \<Rightarrow> contract_ext \<Rightarrow> chain \<Rightarrow> ChainConfig \<Rightarrow> int \<Rightarrow> message \<Rightarrow> tx_state \<Rightarrow>
   ((tx_error + receipt) \<times> tx_state) option" where
  "ApplyTransactionEx P V X C config number msg st =
     (if \<not> Sender_ok P config number msg then Some (Inl ErrInvalidSender, st)
      else if \<not> IsNeatChainContractAddr (msg_To msg) then apply_vm_tx P V config number msg st
      else apply_contract_tx P X C config number msg st)"

definition Prepare :: "hash \<Rightarrow> hash \<Rightarrow> int \<Rightarrow> statedb \<Rightarrow> statedb" where
  "Prepare th bh ti db = db\<lparr>thash := th, bhash := bh, txIndex := ti\<rparr>"

text \<open>The loop of \<open>Process\<close>: the first error ends it.\<close>

fun process_txs ::
  "tx_ext \<Rightarrow> evm \<Rightarrow> contract_ext \<Rightarrow> chain \<Rightarrow> ChainConfig \<Rightarrow> int \<Rightarrow> hash \<Rightarrow> int \<Rightarrow> message list \<Rightarrow> tx_state \<Rightarrow>
   ((tx_error + receipt list) \<times> tx_state) option" where
  "process_txs P V X C config number blockHash i [] st = Some (Inr [], st)"
| "process_txs P V X C config number blockHash i (msg # msgs) st =
     (case ApplyTransactionEx P V X C config number msg (upd_db (Prepare (tx_hash (msg_tx msg)) blockHash i) st) of
        None \<Rightarrow> None
      | Some (Inl e, st1) \<Rightarrow> Some (Inl e, st1)
      | Some (Inr rcpt, st1) \<Rightarrow>
          (case process_txs P V X C config number blockHash (i + 1) msgs st1 of
             Some (Inr rcpts, st2) \<Rightarrow> Some (Inr (rcpt # rcpts), st2)
           | other \<Rightarrow> other))"

text \<open>The engine's part at the end of a block is a parameter.\<close>

definition Process ::
  "tx_ext \<Rightarrow> evm \<Rightarrow> contract_ext \<Rightarrow> chain \<Rightarrow> ChainConfig \<Rightarrow>
   (receipt list \<Rightarrow> int \<Rightarrow> dstate \<Rightarrow> ((tx_error + unit) \<times> dstate) option) \<Rightarrow>
   int \<Rightarrow> uint64 \<Rightarrow> hash \<Rightarrow> message list \<Rightarrow> dstate \<Rightarrow>
   ((tx_error + receipt list \<times> log_entry list \<times> uint64 \<times> pending_op list) \<times> tx_state) option" where
  "Process P V X C config engine_Finalize number gasLimit blockHash msgs s =
     (case AddGas gasLimit 0 of
        None \<Rightarrow> None
      | Some gp \<Rightarrow>
          (case process_txs P V X C config number blockHash 0 msgs
                  \<lparr>ts_state = s\<lparr>ds_ops := []\<rparr>, ts_gp = gp, ts_usedGas = 0, ts_totalUsedMoney = 0\<rparr> of
             None \<Rightarrow> None
           | Some (Inl e, st) \<Rightarrow> Some (Inl e, st)
           | Some (Inr receipts, st) \<Rightarrow>
               (case engine_Finalize receipts (ts_totalUsedMoney st) (ts_state st) of
                  None \<Rightarrow> None
                | Some (Inl e, s1) \<Rightarrow> Some (Inl e, st\<lparr>ts_state := s1\<rparr>)
                | Some (Inr _, s1) \<Rightarrow>
                    Some (Inr (receipts, concat (map rc_Logs receipts), ts_usedGas st, ds_ops s1), st\<lparr>ts_state := s1\<rparr>))))"

subsection \<open>Accounting\<close>

abbreviation tx_db :: "tx_state \<Rightarrow> statedb" where
  "tx_db st \<equiv> ds_db (ts_state st)"

abbreviation tx_ledger :: "tx_state \<Rightarrow> ledger" where
  "tx_ledger st \<equiv> ledger (tx_db st)"

text \<open>An account has paid an amount, and the pool and the counters are as before.\<close>

definition paid :: "address \<Rightarrow> int \<Rightarrow> tx_state \<Rightarrow> tx_state \<Rightarrow> bool" where
  "paid a x st st' \<longleftrightarrow> sound (tx_db st') \<and> moved (at a (- x)) (\<lambda>_. 0) (tx_ledger st) (tx_ledger st') \<and>
     ts_gp st' = ts_gp st \<and> ts_usedGas st' = ts_usedGas st \<and> ts_totalUsedMoney st' = ts_totalUsedMoney st"

lemma at_zero: "at a 0 = (\<lambda>_. 0)"
  by (simp add: at_def fun_eq_iff)

lemma paid_trans: "paid a x st st1 \<Longrightarrow> paid a y st1 st2 \<Longrightarrow> z = x + y \<Longrightarrow> paid a z st st2"
  unfolding paid_def by (auto intro: moved_trans simp: at_def fun_eq_iff)

lemma paid_refl: "sound (tx_db st) \<Longrightarrow> paid a 0 st st"
  by (simp add: paid_def at_zero moved_refl)

lemma tx_state_simps [simp]:
  "tx_db (upd_db f st) = f (tx_db st)" "ts_gp (upd_db f st) = ts_gp st" "ts_usedGas (upd_db f st) = ts_usedGas st"
  "ts_totalUsedMoney (upd_db f st) = ts_totalUsedMoney st"
  by (simp_all add: upd_db_def)

lemma paid_refines:
  assumes "sound (tx_db st)" "refines D G" "\<And>L. moved (at a (- x)) (\<lambda>_. 0) L (G L)"
  shows "paid a x st (upd_db D st)"
proof -
  have c: "caches_ok (tx_db st)"
    using assms(1) by (simp add: sound_def)
  have "la_trie (G L b) = la_trie (L b)" for L b
    using assms(3) by (simp add: moved_def)
  then show ?thesis
    using refinesD(1,2) [OF assms(2) c] assms(1,3) by (simp add: paid_def sound_def)
qed

lemma paid_balance:
  assumes "sound (tx_db st)"
  shows "paid a x st (upd_db (SubBalance a x) st)" "paid a (- x) st (upd_db (AddBalance a x) st)"
  using paid_refines [OF assms refines_account(2) moved_fields(1)] paid_refines [OF assms refines_account(1), of a "- x"] moved_fields(1)
  by simp_all

lemma paid_read:
  assumes "sound (tx_db st)"
  shows "paid a 0 st (snd (read_db (read_object b f d) st))"
  using paid_refines [OF assms refines_read_object, of a 0 b f d] moved_refl
  by (simp add: read_db_def split_beta at_zero upd_db_def)

lemmas tx_reads = paid_read [of _ _ _ "\<lambda>s. Balance (so_data s)" 0, folded GetBalance_def]
  paid_read [of _ _ _ "\<lambda>s. Nonce (so_data s)" 0, folded GetNonce_def]

lemma paid_sound: "paid a x st st' \<Longrightarrow> sound (tx_db st')"
  by (simp add: paid_def)

lemma registered_type: "GetApplyCb (applyCbMap X C) f = Some cb \<Longrightarrow> \<exists>fn. cb = NonCrossChainCb fn \<and> \<not> IsCrossChainType f"
  by (auto simp: GetApplyCb_def CbMaps applyCbs_def IsCrossChainType_def neatabi_defs split: if_splits)

lemma paid_callback:
  assumes "runtime_ok (bc_runtime C)" "sound (tx_db st)" "run_callback X C f tx (ts_state st) = Some (r, s)"
  shows "paid a 0 st (st\<lparr>ts_state := s\<rparr>)"
proof (cases "GetApplyCb (applyCbMap X C :: (contract_cb, contract_cb) registry) f")
  case None
  then show ?thesis
    using assms(2,3) by (simp add: run_callback_def paid_def at_zero moved_refl)
next
  case (Some cb)
  then obtain fn where fn: "cb = NonCrossChainCb fn" "\<not> IsCrossChainType f"
    using registered_type by blast
  have "fn tx (ts_state st) = Some (r, s)"
    using assms(3) Some fn by (simp add: run_callback_def)
  then have "sound (ds_db s) \<and> kept (tx_ledger st) (ledger (ds_db s))"
    using accounts.callback_rel [OF assms(1) Some [unfolded fn(1)]] kept_moves(2) assms(2) by (auto simp: holds_def)
  then show ?thesis
    by (simp add: paid_def at_zero)
qed

lemma gas_value_diff:
  assumes "\<not> limit < gas"
  shows "gas_value limit p = gas_value gas p + gas_value (limit - gas) p"
proof -
  have "gas \<le> limit" using assms by simp
  then have "unat limit = unat gas + unat (limit - gas)"
    by (simp add: unat_sub word_le_nat_alt)
  then have "uint limit = uint gas + uint (limit - gas)"
    by (metis of_nat_add int_nat_eq uint_nat)
  then show ?thesis
    unfolding gas_value_def by (simp only: distrib_right)
qed

lemma check_nonce_paid: "sound (tx_db st) \<Longrightarrow> paid a 0 st (snd (check_nonce msg st))"
  using tx_reads(2) [of st a] by (simp add: check_nonce_def paid_refl split_beta Let_def)

text \<open>After the gas has been bought: a failure keeps it, a success returns the rest to sender and pool.\<close>

lemma use_contract_accounts:
  assumes "runtime_ok (bc_runtime C)" "sound (tx_db st)" "use_contract X C f msg st = Some (r, st')"
  shows "case r of
      Inl e \<Rightarrow> paid a 0 st st'
    | Inr gas \<Rightarrow> gas = RequiredGas f \<and> \<not> msg_Gas msg < gas \<and>
        AddGas (msg_Gas msg - gas) (ts_gp st) = Some (ts_gp st') \<and> ts_usedGas st' = ts_usedGas st + gas \<and>
        ts_totalUsedMoney st' = ts_totalUsedMoney st + gas_value gas (msg_GasPrice msg) \<and>
        moved (at (tx_from (msg_tx msg)) (gas_value (msg_Gas msg - gas) (msg_GasPrice msg))) (\<lambda>_. 0)
          (tx_ledger st) (tx_ledger st') \<and> sound (tx_db st')"
proof -
  let ?f = "tx_from (msg_tx msg)" and ?v = "gas_value (msg_Gas msg - RequiredGas f) (msg_GasPrice msg)"
  let ?st1 = "snd (read_db (GetBalance ?f) st)"
  have r1: "paid b 0 st ?st1" for b
    by (rule tx_reads(1) [OF assms(2)])
  have cb: "paid b 0 st (?st1\<lparr>ts_state := s\<rparr>)" if "run_callback X C f (msg_tx msg) (ts_state ?st1) = Some (q, s)" for b q s
    using paid_trans [OF r1 paid_callback [OF assms(1) paid_sound [OF r1] that]] by simp
  have ok: "paid ?f (- ?v) st (upd_db (AddBalance ?f ?v) (?st1\<lparr>ts_state := s\<rparr>))"
    if "run_callback X C f (msg_tx msg) (ts_state ?st1) = Some (q, s)" for q s
    using paid_trans [OF cb [OF that] paid_balance(2) [OF paid_sound [OF cb [OF that]]]] by simp
  show ?thesis
    using assms(2,3) r1 cb ok
    by (auto simp: use_contract_def Let_def split_beta paid_def at_zero moved_refl split: if_splits option.splits sum.splits)
qed

text \<open>A call that buys its gas, or one that ends before.\<close>

definition bought :: "message \<Rightarrow> tx_state \<Rightarrow> tx_state \<Rightarrow> bool" where
  "bought msg st st1 \<longleftrightarrow> sound (tx_db st1) \<and>
     moved (at (tx_from (msg_tx msg)) (- gas_value (msg_Gas msg) (msg_GasPrice msg))) (\<lambda>_. 0) (tx_ledger st) (tx_ledger st1) \<and>
     ts_usedGas st1 = ts_usedGas st \<and> ts_totalUsedMoney st1 = ts_totalUsedMoney st \<and>
     unat (ts_gp st) = unat (ts_gp st1) + unat (msg_Gas msg)"

lemma gas_bought:
  assumes "sound (tx_db st)" "SubGas (msg_Gas msg) (ts_gp (snd (read_db (GetBalance b) (snd (check_nonce msg st))))) = Inr gp"
  shows "bought msg st (upd_db (SubBalance (tx_from (msg_tx msg)) (gas_value (msg_Gas msg) (msg_GasPrice msg)))
    (snd (read_db (GetBalance b) (snd (check_nonce msg st)))\<lparr>ts_gp := gp\<rparr>))"
proof -
  let ?f = "tx_from (msg_tx msg)" and ?v = "gas_value (msg_Gas msg) (msg_GasPrice msg)"
  let ?st2 = "snd (read_db (GetBalance b) (snd (check_nonce msg st)))"
  have p1: "paid ?f 0 st (snd (check_nonce msg st))"
    by (rule check_nonce_paid [OF assms(1)])
  have p2: "paid ?f 0 st ?st2"
    using paid_trans [OF p1 tx_reads(1) [OF paid_sound [OF p1]]] by simp
  have "sound (tx_db (?st2\<lparr>ts_gp := gp\<rparr>))"
    using paid_sound [OF p2] by simp
  note p3 = paid_balance(1) [OF this, of ?f ?v]
  have "unat (ts_gp st) = unat gp + unat (msg_Gas msg)"
    using assms(2) p2 by (simp add: SubGas_Inr_iff paid_def)
  then show ?thesis
    using p2 p3 by (auto simp: paid_def at_zero bought_def intro: moved_trans)
qed

lemma contract_call_cases:
  assumes "sound (tx_db st)"
  obtains "length (tx_data (msg_tx msg)) < 4" "contract_call P X C config msg st = None"
  | e st' where "contract_call P X C config msg st = Some (Inl e, st')" "paid (tx_from (msg_tx msg)) 0 st st'"
  | f st1 where "FunctionTypeFromId (MethodById P) (take 4 (tx_data (msg_tx msg))) = Some f" "bought msg st st1"
      "contract_call P X C config msg st = use_contract X C f msg st1"
proof -
  let ?f = "tx_from (msg_tx msg)"
  obtain q st1 where n: "check_nonce msg st = (q, st1)"
    by (cases "check_nonce msg st")
  let ?st2 = "snd (read_db (GetBalance ?f) st1)"
  have p1: "paid ?f 0 st st1"
    using check_nonce_paid [OF assms, of ?f msg] by (simp add: n)
  have p2: "paid ?f 0 st ?st2"
    using paid_trans [OF p1 tx_reads(1) [OF paid_sound [OF p1]]] by simp
  have b: "bought msg st (upd_db (SubBalance ?f (gas_value (msg_Gas msg) (msg_GasPrice msg))) (?st2\<lparr>ts_gp := gp\<rparr>))"
    if "SubGas (msg_Gas msg) (ts_gp ?st2) = Inr gp" for gp
    using gas_bought [OF assms, of msg ?f gp] that by (simp add: n)
  let ?call = "contract_call P X C config msg st"
  have "length (tx_data (msg_tx msg)) < 4 \<or> (\<exists>e. ?call = Some (Inl e, st)) \<or> (\<exists>e. ?call = Some (Inl e, st1)) \<or>
      (\<exists>e. ?call = Some (Inl e, ?st2)) \<or>
      (\<exists>f gp. FunctionTypeFromId (MethodById P) (take 4 (tx_data (msg_tx msg))) = Some f \<and>
        SubGas (msg_Gas msg) (ts_gp ?st2) = Inr gp \<and>
        ?call = use_contract X C f msg (upd_db (SubBalance ?f (gas_value (msg_Gas msg) (msg_GasPrice msg))) (?st2\<lparr>ts_gp := gp\<rparr>)))"
    by (cases q; cases "FunctionTypeFromId (MethodById P) (take 4 (tx_data (msg_tx msg)))"; cases "SubGas (msg_Gas msg) (ts_gp ?st2)")
      (simp_all add: contract_call_def Let_def n split_beta)
  moreover have "?call = None" if "length (tx_data (msg_tx msg)) < 4"
    using that by (simp add: contract_call_def)
  ultimately show thesis
    using that(1) that(2) [OF _ paid_refl [OF assms]] that(2) [OF _ p1] that(2) [OF _ p2] that(3) [OF _ b] by blast
qed

text \<open>
  C7: A call of the chain contract is paid for exactly.  When it succeeds, the function named by the first
  four bytes of the data has used its fixed price: the gas pool of the block has lost that gas and no more, the gas used
  and the collected fees have grown by it, the sender's estate has fallen by the fee and every other
  account's estate is unchanged, so estates and collected fees together stay the same.  When it fails, the counters and
  the collected fees are unchanged; either nothing was taken, or the whole gas limit has been
  taken from the pool and paid by the sender and is not given back.
\<close>
theorem contract_call_accounts:
  assumes "runtime_ok (bc_runtime C)" "sound (ds_db (ts_state st))" "contract_call P X C config msg st = Some (r, st')"
  shows "case r of
      Inr gas \<Rightarrow>
        (\<exists>f. FunctionTypeFromId (MethodById P) (take 4 (tx_data (msg_tx msg))) = Some f \<and> gas = RequiredGas f) \<and>
        unat (ts_gp st) = unat (ts_gp st') + unat gas \<and> ts_usedGas st' = ts_usedGas st + gas \<and>
        ts_totalUsedMoney st' = ts_totalUsedMoney st + gas_value gas (msg_GasPrice msg) \<and>
        (\<forall>a. estate (ledger (ds_db (ts_state st')) a) = estate (ledger (ds_db (ts_state st)) a) -
           (if a = tx_from (msg_tx msg) then gas_value gas (msg_GasPrice msg) else 0))
    | Inl e \<Rightarrow>
        ts_usedGas st' = ts_usedGas st \<and> ts_totalUsedMoney st' = ts_totalUsedMoney st \<and>
        (\<exists>limit \<in> {0, msg_Gas msg}. unat (ts_gp st) = unat (ts_gp st') + unat limit \<and>
           (\<forall>a. estate (ledger (ds_db (ts_state st')) a) = estate (ledger (ds_db (ts_state st)) a) -
              (if a = tx_from (msg_tx msg) then gas_value limit (msg_GasPrice msg) else 0)))"
proof -
  let ?f = "tx_from (msg_tx msg)" and ?v = "gas_value (msg_Gas msg) (msg_GasPrice msg)"
  have est: "estate (tx_ledger st' a) = estate (tx_ledger st a) - (if a = ?f then x else 0)"
    if "moved (at ?f (- x)) (\<lambda>_. 0) (tx_ledger st) (tx_ledger st')" for x a
    using that by (simp add: moved_def at_def)
  show ?thesis
    using assms(2)
  proof (cases rule: contract_call_cases [where msg = msg and P = P and X = X and C = C and config = config])
    case 1
    then show ?thesis
      using assms(3) by simp
  next
    case (2 e st1)
    then show ?thesis
      using assms(3) est [of 0] by (auto simp: paid_def gas_value_def)
  next
    case (3 f st1)
    have f: "use_contract X C f msg st1 = Some (r, st')"
      using 3 assms(3) by simp
    have b: "sound (tx_db st1)" "moved (at ?f (- ?v)) (\<lambda>_. 0) (tx_ledger st) (tx_ledger st1)"
        "ts_usedGas st1 = ts_usedGas st" "ts_totalUsedMoney st1 = ts_totalUsedMoney st"
        "unat (ts_gp st) = unat (ts_gp st1) + unat (msg_Gas msg)"
      using 3(2) by (simp_all add: bought_def)
    note u = use_contract_accounts [OF assms(1) b(1) f, of ?f]
    show ?thesis
    proof (cases r)
      case (Inl e)
      then have m: "moved (at ?f (- ?v)) (\<lambda>_. 0) (tx_ledger st) (tx_ledger st')"
        using u b(2) by (auto simp: paid_def at_zero intro: moved_trans)
      show ?thesis
        using Inl u b(3-5) est [OF m] by (auto simp: paid_def)
    next
      case (Inr gas)
      have g: "gas = RequiredGas f" "\<not> msg_Gas msg < gas" "AddGas (msg_Gas msg - gas) (ts_gp st1) = Some (ts_gp st')"
          "ts_usedGas st' = ts_usedGas st + gas" "ts_totalUsedMoney st' = ts_totalUsedMoney st + gas_value gas (msg_GasPrice msg)"
          "moved (at ?f (gas_value (msg_Gas msg - gas) (msg_GasPrice msg))) (\<lambda>_. 0) (tx_ledger st1) (tx_ledger st')"
        using u [unfolded Inr sum.case] b(3-4) by auto
      have m: "moved (at ?f (- gas_value gas (msg_GasPrice msg))) (\<lambda>_. 0) (tx_ledger st) (tx_ledger st')"
        by (rule moved_trans [OF b(2) g(6)]) (simp_all add: gas_value_diff [OF g(2)] at_def fun_eq_iff)
      have "unat (msg_Gas msg) = unat gas + unat (msg_Gas msg - gas)"
        using g(2) by (simp add: unat_sub word_le_nat_alt not_less)
      then have "unat (ts_gp st) = unat (ts_gp st') + unat gas"
        using g(3) b(5) by (simp add: AddGas_Some_iff)
      then show ?thesis
        using Inr 3(1) g(1,4,5) est [OF m] by simp
    qed
  qed
qed

lemma bought_sound: "bought msg st st1 \<Longrightarrow> sound (tx_db st1)"
  by (simp add: bought_def)

lemma AddGas_returns:
  assumes "bought msg st st1" "\<not> msg_Gas msg < gas"
  shows "AddGas (msg_Gas msg - gas) (ts_gp st1) \<noteq> None"
proof -
  have "SubGas (msg_Gas msg) (ts_gp st) = Inr (ts_gp st1)"
    using assms(1) by (simp add: bought_def SubGas_Inr_iff)
  moreover have "unat (msg_Gas msg - gas) \<le> unat (msg_Gas msg)"
    using assms(2) by (simp add: unat_sub word_le_nat_alt not_less)
  ultimately show ?thesis
    using gas_returned by fastforce
qed

definition sample_selectors :: "string \<Rightarrow> tx_ext" where
  "sample_selectors name = \<lparr>Sender_ok = (\<lambda>_ _ _. True), MethodById = (\<lambda>_. Some name), trie_root = (\<lambda>_. []), CreateBloom = (\<lambda>_. [])\<rparr>"

definition sample_config :: ChainConfig where
  "sample_config = \<lparr>NeatChainId = ''neatio'', HomesteadBlock = Some 0, EIP158Block = Some 0, ByzantiumBlock = Some 0\<rparr>"

definition sample_message :: "address \<Rightarrow> message" where
  "sample_message a = \<lparr>msg_tx = sample_call a [1], msg_Nonce = 0, msg_Gas = 30000, msg_GasPrice = 1, msg_To = None, msg_CheckNonce = True\<rparr>"

definition sample_tx_state :: "address \<Rightarrow> epoch option \<Rightarrow> tx_state" where
  "sample_tx_state a e = \<lparr>ts_state = \<lparr>ds_db = AddBalance a 40000 (NewStateDB sample_stakes), ds_ops = [], ds_epoch = e\<rparr>,
     ts_gp = 50000, ts_usedGas = 0, ts_totalUsedMoney = 0\<rparr>"

lemma succeededE:
  assumes "case m of Some (Inr x, s') \<Rightarrow> P x s' | _ \<Rightarrow> False"
  obtains x s' where "m = Some (Inr x, s')" "P x s'"
proof (cases m)
  case (Some y)
  then show thesis
    using assms that by (cases y; cases "fst y") auto
qed (use assms in simp)

lemma sample_call_runs:
  "case contract_call (sample_selectors ''WithdrawReward'') sample_contract sample_chain sample_config (sample_message [2]) (sample_tx_state [2] (ds_epoch sample_state)) of
     Some (Inr gas, st') \<Rightarrow> gas = 21000 \<and> fst (GetBalance [2] (ds_db (ts_state st'))) = 19024 | _ \<Rightarrow> False"
  by code_simp

lemma sample_tx_sound: "sound (ds_db (ts_state (sample_tx_state a e)))"
proof -
  have c: "caches_ok (NewStateDB sample_stakes)"
    using sample_sound(1) by (simp add: sound_def)
  have "sound (AddBalance a 40000 (NewStateDB sample_stakes))"
    using refinesD(1,2) [OF refines_account(1) c, of a 40000] sample_sound(1) by (simp add: sound_def)
  then show ?thesis
    by (simp add: sample_tx_state_def)
qed

text \<open>A withdrawal with a gas limit of 30000 at price one: the fee is 21000.\<close>

theorem contract_call_accounts_witness:
  "\<exists>st'. contract_call (sample_selectors ''WithdrawReward'') sample_contract sample_chain sample_config (sample_message [2]) (sample_tx_state [2] (ds_epoch sample_state)) =
       Some (Inr 21000, st') \<and> fst (GetBalance [2] (ds_db (ts_state st'))) = 19024 \<and>
     unat (ts_gp (sample_tx_state [2] (ds_epoch sample_state))) = unat (ts_gp st') + unat (21000 :: 64 word) \<and>
     ts_totalUsedMoney st' = ts_totalUsedMoney (sample_tx_state [2] (ds_epoch sample_state)) + gas_value 21000 (msg_GasPrice (sample_message [2]))"
proof -
  obtain gas st' where c: "contract_call (sample_selectors ''WithdrawReward'') sample_contract sample_chain sample_config (sample_message [2]) (sample_tx_state [2] (ds_epoch sample_state)) =
      Some (Inr gas, st')" "gas = 21000 \<and> fst (GetBalance [2] (ds_db (ts_state st'))) = 19024"
    using sample_call_runs by (rule succeededE)
  note contract_call_accounts [OF sample_sound(3) sample_tx_sound c(1), unfolded sum.case]
  then show ?thesis
    using c by (intro exI [of _ st'] conjI) simp_all
qed

text \<open>
  Where a contract call runs its callback: the function that is called and the state it is called in,
  after the gas is bought and the balances are read; nothing when the call ends before.
\<close>

definition callback_point ::
  "tx_ext \<Rightarrow> ChainConfig \<Rightarrow> message \<Rightarrow> tx_state \<Rightarrow> (FunctionType \<times> dstate) option" where
  "callback_point P config msg st =
     (let tx = msg_tx msg; frm = tx_from tx; gasValue = gas_value (msg_Gas msg) (msg_GasPrice msg);
          (nonce, st1) = check_nonce msg st;
          (balance, st2) = read_db (GetBalance frm) st1
      in case (FunctionTypeFromId (MethodById P) (take 4 (tx_data tx)), nonce, SubGas (msg_Gas msg) (ts_gp st2)) of
           (Some f, Inr _, Inr gp) \<Rightarrow>
             let (rest, st3) = read_db (GetBalance frm) (upd_db (SubBalance frm gasValue) (st2\<lparr>ts_gp := gp\<rparr>)) in
             if (if IsMainChain config then AllowInMainChain f else AllowInSideChain f) \<and>
                \<not> balance < gasValue \<and> \<not> msg_Gas msg < RequiredGas f \<and> \<not> rest < tx_value tx
             then Some (f, ts_state st3) else None
         | _ \<Rightarrow> None)"

lemma use_contract_None:
  assumes "bought msg st st1"
  shows "use_contract X C f msg st1 = None \<longleftrightarrow> \<not> msg_Gas msg < RequiredGas f \<and>
    \<not> fst (read_db (GetBalance (tx_from (msg_tx msg))) st1) < tx_value (msg_tx msg) \<and>
    run_callback X C f (msg_tx msg) (ts_state (snd (read_db (GetBalance (tx_from (msg_tx msg))) st1))) = None"
proof -
  let ?st2 = "snd (read_db (GetBalance (tx_from (msg_tx msg))) st1)"
  have "ts_gp ?st2 = ts_gp st1"
    using tx_reads(1) [OF bought_sound [OF assms]] by (simp add: paid_def)
  then have "AddGas (msg_Gas msg - RequiredGas f) (ts_gp ?st2) \<noteq> None" if "\<not> msg_Gas msg < RequiredGas f"
    using AddGas_returns [OF assms that] by simp
  then show ?thesis
    by (cases "msg_Gas msg < RequiredGas f")
      (auto simp: use_contract_def Let_def split_beta split: if_splits option.splits sum.splits)
qed

lemma contract_call_None:
  assumes "sound (tx_db st)"
  shows "contract_call P X C config msg st = None \<longleftrightarrow> length (tx_data (msg_tx msg)) < 4 \<or>
    (\<exists>f s. callback_point P config msg st = Some (f, s) \<and> run_callback X C f (msg_tx msg) s = None)"
proof -
  obtain q st1 where n: "check_nonce msg st = (q, st1)"
    by (cases "check_nonce msg st")
  let ?f = "tx_from (msg_tx msg)"
  let ?st2 = "snd (read_db (GetBalance ?f) st1)"
  have b: "bought msg st (upd_db (SubBalance ?f (gas_value (msg_Gas msg) (msg_GasPrice msg))) (?st2\<lparr>ts_gp := gp\<rparr>))"
    if "SubGas (msg_Gas msg) (ts_gp ?st2) = Inr gp" for gp
    using gas_bought [OF assms, of msg ?f gp] that by (simp add: n)
  show ?thesis
    by (cases q; cases "FunctionTypeFromId (MethodById P) (take 4 (tx_data (msg_tx msg)))";
        cases "SubGas (msg_Gas msg) (ts_gp ?st2)")
      (simp_all add: contract_call_def callback_point_def Let_def n split_beta use_contract_None [OF b])
qed

lemma run_callback_None:
  "run_callback X C f tx s = None \<longleftrightarrow>
    (\<exists>cb. GetApplyCb (applyCbMap X C :: (contract_cb, contract_cb) registry) f = Some (NonCrossChainCb cb) \<and> cb tx s = None)"
  using registered_type [of X C f] by (fastforce simp: run_callback_def split: option.splits)

text \<open>
  C40: Exactly when the contract branch of a transaction panics: the data is shorter than a selector,
  or the callback registered for the called function panics in the very state the branch runs it in,
  or the call succeeds and \<open>Finalise\<close> panics on the state it leaves.  So the branch does not get stuck
  on its own machinery: every registered callback has the type its function's class calls for, the type
  assertion never fails, and the gas that is returned never pushes the pool above its maximum.
\<close>
theorem contract_branch_panics_iff:
  assumes "sound (ds_db (ts_state st))"
  shows "apply_contract_tx P X C config number msg st = None \<longleftrightarrow>
    length (tx_data (msg_tx msg)) < 4 \<or>
    (\<exists>f cb s. callback_point P config msg st = Some (f, s) \<and>
       GetApplyCb (applyCbMap X C :: (contract_cb, contract_cb) registry) f = Some (NonCrossChainCb cb) \<and>
       cb (msg_tx msg) s = None) \<or>
    (\<exists>gas st1. contract_call P X C config msg st = Some (Inr gas, st1) \<and>
       Finalise (IsByzantium config number \<or> IsEIP158 config number) (ds_db (ts_state st1)) = None)"
proof -
  have fin: "finalise_tx P config number (IsEIP158 config number) st1 = None \<longleftrightarrow>
      Finalise (IsByzantium config number \<or> IsEIP158 config number) (ds_db (ts_state st1)) = None" for st1
    by (simp add: finalise_tx_def)
  have "apply_contract_tx P X C config number msg st = None \<longleftrightarrow>
      contract_call P X C config msg st = None \<or>
      (\<exists>gas st1. contract_call P X C config msg st = Some (Inr gas, st1) \<and>
         finalise_tx P config number (IsEIP158 config number) st1 = None)"
    by (auto simp: apply_contract_tx_def Let_def split_beta split: option.splits sum.splits prod.splits)
  then show ?thesis
    using contract_call_None [OF assms, of P X C config msg] by (auto simp: fin run_callback_None)
qed

lemma sample_panic_runs:
  "case apply_contract_tx (sample_selectors ''UnRegister'') sample_contract sample_chain sample_config 1 (sample_message [1])
     (sample_tx_state [1] None) of None \<Rightarrow> True | Some _ \<Rightarrow> False"
  "case contract_call (sample_selectors ''UnRegister'') sample_contract sample_chain sample_config (sample_message [1])
     (sample_tx_state [1] None) of None \<Rightarrow> True | Some _ \<Rightarrow> False"
  by code_simp+

text \<open>Without an epoch, the lookup of the supernodes panics in the callback of a candidate that gives up.\<close>

theorem contract_branch_panics_iff_witness:
  "apply_contract_tx (sample_selectors ''UnRegister'') sample_contract sample_chain sample_config 1 (sample_message [1])
     (sample_tx_state [1] None) = None \<and>
   (\<exists>f cb s. callback_point (sample_selectors ''UnRegister'') sample_config (sample_message [1]) (sample_tx_state [1] None) = Some (f, s) \<and>
      GetApplyCb (applyCbMap sample_contract sample_chain :: (contract_cb, contract_cb) registry) f = Some (NonCrossChainCb cb) \<and>
      cb (msg_tx (sample_message [1])) s = None)"
proof -
  have c: "apply_contract_tx (sample_selectors ''UnRegister'') sample_contract sample_chain sample_config 1 (sample_message [1])
      (sample_tx_state [1] None) = None"
    "contract_call (sample_selectors ''UnRegister'') sample_contract sample_chain sample_config (sample_message [1])
      (sample_tx_state [1] None) = None"
    using sample_panic_runs by (simp_all split: option.splits)
  have "\<not> length (tx_data (msg_tx (sample_message [1]))) < 4"
    by (simp add: sample_message_def sample_call_def)
  then show ?thesis
    using contract_branch_panics_iff [OF sample_tx_sound, of "sample_selectors ''UnRegister''" sample_contract sample_chain
        sample_config 1 "sample_message [1]" "[1]" None] c by simp
qed

subsection \<open>The gas of a block\<close>

text \<open>Reading and changing accounts leaves the counters alone.\<close>

lemma counters [simp]:
  "ts_gp (snd (read_db r st)) = ts_gp st" "ts_usedGas (snd (read_db r st)) = ts_usedGas st"
  "ts_totalUsedMoney (snd (read_db r st)) = ts_totalUsedMoney st"
  by (simp_all add: read_db_def split_beta)

lemma counters_ensure [simp]:
  "ts_gp (ensure_account a st) = ts_gp st" "ts_usedGas (ensure_account a st) = ts_usedGas st"
  "ts_totalUsedMoney (ensure_account a st) = ts_totalUsedMoney st"
  by (simp_all add: ensure_account_def split_beta Let_def)

lemma counters_nonce [simp]:
  "ts_gp (snd (check_nonce msg st)) = ts_gp st" "ts_usedGas (snd (check_nonce msg st)) = ts_usedGas st"
  "ts_totalUsedMoney (snd (check_nonce msg st)) = ts_totalUsedMoney st"
  by (simp_all add: check_nonce_def split_beta Let_def)

lemma counters_vm [simp]:
  "ts_gp (snd (run_vm V msg gas st)) = ts_gp st" "ts_usedGas (snd (run_vm V msg gas st)) = ts_usedGas st"
  "ts_totalUsedMoney (snd (run_vm V msg gas st)) = ts_totalUsedMoney st"
  by (simp_all add: run_vm_def split_beta Let_def split: option.split)

text \<open>The gas pool has lost an amount; the other counters are as before.\<close>

definition drained :: "nat \<Rightarrow> tx_state \<Rightarrow> tx_state \<Rightarrow> bool" where
  "drained n st st' \<longleftrightarrow> unat (ts_gp st) = unat (ts_gp st') + n \<and> ts_usedGas st' = ts_usedGas st \<and>
     ts_totalUsedMoney st' = ts_totalUsedMoney st"

lemma buyGas_drains: "buyGas msg st = (Inr g, st') \<Longrightarrow> g = msg_Gas msg \<and> drained (unat (msg_Gas msg)) st st'"
  by (auto simp: buyGas_def Let_def split_beta drained_def SubGas_Inr_iff split: if_splits sum.splits)

lemma preCheck_drains:
  assumes "preCheck msg st = (Inr g, st')"
  shows "g = msg_Gas msg \<and> drained (unat (msg_Gas msg)) st st'"
proof -
  let ?n = "check_nonce msg (ensure_account (tx_from (msg_tx msg)) st)"
  have "g = msg_Gas msg \<and> drained (unat (msg_Gas msg)) (snd ?n) st'"
    using assms by (intro buyGas_drains) (auto simp: preCheck_def split_beta split: sum.splits)
  then show ?thesis
    by (simp add: drained_def)
qed

text \<open>Byte code hands back no more gas than it was given.\<close>

definition vm_returns_gas :: "evm \<Rightarrow> bool" where
  "vm_returns_gas V \<longleftrightarrow>
     (\<forall>a data gas v db. fst (snd (fst (evm_Create V a data gas v db))) \<le> gas) \<and>
     (\<forall>a b data gas v db. fst (snd (fst (evm_Call V a b data gas v db))) \<le> gas)"

lemma run_vm_gas: "vm_returns_gas V \<Longrightarrow> fst (snd (fst (run_vm V msg gas st))) \<le> gas"
  by (simp add: run_vm_def vm_returns_gas_def split_beta Let_def split: option.split)

lemma refund_capped:
  assumes "gas \<le> initialGas"
  shows "unat gas + 2 * unat (refund_amount initialGas gas counter) \<le> unat initialGas"
proof -
  have "unat (refund_amount initialGas gas counter) \<le> unat ((initialGas - gas) div 2)"
    by (simp add: refund_amount_def Let_def word_less_nat_alt)
  also have "\<dots> = (unat initialGas - unat gas) div 2"
    using assms by (simp add: unat_div unat_sub)
  finally show ?thesis
    using assms by (simp add: word_le_nat_alt)
qed

lemma TransitionDbEx_gas:
  assumes "vm_returns_gas V" "TransitionDbEx V config number msg st = Some (Inr (ret, used, money, failed), st')"
  shows "drained (unat used) st st' \<and> money = gas_value used (msg_GasPrice msg)"
proof -
  obtain initialGas st1 where p: "preCheck msg st = (Inr initialGas, st1)"
    using assms(2) by (cases "preCheck msg st"; cases "fst (preCheck msg st)") (auto simp: TransitionDbEx_def)
  let ?st2 = "ensure_account (tx_from (msg_tx msg)) st1"
  obtain intrinsic gas gas2 where g: "useGas intrinsic initialGas = Inr gas"
      and r: "refundGas msg initialGas (fst (snd (fst (run_vm V msg gas ?st2)))) (snd (run_vm V msg gas ?st2)) = Some (gas2, st')"
        "used = initialGas - gas2" "money = gas_value used (msg_GasPrice msg)"
    using assms(2) by (auto simp: TransitionDbEx_def p Let_def split_beta split: sum.splits if_splits option.splits)
  let ?r = "run_vm V msg gas ?st2"
  let ?gas1 = "fst (snd (fst ?r))"
  have le: "?gas1 \<le> initialGas"
    using run_vm_gas [OF assms(1), of msg gas ?st2] g
    by (auto simp: useGas_def word_le_nat_alt unat_sub not_less split: if_splits)
  note cap = refund_capped [OF le, of "sdb_refund (ds_db (ts_state (snd ?r)))"]
  have g2: "gas2 = ?gas1 + refund_amount initialGas ?gas1 (sdb_refund (ds_db (ts_state (snd ?r))))"
      "AddGas gas2 (ts_gp st1) = Some (ts_gp st')" "ts_usedGas st' = ts_usedGas st1" "ts_totalUsedMoney st' = ts_totalUsedMoney st1"
    using r(1) by (auto simp: refundGas_def Let_def)
  have u: "unat gas2 \<le> unat initialGas"
    unfolding g2(1) using cap u64_less [of initialGas] by (simp add: unat_word_ariths(1))
  then have "unat used = unat initialGas - unat gas2"
    unfolding r(2) by (simp add: unat_sub word_le_nat_alt)
  then show ?thesis
    using preCheck_drains [OF p] g2(2-4) r(3) u by (simp add: drained_def AddGas_Some_iff)
qed

lemma use_contract_gas:
  assumes "use_contract X C f msg st = Some (Inr gas, st')"
  shows "gas = RequiredGas f \<and> \<not> msg_Gas msg < gas \<and> AddGas (msg_Gas msg - gas) (ts_gp st) = Some (ts_gp st') \<and>
    ts_usedGas st' = ts_usedGas st + gas \<and> ts_totalUsedMoney st' = ts_totalUsedMoney st + gas_value gas (msg_GasPrice msg)"
  using assms by (auto simp: use_contract_def Let_def split_beta split: if_splits option.splits sum.splits)

lemma contract_call_gas:
  assumes "contract_call P X C config msg st = Some (Inr gas, st')"
  shows "unat (ts_gp st) = unat (ts_gp st') + unat gas \<and> ts_usedGas st' = ts_usedGas st + gas \<and>
    ts_totalUsedMoney st' = ts_totalUsedMoney st + gas_value gas (msg_GasPrice msg)"
proof -
  let ?st2 = "snd (read_db (GetBalance (tx_from (msg_tx msg))) (snd (check_nonce msg st)))"
  obtain f gp where c: "SubGas (msg_Gas msg) (ts_gp ?st2) = Inr gp"
      "use_contract X C f msg (upd_db (SubBalance (tx_from (msg_tx msg)) (gas_value (msg_Gas msg) (msg_GasPrice msg)))
         (?st2\<lparr>ts_gp := gp\<rparr>)) = Some (Inr gas, st')"
    using assms by (cases "check_nonce msg st"; cases "fst (check_nonce msg st)")
      (auto simp: contract_call_def Let_def split_beta split: if_splits option.splits sum.splits)
  note u = use_contract_gas [OF c(2)]
  have "\<not> msg_Gas msg < gas"
    using u by blast
  then have "unat (msg_Gas msg) = unat gas + unat (msg_Gas msg - gas)"
    by (simp add: unat_sub word_le_nat_alt not_less)
  then show ?thesis
    using c(1) u by (simp add: SubGas_Inr_iff AddGas_Some_iff)
qed

lemma finalise_counters:
  assumes "finalise_tx P config number b st = Some (root, st')"
  shows "ts_gp st' = ts_gp st" "ts_usedGas st' = ts_usedGas st" "ts_totalUsedMoney st' = ts_totalUsedMoney st"
  using assms by (auto simp: finalise_tx_def split: if_splits)

text \<open>A transaction in either branch: its receipt says what it took from the pool.\<close>

lemma ApplyTransactionEx_gas:
  assumes "vm_returns_gas V" "ApplyTransactionEx P V X C config number msg st = Some (Inr rcpt, st')"
  shows "unat (ts_gp st) = unat (ts_gp st') + unat (rc_GasUsed rcpt) \<and> ts_usedGas st' = ts_usedGas st + rc_GasUsed rcpt \<and>
    ts_totalUsedMoney st' = ts_totalUsedMoney st + gas_value (rc_GasUsed rcpt) (msg_GasPrice msg) \<and>
    CumulativeGasUsed rcpt = ts_usedGas st'"
proof (cases "IsNeatChainContractAddr (msg_To msg)")
  case True
  then have "apply_contract_tx P X C config number msg st = Some (Inr rcpt, st')"
    using assms(2) by (simp add: ApplyTransactionEx_def split: if_splits)
  then obtain gas st1 root st2 where c: "contract_call P X C config msg st = Some (Inr gas, st1)"
      "finalise_tx P config number (IsEIP158 config number) st1 = Some (root, st2)"
      "rcpt = make_receipt P number (msg_tx msg) root False gas None st2"
      "ts_gp st' = ts_gp st2" "ts_usedGas st' = ts_usedGas st2" "ts_totalUsedMoney st' = ts_totalUsedMoney st2"
    by (auto simp: apply_contract_tx_def Let_def split_beta split: option.splits sum.splits)
  show ?thesis
    using contract_call_gas [OF c(1)] finalise_counters [OF c(2)] c(3-6) by (simp add: make_receipt_def NewReceipt_def Let_def)
next
  case False
  then have "apply_vm_tx P V config number msg st = Some (Inr rcpt, st')"
    using assms(2) by (simp add: ApplyTransactionEx_def split: if_splits)
  then obtain ret gas money failed st1 root st2 where c: "TransitionDbEx V config number msg st = Some (Inr (ret, gas, money, failed), st1)"
      "finalise_tx P config number False st1 = Some (root, st2)"
      "st' = st2\<lparr>ts_usedGas := ts_usedGas st2 + gas, ts_totalUsedMoney := ts_totalUsedMoney st2 + money\<rparr>"
      "rc_GasUsed rcpt = gas" "CumulativeGasUsed rcpt = ts_usedGas st2 + gas"
    by (auto simp: apply_vm_tx_def Let_def make_receipt_def NewReceipt_def
        split: option.splits sum.splits)
  show ?thesis
    using TransitionDbEx_gas [OF assms(1) c(1)] finalise_counters [OF c(2)] c(3-5) by (simp add: drained_def)
qed

definition gas_total :: "receipt list \<Rightarrow> nat" where
  "gas_total rcpts = (\<Sum>r \<leftarrow> rcpts. unat (rc_GasUsed r))"

lemma process_txs_gas:
  assumes "vm_returns_gas V" "process_txs P V X C config number bh i msgs st = Some (Inr rcpts, st')"
  shows "length rcpts = length msgs \<and> unat (ts_gp st) = unat (ts_gp st') + gas_total rcpts \<and>
    ts_usedGas st' = ts_usedGas st + of_nat (gas_total rcpts) \<and>
    ts_totalUsedMoney st' = ts_totalUsedMoney st +
      (\<Sum>(m, r) \<leftarrow> zip msgs rcpts. gas_value (rc_GasUsed r) (msg_GasPrice m)) \<and>
    (\<forall>n < length rcpts. CumulativeGasUsed (rcpts ! n) = ts_usedGas st + of_nat (gas_total (take (Suc n) rcpts)))"
  using assms(2)
proof (induction msgs arbitrary: i st rcpts)
  case Nil
  then show ?case
    by (simp add: gas_total_def)
next
  case (Cons msg msgs)
  obtain r st1 rs where c: "ApplyTransactionEx P V X C config number msg (upd_db (Prepare (tx_hash (msg_tx msg)) bh i) st) = Some (Inr r, st1)"
      "process_txs P V X C config number bh (i + 1) msgs st1 = Some (Inr rs, st')" "rcpts = r # rs"
    using Cons.prems by (auto split: option.splits sum.splits)
  note a = ApplyTransactionEx_gas [OF assms(1) c(1), unfolded tx_state_simps]
  note IH = Cons.IH [OF c(2)]
  have "CumulativeGasUsed (rcpts ! n) = ts_usedGas st + of_nat (gas_total (take (Suc n) rcpts))" if "n < length rcpts" for n
  proof (cases n)
    case 0
    then show ?thesis
      using a c(3) by (simp add: gas_total_def)
  next
    case (Suc k)
    then show ?thesis
      using a IH c(3) that by (simp add: gas_total_def add.assoc)
  qed
  then show ?case
    using a IH c(3) by (simp add: gas_total_def add.assoc)
qed

text \<open>
  C8: A block never uses more gas than its limit.  When all transactions of a block have been
  processed, there is a receipt for each, the gas reported for the block is the sum of the gas in
  the receipts, without any wrap-around, and is at most the block's limit; the cumulative gas of a receipt is the sum up to it;
  and the engine is handed exactly the fees of that gas, transaction by transaction.  This covers calls
  of the chain contract and messages to the virtual machine alike; of the latter it is used that
  byte code hands back no more gas than it was given.
\<close>
theorem block_gas_bounded:
  assumes "vm_returns_gas V"
    and "Process P V X C config engine number gasLimit bh msgs s = Some (Inr (rcpts, lgs, used, ops), st')"
  shows "length rcpts = length msgs \<and> unat used = (\<Sum>r \<leftarrow> rcpts. unat (rc_GasUsed r)) \<and> used \<le> gasLimit \<and>
    (\<forall>n < length rcpts. unat (CumulativeGasUsed (rcpts ! n)) = (\<Sum>r \<leftarrow> take (Suc n) rcpts. unat (rc_GasUsed r))) \<and>
    (\<exists>s1 s2. engine rcpts (\<Sum>(m, r) \<leftarrow> zip msgs rcpts. gas_value (rc_GasUsed r) (msg_GasPrice m)) s1 = Some (Inr (), s2))"
proof -
  obtain gp st1 s2 where p: "AddGas gasLimit 0 = Some gp"
      "process_txs P V X C config number bh 0 msgs
         \<lparr>ts_state = s\<lparr>ds_ops := []\<rparr>, ts_gp = gp, ts_usedGas = 0, ts_totalUsedMoney = 0\<rparr> = Some (Inr rcpts, st1)"
      "engine rcpts (ts_totalUsedMoney st1) (ts_state st1) = Some (Inr (), s2)" "used = ts_usedGas st1"
    using assms(2) by (auto simp: Process_def split: option.splits sum.splits)
  note g = process_txs_gas [OF assms(1) p(2), simplified]
  have gp: "unat gp = unat gasLimit"
    using p(1) by (simp add: AddGas_Some_iff)
  have le: "gas_total (take n rcpts) \<le> gas_total rcpts" for n
    unfolding gas_total_def by (metis append_take_drop_id le_add1 map_append sum_list_append)
  have b: "gas_total (take n rcpts) < 2 ^ 64" "gas_total rcpts < 2 ^ 64" for n
    using g gp le [of n] u64_less [of gasLimit] by linarith+
  have w: "unat (of_nat k :: 64 word) = k" if "k < 2 ^ 64" for k
    using that by (simp add: unat_of_nat)
  have "unat used = gas_total rcpts" "unat used \<le> unat gasLimit"
    using g p(4) gp b(2) by (simp_all add: w)
  moreover have "\<forall>n < length rcpts. unat (CumulativeGasUsed (rcpts ! n)) = gas_total (take (Suc n) rcpts)"
    using g b(1) by (simp add: w)
  moreover have "ts_totalUsedMoney st1 = (\<Sum>(m, r) \<leftarrow> zip msgs rcpts. gas_value (rc_GasUsed r) (msg_GasPrice m))"
    using g by simp
  ultimately show ?thesis
    using g p(3) unfolding gas_total_def word_le_nat_alt by auto
qed

definition sample_vm :: evm where
  "sample_vm = \<lparr>evm_Create = (\<lambda>a d g v db. (([], 0, None), db)), evm_Call = (\<lambda>a b d g v db. (([], g, None), db)),
     CreateAddress = (\<lambda>a n. a)\<rparr>"

definition sample_engine :: "receipt list \<Rightarrow> int \<Rightarrow> dstate \<Rightarrow> ((tx_error + unit) \<times> dstate) option" where
  "sample_engine rcpts money s = Some (Inr (), s)"

lemma sample_block_runs:
  "case Process (sample_selectors ''Delegate'') sample_vm sample_contract sample_chain sample_config sample_engine 7 50000 zero_hash
       [(sample_message [2])\<lparr>msg_To := Some [1]\<rparr>] (ts_state (sample_tx_state [2] None)) of
     Some (Inr (rcpts, lgs, used, ops), st') \<Rightarrow> used = 21084 \<and> length rcpts = 1 | _ \<Rightarrow> False"
  by code_simp

text \<open>A block with one transfer whose data has four zero bytes and one other.\<close>

theorem block_gas_bounded_witness:
  "vm_returns_gas sample_vm \<and>
   (\<exists>rcpts lgs ops st'. Process (sample_selectors ''Delegate'') sample_vm sample_contract sample_chain sample_config sample_engine
       7 50000 zero_hash [(sample_message [2])\<lparr>msg_To := Some [1]\<rparr>] (ts_state (sample_tx_state [2] None)) =
       Some (Inr (rcpts, lgs, 21084, ops), st') \<and> length rcpts = 1 \<and>
     (\<Sum>r \<leftarrow> rcpts. unat (rc_GasUsed r)) = unat (21084 :: 64 word) \<and> (21084 :: 64 word) \<le> 50000)"
proof -
  have v: "vm_returns_gas sample_vm"
    by (simp add: vm_returns_gas_def sample_vm_def)
  obtain x st' where x: "Process (sample_selectors ''Delegate'') sample_vm sample_contract sample_chain sample_config sample_engine
       7 50000 zero_hash [(sample_message [2])\<lparr>msg_To := Some [1]\<rparr>] (ts_state (sample_tx_state [2] None)) = Some (Inr x, st')"
      "case x of (rcpts, lgs, used, ops) \<Rightarrow> used = 21084 \<and> length rcpts = 1"
    using sample_block_runs by (rule succeededE)
  obtain rcpts lgs ops where y: "x = (rcpts, lgs, 21084, ops)" "length rcpts = 1"
    using x(2) by (cases x) auto
  note b = block_gas_bounded [OF v x(1) [unfolded y(1)]]
  show ?thesis
    by (intro conjI v exI) (use x(1) y b in \<open>simp_all only: conj_assoc\<close>)
qed

end
