(* ===== verification/Spec2Isabelle.thy ===== *)
theory Spec2Isabelle
  imports PartSets HeightVotes Transactions
begin

text \<open>
  Verification of the neatio node: a proof-of-stake chain in which validators vote on blocks in
  rounds, validators are chosen by delegated stake epoch by epoch, and stakes, rewards and
  balances live in a journaled account database.

  \<^bold>\<open>The parts of the program and how they interact.\<close>  A proposer cuts a block into parts with
  Merkle proofs; validators collect the parts, prevote and precommit, and a round is decided by a
  weighted majority whose threshold depends on the round.  Votes are collected in vote sets, one
  per round and type, or arrive as aggregated signatures; a majority of precommits becomes the commit
  carried by the next block.  A block's transactions are applied to the state database: messages to the virtual
  machine, or calls of the chain's built-in contract by which accounts register as candidates,
  delegate and take back stakes and withdraw rewards.  Contract calls record votes for the next
  epoch; at the last block of an epoch the votes are merged into the next validator set, refunds
  are paid and stakes become deposits.

  \<^bold>\<open>Theories, from the bottom up.\<close>

  \<^item> \<open>Prelude\<close> (shared vocabulary): Go slices, 64-bit integers and their conversions, sorting, the locale
    \<open>weighted_quorum\<close> with the intersection lemmas, generic lemmas and the collections of
    rewriting rules.
  \<^item> \<open>ChainTypes\<close>: block identifiers, votes, proposals, validators, addresses
    (\<open>consensus/neatpos/types/vote.go\<close>, \<open>proposal.go\<close>, \<open>block.go\<close>, \<open>canonical_json.go\<close>,
    \<open>validator.go\<close>, \<open>common/types.go\<close>).
  \<^item> \<open>Externals\<close>: the third-party bit arrays and signature aggregation as a record of
    functions with the documented laws as hypotheses, and an instance of them.
  \<^item> \<open>Validators\<close>: validator sets, the threshold and \<open>VerifyCommit\<close> (\<open>validator_set.go\<close>).  Two accepted commits share
    signers, except at the sixty-one lowest rounds of a machine integer, where the threshold wraps
    around and any signers are accepted; from round zero on the threshold is bounded; updates behave
    as on a map from addresses.
  \<^item> \<open>VoteSets\<close>: collecting the votes of a step (\<open>vote_set.go\<close>).  An invariant of all reachable vote sets, exactness
    and stability of majorities, blame for conflicting majorities, memory bounds, and what happens to
    a conflicting vote after a majority.
  \<^item> \<open>PartSets\<close>: cutting, checking and joining a block (\<open>part_set.go\<close>).  A complete set reads back the
    announced data unless one of its parts is a hash collision or a forged proof; nothing is assumed
    about collisions.
  \<^item> \<open>SignAggrs\<close>, \<open>HeightVotes\<close>: aggregates and the tables of all rounds of a height
    (\<open>sign_aggr.go\<close>, \<open>height_vote_set.go\<close>, \<open>height_sign_aggr.go\<close>).  Both tables are instances of one
    interface, the locale \<open>round_table\<close>.
  \<^item> \<open>StateTypes\<close>, \<open>StateDB\<close>: accounts, state objects, journal entries and every operation of the
    database (\<open>core/state\<close>).  \<open>StateViews\<close> says what can be read of a database,
    \<open>StateSnapshots\<close> that reverting restores it, and leaves alone the address sets that are not
    journaled; \<open>StateFinal\<close> that finalising a run without reverts persists the accounts, which reads
    are exempt, and a revert after which finalising panics.
  \<^item> \<open>Ledger\<close>: the database as a map from addresses to accounts, hiding objects, caches and the
    journal; each operation refines an update of the ledger.  \<open>Conservation\<close>: the locale
    \<open>ledger_relation\<close> of relations that runs of operations keep.
  \<^item> \<open>EpochStore\<close>, \<open>EpochTimes\<close>, \<open>EpochSwitch\<close>: storing, voting for, sizing, finding and entering
    epochs and the switch to the next validator set (\<open>consensus/neatpos/epoch\<close>).  Proposing an epoch
    succeeds within bounds as long as the clock runs forward; saving and entering survive a restart;
    the switch completes and conserves stakes.
  \<^item> \<open>Functions\<close>: the functions of the contract, the registry of callbacks, the gas pool and the
    intrinsic gas (\<open>neatabi/abi/abi.go\<close>, \<open>core/tx_callback.go\<close>, \<open>core/gaspool.go\<close>,
    \<open>core/state_transition.go\<close>).
  \<^item> \<open>Delegation\<close>: the callbacks of the contract and the pending operations
    (\<open>internal/neatapi/api.go\<close>, \<open>core/pending_ops.go\<close>, \<open>core/types/pending_ops.go\<close>).  \<open>DelegationBooks\<close>: a calculus of
    assertions on the ledger for them, the locale \<open>contract_relation\<close> and its two instances:
    the books are kept, and the contract stays solvent unless a candidate gives up while refunds
    are pending; validation and application agree.
  \<^item> \<open>Transactions\<close>: applying contract calls and messages and processing a block
    (\<open>core/state_processor.go\<close>, \<open>core/state_processor1.go\<close>, \<open>core/state_transition1.go\<close>).  Fees
    and gas are accounted for exactly, a block stays within its gas limit, and the contract branch
    panics exactly for short data, a panicking callback or a panicking \<open>Finalise\<close>.

  \<^bold>\<open>Conventions.\<close>  A Go function that may panic returns an option, \<^term>\<open>None\<close> being the panic; a
  nil pointer is \<^term>\<open>None\<close> too.  Errors are the left part of a sum and keep the state the code
  had reached.  \<open>uint64\<close> is \<^typ>\<open>64 word\<close> and wraps; \<open>big.Int\<close> is \<^typ>\<open>int\<close>; Go's \<open>int\<close> is \<^typ>\<open>int\<close> with
  \<open>int64_of\<close> written where arithmetic on rounds, part sizes and durations can overflow.  Tries are
  represented by their contents and the epoch database by a map from keys to bytes.  The order in
  which Go ranges over a map, the iteration of a trie with the recovery of its hashed keys, and the
  outcome of sorting on ties are fields of a record of run-time choices; \<open>runtime_ok\<close> is the
  hypothesis that a trie is iterated completely and all its keys are recovered.

  \<^bold>\<open>Loops and bounds.\<close>  All loops over slices and tries are structural recursions.  The search
  for an epoch by block number counts down a 64-bit number under a condition that always holds; it is a
  partial function, not returning being \<^term>\<open>None\<close>, and is shown to return.  Removing from a slice while ranging over it works on an explicit array of pointers of
  fixed length.  No fuel is used.

  \<^bold>\<open>Parameters.\<close>  Third-party bit arrays, aggregated signatures and Merkle trees, the wire codec, the
  consensus key scheme, the recovery of a sender, the decoding of contract arguments and selectors, trie hashes, bloom filters,
  execution of byte code, the engine's end-of-block work and operations on side chains are
  arguments of the definitions; laws about them are named hypotheses, each with an instance that
  satisfies it.

  \<^bold>\<open>Not modelled.\<close>  The round state machine (\<open>consensus/neatpos/consensus/state.go\<close>) and the reactor
  are goroutines driven by timers, channels and peers; the structures they work on are modelled,
  their scheduling is not.  Block rewards (\<open>consensus/neatpos/engine.go\<close>) use arbitrary-precision
  floating point.  The byte code interpreter, trie nodes, encodings and cryptography are
  parameters.  Networking, downloading, mining, the transaction pool, the block database, remote
  interfaces, key storage, command lines, logging and metrics are input and output around the
  modelled core.  Of the modelled files, string rendering and remote-call wrappers are left out.
\<close>

end
